(* ===== verification/Prelude.thy ===== *)
theory Prelude
  imports Complex_Main "HOL-Library.Word" "HOL-Library.Multiset" "HOL-Library.Product_Lexorder"
begin

text \<open>
  Shared vocabulary of the development: the machine integer of Go's \<open>int64\<close>, the type of
  prices, and the generic lemmas on words, lists and maps that the component theories use.
\<close>

section \<open>Collections\<close>

named_theorems keeps \<open>operations of a component keep its invariant\<close>

section \<open>Shared types\<close>

text \<open>
  Go's \<open>int64\<close> is a 64 bit word read as two's complement: \<open>+\<close> and \<open>-\<close> wrap around and
  comparisons are made on \<^const>\<open>sint\<close>.
\<close>

type_synonym int64 = "64 word"

section \<open>Signed 64 bit arithmetic\<close>

lemma sint64_bounds: "- (2 ^ 63) \<le> sint (x::int64)" "sint (x::int64) < 2 ^ 63"
  using sint_ge [of x] sint_lt [of x] by simp_all

lemma sint64_diff:
  fixes a b :: int64
  assumes "- (2 ^ 63) \<le> sint a - sint b" and "sint a - sint b < 2 ^ 63"
  shows "sint (a - b) = sint a - sint b"
  using assms by (simp add: sint_word_ariths signed_take_bit_int_eq_self)

lemma sint64_diff_le:
  fixes a b :: int64
  assumes "0 \<le> sint b" and "sint b \<le> sint a"
  shows "sint (a - b) = sint a - sint b"
  using assms sint64_bounds [of a] by (intro sint64_diff) linarith+

lemma sint64_add:
  fixes a b :: int64
  assumes "- (2 ^ 63) \<le> sint a + sint b" and "sint a + sint b < 2 ^ 63"
  shows "sint (a + b) = sint a + sint b"
  using assms by (simp add: sint_word_ariths signed_take_bit_int_eq_self)

lemma sint64_eq_0_iff [simp]: "sint (x::int64) = 0 \<longleftrightarrow> x = 0"
  using signed_word_eqI [of x 0] by auto

section \<open>Strings\<close>

text \<open>Strings are byte sequences, as in Go; \<open>byte c\<close> is the byte a character stands for.\<close>

definition byte :: "char \<Rightarrow> nat" where
  "byte c = of_char c"

definition is_digit :: "char \<Rightarrow> bool" where
  "is_digit c \<longleftrightarrow> 48 \<le> byte c \<and> byte c \<le> 57"

definition is_alnum :: "char \<Rightarrow> bool" where
  "is_alnum c \<longleftrightarrow> is_digit c \<or> 65 \<le> byte c \<and> byte c \<le> 90 \<or> 97 \<le> byte c \<and> byte c \<le> 122"

text \<open>Decimal notation of a non-negative integer, as \<open>%d\<close> and \<open>strconv.FormatInt\<close> print it.\<close>

fun dec_nat :: "nat \<Rightarrow> string" where
  "dec_nat n = (if n < 10 then [char_of (48 + n)] else dec_nat (n div 10) @ [char_of (48 + n mod 10)])"

declare dec_nat.simps [simp del]

definition dec :: "int \<Rightarrow> string" where
  "dec i = (if i < 0 then CHR ''-'' # dec_nat (nat (- i)) else dec_nat (nat i))"

definition digits_val :: "string \<Rightarrow> nat" where
  "digits_val cs = foldl (\<lambda>v c. 10 * v + (byte c - 48)) 0 cs"

lemma byte_char_of [simp]: "n < 256 \<Longrightarrow> byte (char_of n) = n"
  by (simp add: byte_def)

lemma digits_val_dec_nat [simp]: "digits_val (dec_nat n) = n"
proof (induction n rule: dec_nat.induct)
  case (1 n)
  show ?case
  proof (cases "n < 10")
    case True
    then show ?thesis by (subst dec_nat.simps) (simp add: digits_val_def)
  next
    case False
    with 1 have "digits_val (dec_nat (n div 10)) = n div 10" by simp
    with False show ?thesis
      by (subst dec_nat.simps) (simp add: digits_val_def)
  qed
qed

lemma dec_nat_inject [simp]: "dec_nat m = dec_nat n \<longleftrightarrow> m = n"
  by (metis digits_val_dec_nat)

lemma dec_nat_digits: "c \<in> set (dec_nat n) \<Longrightarrow> is_digit c"
proof (induction n rule: dec_nat.induct)
  case (1 n)
  show ?case
  proof (cases "n < 10")
    case True
    then show ?thesis using "1.prems" by (subst (asm) dec_nat.simps) (simp add: is_digit_def)
  next
    case False
    with 1 show ?thesis by (subst (asm) (2) dec_nat.simps) (auto simp: is_digit_def)
  qed
qed

text \<open>Two texts cut at the first separator agree piece by piece.\<close>

lemma append_sep_inject:
  assumes "xs @ c # xs' = ys @ c # ys'" and "c \<notin> set xs" and "c \<notin> set ys"
  shows "xs = ys \<and> xs' = ys'"
  using assms
proof (induction xs arbitrary: ys)
  case Nil
  then show ?case by (cases ys) auto
next
  case (Cons x xs)
  then show ?case by (cases ys) auto
qed

lemma append_sep_inject_right:
  assumes "xs @ c # xs' = ys @ c # ys'" and "c \<notin> set xs'" and "c \<notin> set ys'"
  shows "xs = ys \<and> xs' = ys'"
proof -
  have "rev xs' @ c # rev xs = rev ys' @ c # rev ys"
    using arg_cong [OF assms(1), of rev] by simp
  then show ?thesis using append_sep_inject [of "rev xs'" c "rev xs" "rev ys'" "rev ys"] assms(2,3) by simp
qed

section \<open>Lists\<close>

lemma map_insort_key: "map g (insort_key (\<lambda>a. k (g a)) x xs) = insort_key k (g x) (map g xs)"
  by (induction xs) auto

lemma filter_neq_mset:
  assumes "distinct xs" and "x \<in> set xs"
  shows "mset (filter (\<lambda>y. y \<noteq> x) xs) = mset xs - {#x#}"
proof -
  have "filter (\<lambda>y. y \<noteq> x) xs = remove1 x xs"
    using assms(1) by (subst distinct_remove1_removeAll) (simp_all add: removeAll_filter_not_eq eq_commute)
  then show ?thesis by simp
qed

lemma find_SomeD: "find P xs = Some x \<Longrightarrow> x \<in> set xs \<and> P x"
  by (induction xs) (auto split: if_splits)

text \<open>The values of a list of options, in order.\<close>

fun somes :: "'a option list \<Rightarrow> 'a list" where
  "somes [] = []"
| "somes (None # xs) = somes xs"
| "somes (Some x # xs) = x # somes xs"

lemma somes_append [simp]: "somes (xs @ ys) = somes xs @ somes ys"
  by (induction xs rule: somes.induct) simp_all

end
