(* ===== verification/Go_Heap.thy ===== *)
theory Go_Heap
  imports Prelude
begin

text \<open>
  Go's \<open>container/heap\<close>, generic in the methods of \<open>heap.Interface\<close> (\<open>Len\<close>, \<open>Less\<close>,
  \<open>Swap\<close>, \<open>Push\<close>, \<open>Pop\<close>), as the package is written: the two sifting loops and the
  five exported operations. The locale \<open>heap_interface\<close> states what a type promises when it
  implements the interface, and proves once what the package then guarantees.
\<close>

section \<open>The package\<close>

function heap_up :: "('s \<Rightarrow> nat \<Rightarrow> nat \<Rightarrow> bool) \<Rightarrow> ('s \<Rightarrow> nat \<Rightarrow> nat \<Rightarrow> 's) \<Rightarrow> 's \<Rightarrow> nat \<Rightarrow> 's" where
  "heap_up lt swap h j =
     (let i = (j - 1) div 2
      in if i = j \<or> \<not> lt h j i then h else heap_up lt swap (swap h i j) i)"
  by pat_completeness auto
termination
  by (relation "measure (\<lambda>(lt, swap, h, j). j)") auto

function heap_down_loop ::
    "('s \<Rightarrow> nat \<Rightarrow> nat \<Rightarrow> bool) \<Rightarrow> ('s \<Rightarrow> nat \<Rightarrow> nat \<Rightarrow> 's) \<Rightarrow> nat \<Rightarrow> 's \<Rightarrow> nat \<Rightarrow> 's \<times> nat" where
  "heap_down_loop lt swap n h i =
     (let j1 = 2 * i + 1
      in if j1 \<ge> n then (h, i)
         else let j2 = j1 + 1; j = (if j2 < n \<and> lt h j2 j1 then j2 else j1)
              in if \<not> lt h j i then (h, i)
                 else heap_down_loop lt swap n (swap h i j) j)"
  by pat_completeness auto
termination
  by (relation "measure (\<lambda>(lt, swap, n, h, i). n - i)") (auto simp: Let_def split: if_splits)

declare heap_up.simps [simp del] heap_down_loop.simps [simp del]

definition heap_down ::
    "('s \<Rightarrow> nat \<Rightarrow> nat \<Rightarrow> bool) \<Rightarrow> ('s \<Rightarrow> nat \<Rightarrow> nat \<Rightarrow> 's) \<Rightarrow> 's \<Rightarrow> nat \<Rightarrow> nat \<Rightarrow> 's \<times> bool" where
  "heap_down lt swap h i0 n =
     (let (h', i) = heap_down_loop lt swap n h i0 in (h', i0 < i))"

fun heap_init_loop ::
    "('s \<Rightarrow> nat \<Rightarrow> nat \<Rightarrow> bool) \<Rightarrow> ('s \<Rightarrow> nat \<Rightarrow> nat \<Rightarrow> 's) \<Rightarrow> nat \<Rightarrow> 's \<Rightarrow> nat \<Rightarrow> 's" where
  "heap_init_loop lt swap n h 0 = h"
| "heap_init_loop lt swap n h (Suc i) = heap_init_loop lt swap n (fst (heap_down lt swap h i n)) i"

definition heap_Init ::
    "('s \<Rightarrow> nat) \<Rightarrow> ('s \<Rightarrow> nat \<Rightarrow> nat \<Rightarrow> bool) \<Rightarrow> ('s \<Rightarrow> nat \<Rightarrow> nat \<Rightarrow> 's) \<Rightarrow> 's \<Rightarrow> 's" where
  "heap_Init len lt swap h = heap_init_loop lt swap (len h) h (len h div 2)"

definition heap_Push ::
    "('s \<Rightarrow> nat) \<Rightarrow> ('s \<Rightarrow> nat \<Rightarrow> nat \<Rightarrow> bool) \<Rightarrow> ('s \<Rightarrow> nat \<Rightarrow> nat \<Rightarrow> 's) \<Rightarrow> ('s \<Rightarrow> 'a \<Rightarrow> 's) \<Rightarrow> 's \<Rightarrow> 'a \<Rightarrow> 's" where
  "heap_Push len lt swap push h x =
     (let h' = push h x in heap_up lt swap h' (len h' - 1))"

definition heap_Pop ::
    "('s \<Rightarrow> nat) \<Rightarrow> ('s \<Rightarrow> nat \<Rightarrow> nat \<Rightarrow> bool) \<Rightarrow> ('s \<Rightarrow> nat \<Rightarrow> nat \<Rightarrow> 's) \<Rightarrow> ('s \<Rightarrow> 'a \<times> 's) \<Rightarrow> 's \<Rightarrow> 'a \<times> 's" where
  "heap_Pop len lt swap pop h =
     (let n = len h - 1
      in pop (fst (heap_down lt swap (swap h 0 n) 0 n)))"

definition heap_Remove ::
    "('s \<Rightarrow> nat) \<Rightarrow> ('s \<Rightarrow> nat \<Rightarrow> nat \<Rightarrow> bool) \<Rightarrow> ('s \<Rightarrow> nat \<Rightarrow> nat \<Rightarrow> 's) \<Rightarrow> ('s \<Rightarrow> 'a \<times> 's) \<Rightarrow> 's \<Rightarrow> nat \<Rightarrow> 'a \<times> 's" where
  "heap_Remove len lt swap pop h i =
     (let n = len h - 1;
          h' = (if n \<noteq> i
                then let (h2, moved) = heap_down lt swap (swap h i n) i n
                     in if \<not> moved then heap_up lt swap h2 i else h2
                else h)
      in pop h')"

definition heap_Fix ::
    "('s \<Rightarrow> nat) \<Rightarrow> ('s \<Rightarrow> nat \<Rightarrow> nat \<Rightarrow> bool) \<Rightarrow> ('s \<Rightarrow> nat \<Rightarrow> nat \<Rightarrow> 's) \<Rightarrow> 's \<Rightarrow> nat \<Rightarrow> 's" where
  "heap_Fix len lt swap h i =
     (let (h', moved) = heap_down lt swap h i (len h)
      in if \<not> moved then heap_up lt swap h' i else h')"

section \<open>Heap order on a vector of keys\<close>

text \<open>
  \<open>heap_on k n\<close>: the keys \<open>k 0, \<dots>, k (n - 1)\<close> form a binary heap. The two weakened forms
  describe the vector while position \<open>i\<close> is being sifted: \<open>heap_but\<close> says nothing about the
  edges at \<open>i\<close> except that its children stay above its parent, \<open>heap_but_down\<close> has the edge
  to the parent restored, \<open>heap_but_up\<close> the edges to the children.
\<close>

definition parent :: "nat \<Rightarrow> nat" where
  "parent x = (x - 1) div 2"

definition heap_on :: "(nat \<Rightarrow> 'k::linorder) \<Rightarrow> nat \<Rightarrow> bool" where
  "heap_on k n \<longleftrightarrow> (\<forall>x. 0 < x \<and> x < n \<longrightarrow> k (parent x) \<le> k x)"

definition heap_but :: "(nat \<Rightarrow> 'k::linorder) \<Rightarrow> nat \<Rightarrow> nat \<Rightarrow> bool" where
  "heap_but k n i \<longleftrightarrow> (\<forall>x. 0 < x \<and> x < n \<longrightarrow>
      (x \<noteq> i \<and> parent x \<noteq> i \<longrightarrow> k (parent x) \<le> k x) \<and>
      (parent x = i \<and> 0 < i \<longrightarrow> k (parent i) \<le> k x))"

definition heap_but_down :: "(nat \<Rightarrow> 'k::linorder) \<Rightarrow> nat \<Rightarrow> nat \<Rightarrow> bool" where
  "heap_but_down k n i \<longleftrightarrow> heap_but k n i \<and> (0 < i \<and> i < n \<longrightarrow> k (parent i) \<le> k i)"

definition heap_but_up :: "(nat \<Rightarrow> 'k::linorder) \<Rightarrow> nat \<Rightarrow> nat \<Rightarrow> bool" where
  "heap_but_up k n i \<longleftrightarrow> heap_but k n i \<and> (\<forall>x. 0 < x \<and> x < n \<and> parent x = i \<longrightarrow> k i \<le> k x)"

definition swap_fun :: "(nat \<Rightarrow> 'b) \<Rightarrow> nat \<Rightarrow> nat \<Rightarrow> nat \<Rightarrow> 'b" where
  "swap_fun k i j = k(i := k j, j := k i)"

lemma parent_less: "0 < x \<Longrightarrow> parent x < x"
  by (auto simp: parent_def)

lemma parent_eq_iff: "0 < x \<Longrightarrow> parent x = i \<longleftrightarrow> x = 2 * i + 1 \<or> x = 2 * i + 2"
  by (auto simp: parent_def)

lemma parent_0 [simp]: "parent 0 = 0"
  by (simp add: parent_def)

lemma swap_fun_simps [simp]:
  "swap_fun k i j i = (if i = j then k i else k j)"
  "swap_fun k i j j = k i"
  "x \<noteq> i \<Longrightarrow> x \<noteq> j \<Longrightarrow> swap_fun k i j x = k x"
  by (auto simp: swap_fun_def)

lemma heap_onD: "heap_on k n \<Longrightarrow> 0 < x \<Longrightarrow> x < n \<Longrightarrow> k (parent x) \<le> k x"
  by (simp add: heap_on_def)

lemma heap_butD:
  "heap_but k n i \<Longrightarrow> 0 < x \<Longrightarrow> x < n \<Longrightarrow> x \<noteq> i \<Longrightarrow> parent x \<noteq> i \<Longrightarrow> k (parent x) \<le> k x"
  "heap_but k n i \<Longrightarrow> 0 < x \<Longrightarrow> x < n \<Longrightarrow> parent x = i \<Longrightarrow> 0 < i \<Longrightarrow> k (parent i) \<le> k x"
  unfolding heap_but_def by blast+

lemma heap_on_min: "heap_on k n \<Longrightarrow> x < n \<Longrightarrow> k 0 \<le> k x"
proof (induction x rule: less_induct)
  case (less x)
  show ?case
  proof (cases "x = 0")
    case False
    then have "parent x < x" by (simp add: parent_less)
    with less have "k 0 \<le> k (parent x)" by simp
    also have "\<dots> \<le> k x" using less.prems False by (simp add: heap_onD)
    finally show ?thesis .
  qed simp
qed

lemma heap_on_butI: "heap_on k n \<Longrightarrow> heap_but k n i"
  unfolding heap_but_def
proof (intro allI impI conjI)
  fix x assume h: "heap_on k n" and x: "0 < x \<and> x < n"
  show "k (parent x) \<le> k x" using h x by (simp add: heap_onD)
  assume p: "parent x = i \<and> 0 < i"
  with x have "i < n" using parent_less [of x] by linarith
  then have "k (parent i) \<le> k i" using h p by (simp add: heap_onD)
  also have "\<dots> \<le> k x" using heap_onD [OF h, of x] x p by simp
  finally show "k (parent i) \<le> k x" .
qed

lemma heap_on_subset: "heap_on k n \<Longrightarrow> m \<le> n \<Longrightarrow> heap_on k m"
  by (simp add: heap_on_def)

lemma heap_on_cong: "(\<And>x. x < n \<Longrightarrow> k x = k' x) \<Longrightarrow> heap_on k n = heap_on k' n"
  unfolding heap_on_def
  by (metis less_trans parent_less)

lemma heap_but_change:
  assumes "heap_on k n" and "\<And>x. x < n \<Longrightarrow> x \<noteq> i \<Longrightarrow> k' x = k x"
  shows "heap_but k' n i"
  unfolding heap_but_def
proof (intro allI impI conjI)
  fix x assume x: "0 < x \<and> x < n"
  { assume "x \<noteq> i \<and> parent x \<noteq> i"
    with x show "k' (parent x) \<le> k' x"
      using assms heap_onD [OF assms(1), of x] parent_less [of x] by simp }
  { assume p: "parent x = i \<and> 0 < i"
    with x have "k (parent i) \<le> k x"
      using heap_butD(2) [OF heap_on_butI [OF assms(1)]] by blast
    moreover have "parent i < i" "i < x" using p x parent_less [of x] parent_less [of i] by auto
    ultimately show "k' (parent i) \<le> k' x" using x assms(2) [of x] assms(2) [of "parent i"] by simp }
qed

lemma swap_down_step:
  assumes but: "heap_but k n i" and j: "0 < j" "j < n" "parent j = i" and le: "k j \<le> k i"
    and least: "\<And>x. 0 < x \<Longrightarrow> x < n \<Longrightarrow> parent x = i \<Longrightarrow> k j \<le> k x"
  shows "heap_but_down (swap_fun k i j) n j"
  unfolding heap_but_down_def heap_but_def
proof (intro conjI allI impI)
  have ij: "i < j" using j parent_less by blast
  let ?k = "swap_fun k i j"
  show "?k (parent j) \<le> ?k j" using j ij le by simp
  fix x assume x: "0 < x \<and> x < n"
  { assume a: "x \<noteq> j \<and> parent x \<noteq> j"
    show "?k (parent x) \<le> ?k x"
    proof (cases "x = i")
      case True
      then have "parent x < i" using parent_less x by simp
      with True ij x j show ?thesis using heap_butD(2) [OF but, of j] by simp
    next
      case False
      with a x ij show ?thesis
        by (cases "parent x = i") (simp_all add: least heap_butD(1) [OF but])
    qed }
  { assume p: "parent x = j \<and> 0 < j"
    then have "x \<noteq> i" "x \<noteq> j" "parent x \<noteq> i" using parent_less [of x] x ij by auto
    then have "k j \<le> k x" using heap_butD(1) [OF but, of x] x p by simp
    with \<open>x \<noteq> i\<close> \<open>x \<noteq> j\<close> j ij show "?k (parent j) \<le> ?k x" by simp }
qed

lemma swap_up_step:
  assumes up: "heap_but_up k n j" and j: "0 < j" "j < n" and lt: "k j < k (parent j)"
  shows "heap_but_up (swap_fun k (parent j) j) n (parent j)"
  unfolding heap_but_up_def heap_but_def
proof (intro conjI allI impI)
  let ?i = "parent j" let ?k = "swap_fun k ?i j"
  have ij: "?i < j" using j parent_less by blast
  have but: "heap_but k n j" using up by (simp add: heap_but_up_def)
  fix x
  { assume x: "0 < x \<and> x < n"
    { assume a: "x \<noteq> ?i \<and> parent x \<noteq> ?i"
      then have "x \<noteq> j" by auto
      then show "?k (parent x) \<le> ?k x"
        using a x j heap_butD [OF but, of x] by (cases "parent x = j") auto }
    { assume p: "parent x = ?i \<and> 0 < ?i"
      have e: "k (parent ?i) \<le> k ?i"
        using heap_butD(1) [OF but, of ?i] p ij j parent_less [of ?i] by simp
      have pi: "parent ?i < ?i" using p parent_less by blast
      show "?k (parent ?i) \<le> ?k x"
      proof (cases "x = j")
        case False
        then have "k ?i \<le> k x" using heap_butD(1) [OF but, of x] x p ij by simp
        moreover have "x \<noteq> ?i" using p x parent_less [of x] by linarith
        ultimately show ?thesis using e pi ij False by simp
      qed (use e pi ij in simp) } }
  { assume x: "0 < x \<and> x < n \<and> parent x = ?i"
    then have "x \<noteq> ?i" using parent_less [of x] by linarith
    then show "?k ?i \<le> ?k x"
      using heap_butD(1) [OF but, of x] x ij lt by (cases "x = j") auto }
qed

lemma heap_but_down_stop:
  assumes "heap_but_down k n i" and "\<And>x. 0 < x \<Longrightarrow> x < n \<Longrightarrow> parent x = i \<Longrightarrow> k i \<le> k x"
  shows "heap_on k n"
  using assms unfolding heap_on_def heap_but_down_def by (metis heap_butD(1))

lemma heap_but_up_stop:
  assumes "heap_but_up k n j" and "0 < j \<Longrightarrow> k (parent j) \<le> k j"
  shows "heap_on k n"
  using assms unfolding heap_on_def heap_but_up_def by (metis heap_butD(1))

section \<open>The contract of \<open>heap.Interface\<close> and what the package guarantees\<close>

text \<open>
  \<open>arr\<close> is the slice behind the interface, \<open>dat\<close> the part of an element the methods never
  change, \<open>kf\<close> the sort key \<open>Less\<close> compares, \<open>idx\<close> the index an element records of itself.
\<close>

locale heap_interface =
  fixes len :: "'s \<Rightarrow> nat"
    and lt :: "'s \<Rightarrow> nat \<Rightarrow> nat \<Rightarrow> bool"
    and swap :: "'s \<Rightarrow> nat \<Rightarrow> nat \<Rightarrow> 's"
    and push :: "'s \<Rightarrow> 'a \<Rightarrow> 's"
    and pop :: "'s \<Rightarrow> 'a \<times> 's"
    and arr :: "'s \<Rightarrow> 'a list"
    and dat :: "'s \<Rightarrow> 'a \<Rightarrow> 'd"
    and kf :: "'d \<Rightarrow> 'k::linorder"
    and idx :: "'s \<Rightarrow> 'a \<Rightarrow> int"
  assumes len_arr: "len h = length (arr h)"
    and lt_key: "i < length (arr h) \<Longrightarrow> j < length (arr h) \<Longrightarrow>
        lt h i j \<longleftrightarrow> kf (dat h (arr h ! i)) < kf (dat h (arr h ! j))"
    and arr_swap: "i < length (arr h) \<Longrightarrow> j < length (arr h) \<Longrightarrow>
        arr (swap h i j) = (arr h)[i := arr h ! j, j := arr h ! i]"
    and idx_swap: "i < length (arr h) \<Longrightarrow> j < length (arr h) \<Longrightarrow>
        idx (swap h i j) = (idx h)(arr h ! j := int i, arr h ! i := int j)"
    and dat_swap: "dat (swap h i j) = dat h"
    and arr_push: "arr (push h x) = arr h @ [x]"
    and idx_push: "idx (push h x) = (idx h)(x := int (length (arr h)))"
    and dat_push: "dat (push h x) = dat h"
    and fst_pop: "arr h \<noteq> [] \<Longrightarrow> fst (pop h) = last (arr h)"
    and arr_pop: "arr h \<noteq> [] \<Longrightarrow> arr (snd (pop h)) = butlast (arr h)"
    and idx_pop: "arr h \<noteq> [] \<Longrightarrow> idx (snd (pop h)) = (idx h)(last (arr h) := -1)"
    and dat_pop: "arr h \<noteq> [] \<Longrightarrow> dat (snd (pop h)) = dat h"
begin

definition kat :: "'s \<Rightarrow> nat \<Rightarrow> 'k" where
  "kat h x = kf (dat h (arr h ! x))"

definition idx_ok :: "'s \<Rightarrow> bool" where
  "idx_ok h \<longleftrightarrow> (\<forall>i < length (arr h). idx h (arr h ! i) = int i)"

definition heap_inv :: "'s \<Rightarrow> bool" where
  "heap_inv h \<longleftrightarrow> distinct (arr h) \<and> idx_ok h \<and> heap_on (kat h) (length (arr h))"

text \<open>What sifting inside the first \<open>n\<close> positions may change.\<close>

definition sifted :: "nat \<Rightarrow> 's \<Rightarrow> 's \<Rightarrow> bool" where
  "sifted n h h' \<longleftrightarrow>
     mset (arr h') = mset (arr h) \<and> (\<forall>x \<ge> n. arr h' ! x = arr h ! x) \<and> dat h' = dat h \<and>
     (distinct (arr h) \<and> idx_ok h \<longrightarrow> idx_ok h') \<and>
     (\<forall>a. a \<notin> set (arr h) \<longrightarrow> idx h' a = idx h a)"

lemma sifted_refl [simp]: "sifted n h h"
  by (simp add: sifted_def)

lemma sifted_length: "sifted n h h' \<Longrightarrow> length (arr h') = length (arr h)"
  by (auto simp: sifted_def dest: mset_eq_length)

lemma sifted_set: "sifted n h h' \<Longrightarrow> set (arr h') = set (arr h)"
  by (auto simp: sifted_def dest: mset_eq_setD)

lemma sifted_distinct: "sifted n h h' \<Longrightarrow> distinct (arr h') = distinct (arr h)"
  by (auto simp: sifted_def dest: mset_eq_imp_distinct_iff)

lemma sifted_trans:
  assumes "sifted n h h1" and "sifted n h1 h2"
  shows "sifted n h h2"
  using assms sifted_set [OF assms(1)] sifted_distinct [OF assms(1)] by (simp add: sifted_def)

lemma kat_swap:
  assumes "i < length (arr h)" "j < length (arr h)"
  shows "kat (swap h i j) = swap_fun (kat h) i j"
  using assms by (auto simp: kat_def swap_fun_def arr_swap dat_swap nth_list_update fun_eq_iff)

lemma idx_ok_swap:
  assumes b: "i < length (arr h)" "j < length (arr h)" and d: "distinct (arr h)" and ok: "idx_ok h"
  shows "idx_ok (swap h i j)"
  unfolding idx_ok_def
proof (intro allI impI)
  fix x assume "x < length (arr (swap h i j))"
  then have x: "x < length (arr h)" using b by (simp add: arr_swap)
  have "idx h (arr h ! x) = int x" using ok x by (simp add: idx_ok_def)
  then show "idx (swap h i j) (arr (swap h i j) ! x) = int x"
    using b x d by (auto simp: arr_swap idx_swap nth_list_update nth_eq_iff_index_eq)
qed

lemma sifted_swap:
  assumes "i < n" "j < n" "n \<le> length (arr h)"
  shows "sifted n h (swap h i j)"
proof -
  have b: "i < length (arr h)" "j < length (arr h)" using assms by auto
  have "mset (arr (swap h i j)) = mset (arr h)"
    using b by (simp add: arr_swap mset_swap)
  moreover have "\<forall>x\<ge>n. arr (swap h i j) ! x = arr h ! x"
    using assms b by (auto simp: arr_swap)
  moreover have "\<forall>a. a \<notin> set (arr h) \<longrightarrow> idx (swap h i j) a = idx h a"
    using b by (auto simp: idx_swap)
  ultimately show ?thesis
    using b idx_ok_swap by (simp add: sifted_def dat_swap)
qed

lemma heap_up_unfold:
  "heap_up lt swap h j =
     (if j = 0 \<or> \<not> lt h j (parent j) then h else heap_up lt swap (swap h (parent j) j) (parent j))"
proof -
  have "parent j = j \<longleftrightarrow> j = 0" using parent_less [of j] by (cases "j = 0") auto
  then show ?thesis
    unfolding heap_up.simps [of lt swap h j] Let_def parent_def [symmetric] by simp
qed

text \<open>The child \<open>down\<close> compares with: the smaller of the two, the left one on a tie.\<close>

definition child :: "nat \<Rightarrow> 's \<Rightarrow> nat \<Rightarrow> nat" where
  "child n h i = (if 2 * i + 2 < n \<and> lt h (2 * i + 2) (2 * i + 1) then 2 * i + 2 else 2 * i + 1)"

lemma heap_down_loop_unfold:
  "heap_down_loop lt swap n h i =
     (if 2 * i + 1 \<ge> n \<or> \<not> lt h (child n h i) i then (h, i)
      else heap_down_loop lt swap n (swap h i (child n h i)) (child n h i))"
  by (subst heap_down_loop.simps) (simp add: Let_def child_def)

lemma child_bounds: "2 * i + 1 < n \<Longrightarrow> i < child n h i \<and> child n h i < n \<and> parent (child n h i) = i"
  by (auto simp: child_def parent_def)

lemma child_least:
  assumes "n \<le> length (arr h)" "2 * i + 1 < n" "0 < x" "x < n" "parent x = i"
  shows "kat h (child n h i) \<le> kat h x"
proof -
  have "x = 2 * i + 1 \<or> x = 2 * i + 2" using assms parent_eq_iff by blast
  then show ?thesis using assms by (auto simp: child_def kat_def lt_key)
qed

lemma lt_kat: "i < length (arr h) \<Longrightarrow> j < length (arr h) \<Longrightarrow> lt h i j \<longleftrightarrow> kat h i < kat h j"
  by (simp add: lt_key kat_def)

lemma stay_least:
  assumes "2 * i + 1 \<ge> n \<or> \<not> lt h (child n h i) i" "n \<le> length (arr h)"
    and "0 < x" "x < n" "parent x = i"
  shows "kat h i \<le> kat h x"
proof -
  have i: "2 * i + 1 < n" using assms parent_eq_iff [of x i] by auto
  with assms(1,2) child_bounds [OF i, of h] have "kat h i \<le> kat h (child n h i)"
    by (simp add: lt_kat)
  also have "\<dots> \<le> kat h x" using child_least assms i by blast
  finally show ?thesis .
qed

lemma up_sifted: "j < n \<Longrightarrow> n \<le> length (arr h) \<Longrightarrow> sifted n h (heap_up lt swap h j)"
proof (induction j arbitrary: h rule: less_induct)
  case (less j)
  show ?case
  proof (cases "j = 0 \<or> \<not> lt h j (parent j)")
    case False
    then have p: "parent j < j" by (simp add: parent_less)
    with less.prems have s: "sifted n h (swap h (parent j) j)" by (intro sifted_swap) auto
    with less p have "sifted n (swap h (parent j) j) (heap_up lt swap (swap h (parent j) j) (parent j))"
      by (simp add: sifted_length)
    with s False show ?thesis
      by (subst heap_up_unfold) (auto intro: sifted_trans)
  qed (subst heap_up_unfold, simp)
qed

lemma up_heap:
  "j < n \<Longrightarrow> n \<le> length (arr h) \<Longrightarrow> heap_but_up (kat h) n j \<Longrightarrow> heap_on (kat (heap_up lt swap h j)) n"
proof (induction j arbitrary: h rule: less_induct)
  case (less j)
  show ?case
  proof (cases "j = 0 \<or> \<not> lt h j (parent j)")
    case False
    then have p: "parent j < j" by (simp add: parent_less)
    with False less.prems have k: "kat h j < kat h (parent j)"
      by (simp add: lt_kat)
    have b: "parent j < length (arr h)" "j < length (arr h)" using p less.prems by auto
    have "heap_but_up (kat (swap h (parent j) j)) n (parent j)"
      using swap_up_step [OF less.prems(3) _ less.prems(1) k] False by (simp add: kat_swap [OF b])
    moreover have "length (arr (swap h (parent j) j)) = length (arr h)"
      using b by (simp add: arr_swap)
    ultimately show ?thesis
      using less p False by (subst heap_up_unfold) simp
  next
    case True
    then have "0 < j \<Longrightarrow> kat h (parent j) \<le> kat h j"
      using less.prems parent_less [of j] by (auto simp: lt_kat)
    with True show ?thesis
      using heap_but_up_stop [OF less.prems(3)] by (subst heap_up_unfold) simp
  qed
qed

lemma down_sifted:
  "n \<le> length (arr h) \<Longrightarrow> sifted n h (fst (heap_down_loop lt swap n h i)) \<and> i \<le> snd (heap_down_loop lt swap n h i)"
proof (induction "n - i" arbitrary: h i rule: less_induct)
  case less
  show ?case
  proof (cases "2 * i + 1 \<ge> n \<or> \<not> lt h (child n h i) i")
    case False
    let ?j = "child n h i" let ?h = "swap h i ?j"
    have c: "i < ?j" "?j < n" using False child_bounds by auto
    then have s: "sifted n h ?h" using less.prems by (intro sifted_swap) auto
    have "sifted n ?h (fst (heap_down_loop lt swap n ?h ?j)) \<and> ?j \<le> snd (heap_down_loop lt swap n ?h ?j)"
      using c less.prems s by (intro less.hyps) (auto simp: sifted_length)
    with s c False show ?thesis
      by (subst (1 2) heap_down_loop_unfold) (auto intro: sifted_trans)
  qed (subst (1 2) heap_down_loop_unfold, simp)
qed

lemma down_heap:
  "n \<le> length (arr h) \<Longrightarrow> heap_but_down (kat h) n i \<Longrightarrow> heap_on (kat (fst (heap_down_loop lt swap n h i))) n"
proof (induction "n - i" arbitrary: h i rule: less_induct)
  case less
  show ?case
  proof (cases "2 * i + 1 \<ge> n \<or> \<not> lt h (child n h i) i")
    case False
    let ?j = "child n h i" let ?h = "swap h i ?j"
    have c: "i < ?j" "?j < n" "parent ?j = i" "2 * i + 1 < n" using False child_bounds by auto
    have b: "i < length (arr h)" "?j < length (arr h)" using c less.prems by auto
    have "heap_but_down (swap_fun (kat h) i ?j) n ?j"
    proof (rule swap_down_step)
      show "heap_but (kat h) n i" using less.prems by (simp add: heap_but_down_def)
      show "kat h ?j \<le> kat h i" using False b by (auto simp: lt_kat)
    qed (use c less.prems child_least in auto)
    then have "heap_on (kat (fst (heap_down_loop lt swap n ?h ?j))) n"
      using c less.prems b by (intro less.hyps) (auto simp: kat_swap arr_swap)
    with False show ?thesis by (subst heap_down_loop_unfold) simp
  next
    case True
    have "kat h i \<le> kat h x" if "0 < x" "x < n" "parent x = i" for x
      using stay_least True less.prems(1) that by blast
    with True show ?thesis
      using heap_but_down_stop [OF less.prems(2)] by (subst heap_down_loop_unfold) simp
  qed
qed

text \<open>
  \<open>down\<close> from a position with both sides open: either it moved and the vector is a heap, or it
  stayed and only the edge to the parent is left.
\<close>

lemma down_open:
  assumes n: "n \<le> length (arr h)" and but: "heap_but (kat h) n i"
    and r: "heap_down_loop lt swap n h i = (h', i')"
  shows "if i < i' then heap_on (kat h') n else h' = h \<and> heap_but_up (kat h) n i"
proof (cases "2 * i + 1 \<ge> n \<or> \<not> lt h (child n h i) i")
  case False
  let ?j = "child n h i" let ?h = "swap h i ?j"
  have c: "i < ?j" "?j < n" "parent ?j = i" "2 * i + 1 < n" using False child_bounds by auto
  have b: "i < length (arr h)" "?j < length (arr h)" using c n by auto
  have r': "heap_down_loop lt swap n ?h ?j = (h', i')"
    using r False by (subst (asm) heap_down_loop_unfold) simp
  have "heap_but_down (swap_fun (kat h) i ?j) n ?j"
  proof (rule swap_down_step [OF but])
    show "kat h ?j \<le> kat h i" using False b by (auto simp: lt_kat)
  qed (use c n child_least in auto)
  moreover have l: "n \<le> length (arr ?h)" using b n by (simp add: arr_swap)
  ultimately have "heap_on (kat h') n"
    using down_heap [of n ?h ?j] b r' by (simp add: kat_swap)
  moreover have "?j \<le> i'" using down_sifted [OF l, of ?j] r' by simp
  ultimately show ?thesis using c by simp
next
  case True
  then have eq: "h' = h" "i' = i" using r by (subst (asm) heap_down_loop_unfold, simp)+
  have "kat h i \<le> kat h x" if "0 < x" "x < n" "parent x = i" for x
    using stay_least True n that by blast
  with eq but show ?thesis by (simp add: heap_but_up_def)
qed

lemma heap_inv_sifted:
  "sifted n h h' \<Longrightarrow> distinct (arr h) \<Longrightarrow> idx_ok h \<Longrightarrow> heap_on (kat h') (length (arr h)) \<Longrightarrow> heap_inv h'"
  by (auto simp: heap_inv_def sifted_length sifted_distinct) (simp add: sifted_def)

theorem heap_inv_empty: "arr h = [] \<Longrightarrow> heap_inv h"
  by (simp add: heap_inv_def idx_ok_def heap_on_def)

theorem heap_top_least:
  assumes "heap_inv h" and "a \<in> set (arr h)"
  shows "kf (dat h (arr h ! 0)) \<le> kf (dat h a)"
proof -
  from assms(2) obtain x where "x < length (arr h)" "a = arr h ! x" by (auto simp: in_set_conv_nth)
  then show ?thesis using heap_on_min [of "kat h" "length (arr h)" x] assms(1) by (simp add: heap_inv_def kat_def)
qed

theorem heap_idx: "heap_inv h \<Longrightarrow> a \<in> set (arr h) \<Longrightarrow> 0 \<le> idx h a \<and> nat (idx h a) < length (arr h) \<and> arr h ! nat (idx h a) = a"
  by (auto simp: heap_inv_def idx_ok_def in_set_conv_nth)

theorem heap_Push_correct:
  assumes inv: "heap_inv h" and new: "x \<notin> set (arr h)" and h': "h' = heap_Push len lt swap push h x"
  shows "heap_inv h'" and "mset (arr h') = add_mset x (mset (arr h))" and "dat h' = dat h"
    and "\<And>a. a \<notin> set (arr h') \<Longrightarrow> idx h' a = idx h a"
proof -
  let ?p = "push h x" let ?n = "length (arr h)"
  have l: "length (arr ?p) = Suc ?n" by (simp add: arr_push)
  have eq: "h' = heap_up lt swap ?p ?n"
    by (simp add: h' heap_Push_def Let_def len_arr l)
  have s: "sifted (Suc ?n) ?p h'" unfolding eq by (rule up_sifted) (simp_all add: l)
  have k: "kat ?p y = kat h y" if "y < ?n" for y
    using that by (simp add: kat_def arr_push dat_push nth_append)
  have "heap_but_up (kat ?p) (Suc ?n) ?n"
  proof -
    have "heap_but_up (kat ?p) (Suc ?n) ?n \<longleftrightarrow> heap_but (kat ?p) (Suc ?n) ?n"
      unfolding heap_but_up_def using parent_less by (metis less_Suc_eq not_less_iff_gr_or_eq order.strict_trans)
    moreover have "heap_on (kat ?p) ?n"
      using inv heap_on_cong [of ?n "kat ?p" "kat h"] k by (simp add: heap_inv_def)
    then have "heap_but (kat ?p) (Suc ?n) ?n"
      unfolding heap_but_def heap_on_def
      by (metis less_Suc_eq not_less_iff_gr_or_eq order.strict_trans parent_less)
    ultimately show ?thesis by simp
  qed
  then have hp: "heap_on (kat h') (length (arr ?p))" unfolding eq l by (intro up_heap) (simp_all add: l)
  have "idx_ok ?p"
    using inv new by (auto simp: heap_inv_def idx_ok_def arr_push idx_push nth_append less_Suc_eq)
  moreover have "distinct (arr ?p)" using inv new by (simp add: heap_inv_def arr_push)
  ultimately show "heap_inv h'" using s hp heap_inv_sifted by blast
  show "mset (arr h') = add_mset x (mset (arr h))" "dat h' = dat h"
    using s by (simp_all add: sifted_def arr_push dat_push)
  show "idx h' a = idx h a" if "a \<notin> set (arr h')" for a
    using s that sifted_set [OF s] by (auto simp: sifted_def arr_push idx_push)
qed

text \<open>
  The common end of \<open>Pop\<close> and \<open>Remove\<close>: the element leaving sits at the last position, the
  rest is a heap, and the interface's own \<open>Pop\<close> drops it.
\<close>

lemma take_out:
  assumes inv: "heap_inv h" and i: "i < length (arr h)" and n: "n = length (arr h) - 1"
    and s1: "sifted (Suc n) h h1" and at: "arr h1 ! n = arr h ! i"
    and s2: "sifted n h1 h2" and hp: "heap_on (kat h2) n"
  shows "fst (pop h2) = arr h ! i" and "heap_inv (snd (pop h2))"
    and "mset (arr (snd (pop h2))) = mset (arr h) - {#arr h ! i#}"
    and "dat (snd (pop h2)) = dat h"
    and "idx (snd (pop h2)) (arr h ! i) = -1"
    and "\<And>a. a \<notin> set (arr h) \<Longrightarrow> idx (snd (pop h2)) a = idx h a"
proof -
  have len: "length (arr h2) = Suc n" "length (arr h1) = Suc n"
    using sifted_length [OF s1] sifted_length [OF s2] i n by auto
  then have ne: "arr h2 \<noteq> []" by auto
  have last: "last (arr h2) = arr h ! i"
    using s2 at len ne by (simp add: sifted_def last_conv_nth)
  have s: "mset (arr h2) = mset (arr h)" "dat h2 = dat h" "set (arr h2) = set (arr h)"
    using s1 s2 sifted_set [OF s1] sifted_set [OF s2] by (auto simp: sifted_def)
  have d: "distinct (arr h2)" and ok: "idx_ok h2"
    using inv s1 s2 sifted_distinct [OF s1] sifted_distinct [OF s2]
    by (auto simp: sifted_def heap_inv_def)
  show "fst (pop h2) = arr h ! i" using fst_pop [OF ne] last by simp
  show "mset (arr (snd (pop h2))) = mset (arr h) - {#arr h ! i#}"
    using arr_pop [OF ne] append_butlast_last_id [OF ne] s(1) last
    by (metis add_mset_remove_trivial mset.simps(2) mset_append union_mset_add_mset_right add_0_right mset.simps(1))
  show "dat (snd (pop h2)) = dat h" using dat_pop [OF ne] s by simp
  show "idx (snd (pop h2)) (arr h ! i) = -1" using idx_pop [OF ne] last by simp
  show "idx (snd (pop h2)) a = idx h a" if "a \<notin> set (arr h)" for a
  proof -
    have "a \<noteq> last (arr h2)" using that s ne by auto
    moreover have "idx h2 a = idx h a"
      using s1 s2 that sifted_set [OF s1] by (simp add: sifted_def)
    ultimately show ?thesis using idx_pop [OF ne] by simp
  qed
  have bl: "butlast (arr h2) ! x = arr h2 ! x" if "x < n" for x
    using that len by (simp add: nth_butlast)
  have "heap_on (kat (snd (pop h2))) n"
    using hp heap_on_cong [of n "kat (snd (pop h2))" "kat h2"]
    by (simp add: kat_def arr_pop [OF ne] dat_pop [OF ne] bl)
  moreover have "idx_ok (snd (pop h2))"
    using ok d len bl ne unfolding idx_ok_def
    by (simp add: arr_pop [OF ne] idx_pop [OF ne] last_conv_nth nth_eq_iff_index_eq)
  ultimately show "heap_inv (snd (pop h2))"
    using d by (simp add: heap_inv_def arr_pop [OF ne] len distinct_butlast)
qed

lemma swap_last:
  assumes inv: "heap_inv h" and i: "i < length (arr h)" and n: "n = length (arr h) - 1"
  shows "sifted (Suc n) h (swap h i n)" and "arr (swap h i n) ! n = arr h ! i"
    and "heap_but (kat (swap h i n)) n i" and "length (arr (swap h i n)) = Suc n"
proof -
  have b: "i < length (arr h)" "n < length (arr h)" using i n by auto
  show "sifted (Suc n) h (swap h i n)" using b n by (intro sifted_swap) auto
  show "arr (swap h i n) ! n = arr h ! i" using b by (simp add: arr_swap)
  show "length (arr (swap h i n)) = Suc n" using b n by (simp add: arr_swap)
  show "heap_but (kat (swap h i n)) n i"
  proof (rule heap_but_change)
    show "heap_on (kat h) n" using inv n heap_on_subset [of "kat h" "length (arr h)" n]
      by (simp add: heap_inv_def)
  qed (simp add: kat_swap [OF b])
qed

theorem heap_Pop_correct:
  assumes inv: "heap_inv h" and ne: "arr h \<noteq> []" and r: "r = heap_Pop len lt swap pop h"
  shows "fst r = arr h ! 0" and "heap_inv (snd r)" and "mset (arr (snd r)) = mset (arr h) - {#arr h ! 0#}"
    and "dat (snd r) = dat h" and "idx (snd r) (arr h ! 0) = -1"
    and "\<And>a. a \<notin> set (arr h) \<Longrightarrow> idx (snd r) a = idx h a"
proof -
  define n where "n = length (arr h) - 1"
  have i: "0 < length (arr h)" using ne by simp
  note sw = swap_last [OF inv i n_def]
  let ?h2 = "fst (heap_down_loop lt swap n (swap h 0 n) 0)"
  have r': "r = pop ?h2"
    by (simp add: r heap_Pop_def Let_def heap_down_def len_arr n_def case_prod_beta)
  have s2: "sifted n (swap h 0 n) ?h2" using down_sifted [of n "swap h 0 n" 0] sw(4) by simp
  have "heap_but_down (kat (swap h 0 n)) n 0" using sw(3) by (simp add: heap_but_down_def)
  then have hp: "heap_on (kat ?h2) n" using sw(4) by (intro down_heap) simp_all
  note t = take_out [OF inv i n_def sw(1,2) s2 hp, folded r']
  show "fst r = arr h ! 0" "heap_inv (snd r)" "mset (arr (snd r)) = mset (arr h) - {#arr h ! 0#}"
    "dat (snd r) = dat h" "idx (snd r) (arr h ! 0) = -1" by (rule t)+
  show "\<And>a. a \<notin> set (arr h) \<Longrightarrow> idx (snd r) a = idx h a" by (rule t(6))
qed

theorem heap_Remove_correct:
  assumes inv: "heap_inv h" and i: "i < length (arr h)" and r: "r = heap_Remove len lt swap pop h i"
  shows "fst r = arr h ! i" and "heap_inv (snd r)" and "mset (arr (snd r)) = mset (arr h) - {#arr h ! i#}"
    and "dat (snd r) = dat h" and "idx (snd r) (arr h ! i) = -1"
    and "\<And>a. a \<notin> set (arr h) \<Longrightarrow> idx (snd r) a = idx h a"
proof -
  define n where "n = length (arr h) - 1"
  note sw = swap_last [OF inv i n_def]
  let ?s = "swap h i n"
  obtain h2 i2 where dl: "heap_down_loop lt swap n ?s i = (h2, i2)" by fastforce
  define h1 where "h1 = (if n = i then h else ?s)"
  define h3 where "h3 = (if n = i then h else if i < i2 then h2 else heap_up lt swap h2 i)"
  have r': "r = pop h3"
    unfolding r heap_Remove_def Let_def heap_down_def len_arr n_def [symmetric] dl
    by (simp add: h3_def)
  have s1: "sifted (Suc n) h h1" and at: "arr h1 ! n = arr h ! i"
    using sw by (auto simp: h1_def)
  have "sifted n h1 h3 \<and> heap_on (kat h3) n"
  proof (cases "n = i")
    case True
    then show ?thesis
      using inv n_def heap_on_subset [of "kat h" "length (arr h)" n] by (simp add: h1_def h3_def heap_inv_def)
  next
    case False
    then have "i < n" using i n_def by simp
    have s2: "sifted n ?s h2" using down_sifted [of n ?s i] sw(4) dl by simp
    have op: "if i < i2 then heap_on (kat h2) n else h2 = ?s \<and> heap_but_up (kat ?s) n i"
      using down_open [OF _ sw(3) dl] sw(4) by simp
    show ?thesis
    proof (cases "i < i2")
      case True
      with False s2 op show ?thesis by (simp add: h1_def h3_def)
    next
      case False
      with op \<open>i < n\<close> sw(4) \<open>n \<noteq> i\<close> show ?thesis
        by (simp add: h1_def h3_def up_sifted up_heap)
    qed
  qed
  then have s2: "sifted n h1 h3" and hp: "heap_on (kat h3) n" by auto
  note t = take_out [OF inv i n_def s1 at s2 hp, folded r']
  show "fst r = arr h ! i" "heap_inv (snd r)" "mset (arr (snd r)) = mset (arr h) - {#arr h ! i#}"
    "dat (snd r) = dat h" "idx (snd r) (arr h ! i) = -1" by (rule t)+
  show "\<And>a. a \<notin> set (arr h) \<Longrightarrow> idx (snd r) a = idx h a" by (rule t(6))
qed

text \<open>What \<open>Pop\<close> and \<open>Fix\<close> do whatever the order of the array.\<close>

lemma heap_Pop_frame:
  assumes ne: "arr h \<noteq> []"
  shows "length (arr (snd (heap_Pop len lt swap pop h))) = length (arr h) - 1"
    and "dat (snd (heap_Pop len lt swap pop h)) = dat h"
proof -
  define n where "n = length (arr h) - 1"
  let ?h1 = "swap h 0 n" let ?h2 = "fst (heap_down_loop lt swap n ?h1 0)"
  have l: "length (arr ?h1) = length (arr h)" using ne by (simp add: arr_swap n_def)
  have s: "sifted n ?h1 ?h2" using down_sifted [of n ?h1 0] l n_def by simp
  have r: "heap_Pop len lt swap pop h = pop ?h2"
    by (simp add: heap_Pop_def Let_def heap_down_def len_arr n_def case_prod_beta)
  have "arr ?h2 \<noteq> []" using sifted_length [OF s] l ne by auto
  then show "length (arr (snd (heap_Pop len lt swap pop h))) = length (arr h) - 1"
    "dat (snd (heap_Pop len lt swap pop h)) = dat h"
    using s sifted_length [OF s] l
    unfolding r by (simp_all add: arr_pop dat_pop sifted_def dat_swap)
qed

lemma heap_Fix_frame:
  assumes i: "i < length (arr h)"
  shows "length (arr (heap_Fix len lt swap h i)) = length (arr h)"
    and "dat (heap_Fix len lt swap h i) = dat h"
proof -
  let ?n = "length (arr h)"
  obtain h2 i2 where dl: "heap_down_loop lt swap ?n h i = (h2, i2)" by fastforce
  have s: "sifted ?n h h2" using down_sifted [of ?n h i] dl by simp
  moreover have "sifted ?n h2 (heap_up lt swap h2 i)"
    using i sifted_length [OF s] by (intro up_sifted) auto
  ultimately have "sifted ?n h (heap_Fix len lt swap h i)"
    by (auto simp: heap_Fix_def heap_down_def len_arr dl intro: sifted_trans)
  then show "length (arr (heap_Fix len lt swap h i)) = length (arr h)"
    "dat (heap_Fix len lt swap h i) = dat h"
    by (auto simp: sifted_length) (simp add: sifted_def)
qed

text \<open>\<open>Fix\<close> on a position whose key did not change leaves the heap as it is.\<close>

theorem heap_Fix_same:
  assumes inv: "heap_inv h" and i: "i < length (arr h)"
  shows "heap_Fix len lt swap h i = h"
proof -
  let ?n = "length (arr h)"
  have hp: "heap_on (kat h) ?n" using inv by (simp add: heap_inv_def)
  have "heap_down_loop lt swap ?n h i = (h, i)"
  proof (subst heap_down_loop_unfold, rule if_P, rule disjCI)
    assume "\<not> \<not> lt h (child ?n h i) i"
    show "2 * i + 1 \<ge> ?n"
    proof (rule ccontr)
      assume "\<not> 2 * i + 1 \<ge> ?n"
      then have c: "i < child ?n h i" "child ?n h i < ?n" "parent (child ?n h i) = i"
        using child_bounds [of i ?n h] by auto
      then have "kat h i \<le> kat h (child ?n h i)" using heap_onD [OF hp, of "child ?n h i"] by simp
      then show False using \<open>\<not> \<not> lt h (child ?n h i) i\<close> c i by (simp add: lt_kat)
    qed
  qed
  moreover have "heap_up lt swap h i = h"
    using heap_onD [OF hp, of i] i parent_less [of i]
    by (subst heap_up_unfold) (auto simp: lt_kat)
  ultimately show ?thesis by (simp add: heap_Fix_def heap_down_def len_arr)
qed

end

end
