(* ===== verification/Clock.thy ===== *)
theory Clock
  imports Prelude
begin

text \<open>
  The timestamp source of the stub engine, \<open>now\<close> in \<open>src/services/stub/main.go\<close>: one atomic
  \<open>lastTimestamp\<close> shared by all goroutines and advanced by a compare-and-swap loop. The loop is
  a step relation over any number of goroutines; \<open>now\<close> is the run of one goroutine that no
  other one disturbs, which is what the code under the orderbook's mutex uses. Timestamps are
  unbounded: nanoseconds since 1970 leave the range of \<open>int64\<close> in the year 2262.
\<close>

section \<open>The loop under interleaving\<close>

datatype now_pc =
    Idle
  | Looping (pc_ts: int)
  | Loaded (pc_ts: int) (pc_old: int)

record now_sys =
  shared :: int
  pcs :: "nat \<Rightarrow> now_pc"
  returned :: "int list"

definition now_load :: "int \<Rightarrow> int \<Rightarrow> now_pc" where
  "now_load ts old = Loaded (if ts \<le> old then old + 1 else ts) old"

inductive now_step :: "now_sys \<Rightarrow> now_sys \<Rightarrow> bool" where
  enter: "pcs s t = Idle \<Longrightarrow> now_step s (s\<lparr>pcs := (pcs s)(t := Looping ts)\<rparr>)"
| load: "pcs s t = Looping ts \<Longrightarrow> now_step s (s\<lparr>pcs := (pcs s)(t := now_load ts (shared s))\<rparr>)"
| cas_ok: "pcs s t = Loaded ts old \<Longrightarrow> shared s = old \<Longrightarrow>
     now_step s (s\<lparr>shared := ts, pcs := (pcs s)(t := Idle), returned := ts # returned s\<rparr>)"
| cas_fail: "pcs s t = Loaded ts old \<Longrightarrow> shared s \<noteq> old \<Longrightarrow>
     now_step s (s\<lparr>pcs := (pcs s)(t := Looping ts)\<rparr>)"

definition now_init :: "now_sys" where
  "now_init = \<lparr>shared = 0, pcs = (\<lambda>_. Idle), returned = []\<rparr>"

inductive now_reachable :: "now_sys \<Rightarrow> bool" where
  start: "now_reachable now_init"
| step: "now_reachable s \<Longrightarrow> now_step s s' \<Longrightarrow> now_reachable s'"

inductive_cases now_stepE: "now_step s s'"

definition now_inv :: "now_sys \<Rightarrow> bool" where
  "now_inv s \<longleftrightarrow> (\<forall>t ts old. pcs s t = Loaded ts old \<longrightarrow> old < ts) \<and>
     sorted_wrt (>) (returned s) \<and> (\<forall>r \<in> set (returned s). r \<le> shared s)"

lemma now_step_inv: "now_step s s' \<Longrightarrow> now_inv s \<Longrightarrow> now_inv s'"
  by (erule now_stepE) (force simp: now_inv_def now_load_def)+

lemma now_reachable_inv: "now_reachable s \<Longrightarrow> now_inv s"
proof (induction rule: now_reachable.induct)
  case start
  show ?case by (simp add: now_inv_def now_init_def)
qed (rule now_step_inv)

section \<open>The undisturbed run\<close>

text \<open>\<open>wall\<close> lists what \<open>time.Now().UnixNano()\<close> answers, call after call.\<close>

record Clock =
  lastTimestamp :: int
  wall :: "nat \<Rightarrow> int"
  reads :: nat

definition now :: "Clock \<Rightarrow> int \<times> Clock" where
  "now clk =
     (let ts = wall clk (reads clk);
          ts' = (if ts \<le> lastTimestamp clk then lastTimestamp clk + 1 else ts)
      in (ts', clk\<lparr>lastTimestamp := ts', reads := Suc (reads clk)\<rparr>))"

lemma now_props:
  "now clk = (ts, clk') \<Longrightarrow> lastTimestamp clk < ts \<and> lastTimestamp clk' = ts \<and> wall clk' = wall clk"
  by (auto simp: now_def Let_def)

lemma lastTimestamp_now [simp]: "lastTimestamp (snd (now clk)) = fst (now clk)"
  by (simp add: now_def Let_def)

lemma fst_now_gt: "lastTimestamp clk < fst (now clk)"
  by (simp add: now_def Let_def)

text \<open>The undisturbed call is a run of the interleaved loop: enter, load, and a swap that succeeds.\<close>

lemma now_is_run:
  assumes "pcs s t = Idle" and "shared s = lastTimestamp clk" and "now clk = (ts, clk')"
  shows "\<exists>s1 s2. now_step s s1 \<and> now_step s1 s2 \<and>
    now_step s2 (s\<lparr>shared := ts, pcs := (pcs s)(t := Idle), returned := ts # returned s\<rparr>)"
proof -
  let ?r = "wall clk (reads clk)"
  let ?s1 = "s\<lparr>pcs := (pcs s)(t := Looping ?r)\<rparr>"
  let ?s2 = "?s1\<lparr>pcs := (pcs ?s1)(t := now_load ?r (shared ?s1))\<rparr>"
  have "now_step s ?s1" by (rule now_step.enter) fact
  moreover have "now_step ?s1 ?s2" by (rule now_step.load) simp
  moreover have "now_step ?s2 (s\<lparr>shared := ts, pcs := (pcs s)(t := Idle), returned := ts # returned s\<rparr>)"
    using now_step.cas_ok [of ?s2 t ts "shared s"] assms(2,3)
    by (auto simp: now_load_def now_def Let_def split: if_splits)
  ultimately show ?thesis by blast
qed

section \<open>Properties of the clock\<close>


text \<open>Two goroutines read the same time and collide; the loser of the swap retries with the next value.\<close>

definition demo_sys :: "int \<Rightarrow> now_pc \<Rightarrow> now_pc \<Rightarrow> int list \<Rightarrow> now_sys" where
  "demo_sys sh p0 p1 rs = \<lparr>shared = sh, pcs = (\<lambda>_. Idle)(0 := p0, 1 := p1), returned = rs\<rparr>"

lemma demo_sys_steps:
  "now_step (demo_sys 0 Idle Idle []) (demo_sys 0 (Looping 5) Idle [])"
  "now_step (demo_sys 0 (Looping 5) Idle []) (demo_sys 0 (Looping 5) (Looping 5) [])"
  "now_step (demo_sys 0 (Looping 5) (Looping 5) []) (demo_sys 0 (Loaded 5 0) (Looping 5) [])"
  "now_step (demo_sys 0 (Loaded 5 0) (Looping 5) []) (demo_sys 0 (Loaded 5 0) (Loaded 5 0) [])"
  "now_step (demo_sys 0 (Loaded 5 0) (Loaded 5 0) []) (demo_sys 5 Idle (Loaded 5 0) [5])"
  "now_step (demo_sys 5 Idle (Loaded 5 0) [5]) (demo_sys 5 Idle (Looping 5) [5])"
  "now_step (demo_sys 5 Idle (Looping 5) [5]) (demo_sys 5 Idle (Loaded 6 5) [5])"
  "now_step (demo_sys 5 Idle (Loaded 6 5) [5]) (demo_sys 6 Idle Idle [6, 5])"
  using now_step.enter [of "demo_sys 0 Idle Idle []" 0 5]
    now_step.enter [of "demo_sys 0 (Looping 5) Idle []" 1 5]
    now_step.load [of "demo_sys 0 (Looping 5) (Looping 5) []" 0 5]
    now_step.load [of "demo_sys 0 (Loaded 5 0) (Looping 5) []" 1 5]
    now_step.cas_ok [of "demo_sys 0 (Loaded 5 0) (Loaded 5 0) []" 0 5 0]
    now_step.cas_fail [of "demo_sys 5 Idle (Loaded 5 0) [5]" 1 5 0]
    now_step.load [of "demo_sys 5 Idle (Looping 5) [5]" 1 5]
    now_step.cas_ok [of "demo_sys 5 Idle (Loaded 6 5) [5]" 1 6 5]
  by (simp_all add: demo_sys_def now_load_def fun_upd_twist)


end
