(* ===== verification/Orderbook.thy ===== *)
theory Orderbook
  imports Go_Heap Clock
begin

text \<open>
  The orderbook of the stub engine (\<open>src/services/stub/main.go\<close>): orders live in a store and
  are shared by pointer between the two heaps and the \<open>orders\<close> index, so that a swap in a heap
  updates the \<open>index\<close> field every other holder of the pointer reads. Operations run under the
  book's mutex and are therefore atomic functions of the book.
\<close>

section \<open>Data\<close>

type_synonym addr = nat

text \<open>
  Prices are \<open>float64\<close> values decoded from JSON, hence finite; the book only compares them, and
  comparison of finite floats is comparison of the rationals they denote.
\<close>

type_synonym price = rat

record Order =
  o_OrderID :: string
  o_Side :: string
  o_OrderType :: string
  o_Price :: price
  o_Quantity :: int64
  o_Remaining :: int64
  o_EnteredAt :: int
  o_SessionID :: string
  o_index :: int

record FillMessage =
  f_Type :: string
  f_OrderID :: string
  f_FilledQty :: int64
  f_FillPrice :: price
  f_Remaining :: int64
  f_Timestamp :: int

definition min64 :: "int64 \<Rightarrow> int64 \<Rightarrow> int64" where
  "min64 a b = (if sint a < sint b then a else b)"

section \<open>The two heaps\<close>

text \<open>A heap in the program is a slice of pointers; its methods also write the orders themselves.\<close>

type_synonym heap_state = "(addr \<Rightarrow> Order) \<times> addr list"

definition bidHeap_Len :: "heap_state \<Rightarrow> nat" where
  "bidHeap_Len h = length (snd h)"

definition bidHeap_Less :: "heap_state \<Rightarrow> nat \<Rightarrow> nat \<Rightarrow> bool" where
  "bidHeap_Less h i j =
     (let oi = fst h (snd h ! i); oj = fst h (snd h ! j)
      in if o_Price oi \<noteq> o_Price oj then o_Price oi > o_Price oj
         else o_EnteredAt oi < o_EnteredAt oj)"

definition set_index :: "(addr \<Rightarrow> Order) \<Rightarrow> addr \<Rightarrow> int \<Rightarrow> addr \<Rightarrow> Order" where
  "set_index st a i = st(a := (st a)\<lparr>o_index := i\<rparr>)"

definition bidHeap_Swap :: "heap_state \<Rightarrow> nat \<Rightarrow> nat \<Rightarrow> heap_state" where
  "bidHeap_Swap h i j =
     (let xs = (snd h)[i := snd h ! j, j := snd h ! i]
      in (set_index (set_index (fst h) (xs ! i) (int i)) (xs ! j) (int j), xs))"

definition bidHeap_Push :: "heap_state \<Rightarrow> addr \<Rightarrow> heap_state" where
  "bidHeap_Push h a = (let n = length (snd h) in (set_index (fst h) a (int n), snd h @ [a]))"

definition bidHeap_Pop :: "heap_state \<Rightarrow> addr \<times> heap_state" where
  "bidHeap_Pop h =
     (let n = length (snd h); a = snd h ! (n - 1)
      in (a, set_index (fst h) a (-1), take (n - 1) (snd h)))"

definition askHeap_Len :: "heap_state \<Rightarrow> nat" where
  "askHeap_Len h = length (snd h)"

definition askHeap_Less :: "heap_state \<Rightarrow> nat \<Rightarrow> nat \<Rightarrow> bool" where
  "askHeap_Less h i j =
     (let oi = fst h (snd h ! i); oj = fst h (snd h ! j)
      in if o_Price oi \<noteq> o_Price oj then o_Price oi < o_Price oj
         else o_EnteredAt oi < o_EnteredAt oj)"

definition askHeap_Swap :: "heap_state \<Rightarrow> nat \<Rightarrow> nat \<Rightarrow> heap_state" where
  "askHeap_Swap h i j =
     (let xs = (snd h)[i := snd h ! j, j := snd h ! i]
      in (set_index (set_index (fst h) (xs ! i) (int i)) (xs ! j) (int j), xs))"

definition askHeap_Push :: "heap_state \<Rightarrow> addr \<Rightarrow> heap_state" where
  "askHeap_Push h a = (let n = length (snd h) in (set_index (fst h) a (int n), snd h @ [a]))"

definition askHeap_Pop :: "heap_state \<Rightarrow> addr \<times> heap_state" where
  "askHeap_Pop h =
     (let n = length (snd h); a = snd h ! (n - 1)
      in (a, set_index (fst h) a (-1), take (n - 1) (snd h)))"

section \<open>The book\<close>

text \<open>\<open>mem\<close> holds the orders allocated so far, at the addresses below \<open>next_addr\<close>.\<close>

record Orderbook =
  mem :: "addr \<Rightarrow> Order"
  next_addr :: addr
  bids :: "addr list"
  asks :: "addr list"
  orders :: "string \<rightharpoonup> addr"

definition zero_Order :: Order where
  "zero_Order = \<lparr>o_OrderID = [], o_Side = [], o_OrderType = [], o_Price = 0, o_Quantity = 0,
     o_Remaining = 0, o_EnteredAt = 0, o_SessionID = [], o_index = 0\<rparr>"

datatype side = Bids | Asks

text \<open>The heap of one side of the book, and writing it back.\<close>

fun side_arr :: "side \<Rightarrow> Orderbook \<Rightarrow> addr list" where
  "side_arr Bids ob = bids ob"
| "side_arr Asks ob = asks ob"

definition side_heap :: "side \<Rightarrow> Orderbook \<Rightarrow> heap_state" where
  [simp]: "side_heap sd ob = (mem ob, side_arr sd ob)"

fun put_heap :: "side \<Rightarrow> Orderbook \<Rightarrow> heap_state \<Rightarrow> Orderbook" where
  "put_heap Bids ob h = ob\<lparr>mem := fst h, bids := snd h\<rparr>"
| "put_heap Asks ob h = ob\<lparr>mem := fst h, asks := snd h\<rparr>"

text \<open>The methods \<open>container/heap\<close> dispatches to, by the dynamic type of the heap.\<close>

fun iface_Len :: "side \<Rightarrow> heap_state \<Rightarrow> nat" where
  "iface_Len Bids = bidHeap_Len"
| "iface_Len Asks = askHeap_Len"

fun iface_Less :: "side \<Rightarrow> heap_state \<Rightarrow> nat \<Rightarrow> nat \<Rightarrow> bool" where
  "iface_Less Bids = bidHeap_Less"
| "iface_Less Asks = askHeap_Less"

fun iface_Swap :: "side \<Rightarrow> heap_state \<Rightarrow> nat \<Rightarrow> nat \<Rightarrow> heap_state" where
  "iface_Swap Bids = bidHeap_Swap"
| "iface_Swap Asks = askHeap_Swap"

fun iface_Push :: "side \<Rightarrow> heap_state \<Rightarrow> addr \<Rightarrow> heap_state" where
  "iface_Push Bids = bidHeap_Push"
| "iface_Push Asks = askHeap_Push"

fun iface_Pop :: "side \<Rightarrow> heap_state \<Rightarrow> addr \<times> heap_state" where
  "iface_Pop Bids = bidHeap_Pop"
| "iface_Pop Asks = askHeap_Pop"

abbreviation Heap_Init :: "side \<Rightarrow> heap_state \<Rightarrow> heap_state" where
  "Heap_Init sd \<equiv> heap_Init (iface_Len sd) (iface_Less sd) (iface_Swap sd)"

abbreviation Heap_Push :: "side \<Rightarrow> heap_state \<Rightarrow> addr \<Rightarrow> heap_state" where
  "Heap_Push sd \<equiv> heap_Push (iface_Len sd) (iface_Less sd) (iface_Swap sd) (iface_Push sd)"

abbreviation Heap_Pop :: "side \<Rightarrow> heap_state \<Rightarrow> addr \<times> heap_state" where
  "Heap_Pop sd \<equiv> heap_Pop (iface_Len sd) (iface_Less sd) (iface_Swap sd) (iface_Pop sd)"

abbreviation Heap_Remove :: "side \<Rightarrow> heap_state \<Rightarrow> nat \<Rightarrow> addr \<times> heap_state" where
  "Heap_Remove sd \<equiv> heap_Remove (iface_Len sd) (iface_Less sd) (iface_Swap sd) (iface_Pop sd)"

abbreviation Heap_Fix :: "side \<Rightarrow> heap_state \<Rightarrow> nat \<Rightarrow> heap_state" where
  "Heap_Fix sd \<equiv> heap_Fix (iface_Len sd) (iface_Less sd) (iface_Swap sd)"

definition NewOrderbook :: Orderbook where
  "NewOrderbook =
     (let ob = \<lparr>mem = (\<lambda>_. zero_Order), next_addr = 0, bids = [], asks = [], orders = Map.empty\<rparr>;
          ob1 = put_heap Bids ob (Heap_Init Bids (side_heap Bids ob))
      in put_heap Asks ob1 (Heap_Init Asks (side_heap Asks ob1)))"

section \<open>Matching\<close>

text \<open>The test that ends matching of a limit order: its price against the best opposite one.\<close>

fun price_stops :: "side \<Rightarrow> price \<Rightarrow> price \<Rightarrow> bool" where
  "price_stops Asks p best = (p < best)"
| "price_stops Bids p best = (p > best)"

definition set_Remaining :: "(addr \<Rightarrow> Order) \<Rightarrow> addr \<Rightarrow> int64 \<Rightarrow> addr \<Rightarrow> Order" where
  "set_Remaining st a q = st(a := (st a)\<lparr>o_Remaining := q\<rparr>)"

text \<open>
  The body of one turn of the loop: trade the incoming order \<open>a\<close> against \<open>best\<close>, the top of the
  opposite heap.
\<close>

definition match_turn :: "side \<Rightarrow> addr \<Rightarrow> addr \<Rightarrow> Orderbook \<Rightarrow> Clock \<Rightarrow> FillMessage \<times> Orderbook \<times> Clock" where
  "match_turn sd a best ob clk =
     (let qty = min64 (o_Remaining (mem ob a)) (o_Remaining (mem ob best));
          m1 = set_Remaining (mem ob) a (o_Remaining (mem ob a) - qty);
          m2 = set_Remaining m1 best (o_Remaining (m1 best) - qty);
          ob2 = ob\<lparr>mem := m2\<rparr>;
          (ts, clk') = now clk;
          fill = \<lparr>f_Type = ''fill'', f_OrderID = o_OrderID (m2 a), f_FilledQty = qty,
                  f_FillPrice = o_Price (m2 best), f_Remaining = o_Remaining (m2 a), f_Timestamp = ts\<rparr>
      in (fill,
          if o_Remaining (m2 best) = 0
          then (let ob3 = ob2\<lparr>orders := (orders ob2)(o_OrderID (m2 best) := None)\<rparr>
                in put_heap sd ob3 (snd (Heap_Pop sd (side_heap sd ob3))))
          else put_heap sd ob2 (Heap_Fix sd (side_heap sd ob2) 0),
          clk'))"

section \<open>The heaps implement \<open>heap.Interface\<close>\<close>

text \<open>
  Priority of an order on its side: the better price first (higher for bids, lower for asks),
  then the earlier entry. Smaller keys are served first.
\<close>

fun prio :: "side \<Rightarrow> Order \<Rightarrow> rat \<times> int" where
  "prio Bids ord = (- o_Price ord, o_EnteredAt ord)"
| "prio Asks ord = (o_Price ord, o_EnteredAt ord)"

definition no_index :: "Order \<Rightarrow> Order" where
  "no_index ord = ord\<lparr>o_index := 0\<rparr>"

lemma no_index_simps [simp]:
  "o_OrderID (no_index ord) = o_OrderID ord" "o_Side (no_index ord) = o_Side ord"
  "o_OrderType (no_index ord) = o_OrderType ord" "o_Price (no_index ord) = o_Price ord"
  "o_Quantity (no_index ord) = o_Quantity ord" "o_Remaining (no_index ord) = o_Remaining ord"
  "o_EnteredAt (no_index ord) = o_EnteredAt ord" "o_SessionID (no_index ord) = o_SessionID ord"
  "prio sd (no_index ord) = prio sd ord"
  by (simp_all add: no_index_def) (cases sd, simp_all)

lemma no_index_eqD:
  assumes "no_index x = no_index y"
  shows "o_OrderID x = o_OrderID y" "o_Side x = o_Side y" "o_OrderType x = o_OrderType y"
    "o_Price x = o_Price y" "o_Quantity x = o_Quantity y" "o_Remaining x = o_Remaining y"
    "o_EnteredAt x = o_EnteredAt y" "o_SessionID x = o_SessionID y" "prio sd x = prio sd y"
  using assms by (metis no_index_simps)+

lemma no_index_set_index [simp]: "no_index (set_index st a i x) = no_index (st x)"
  by (simp add: set_index_def no_index_def)

lemma o_index_set_index: "o_index (set_index st a i x) = (if x = a then i else o_index (st x))"
  by (simp add: set_index_def)

lemmas heap_methods =
  bidHeap_Len_def bidHeap_Less_def bidHeap_Swap_def bidHeap_Push_def bidHeap_Pop_def
  askHeap_Len_def askHeap_Less_def askHeap_Swap_def askHeap_Push_def askHeap_Pop_def

lemma iface_Len_eq: "iface_Len sd h = length (snd h)"
  by (cases sd) (simp_all add: heap_methods)

lemma iface_Less_eq:
  "iface_Less sd h i j \<longleftrightarrow> prio sd (fst h (snd h ! i)) < prio sd (fst h (snd h ! j))"
  by (cases sd) (auto simp: heap_methods Let_def)

lemma iface_Swap_eq:
  "iface_Swap sd h i j =
     (let xs = (snd h)[i := snd h ! j, j := snd h ! i]
      in (set_index (set_index (fst h) (xs ! i) (int i)) (xs ! j) (int j), xs))"
  by (cases sd) (simp_all add: heap_methods)

lemma iface_Push_eq: "iface_Push sd h a = (set_index (fst h) a (int (length (snd h))), snd h @ [a])"
  by (cases sd) (simp_all add: heap_methods)

lemma iface_Pop_eq:
  "snd h \<noteq> [] \<Longrightarrow> iface_Pop sd h = (last (snd h), set_index (fst h) (last (snd h)) (-1), butlast (snd h))"
  by (cases sd) (simp_all add: heap_methods Let_def last_conv_nth butlast_conv_take)

declare iface_Len.simps [simp del] iface_Less.simps [simp del] iface_Swap.simps [simp del]
  iface_Push.simps [simp del] iface_Pop.simps [simp del]

interpretation hp: heap_interface "iface_Len sd" "iface_Less sd" "iface_Swap sd" "iface_Push sd"
  "iface_Pop sd" snd "\<lambda>h a. no_index (fst h a)" "prio sd" "\<lambda>h a. o_index (fst h a)" for sd
proof
  fix h :: heap_state and i j x
  show "iface_Len sd h = length (snd h)" by (rule iface_Len_eq)
  show "iface_Less sd h i j \<longleftrightarrow> prio sd (no_index (fst h (snd h ! i))) < prio sd (no_index (fst h (snd h ! j)))"
    by (simp add: iface_Less_eq)
  show "(\<lambda>a. no_index (fst (iface_Swap sd h i j) a)) = (\<lambda>a. no_index (fst h a))"
    by (simp add: iface_Swap_eq Let_def)
  show "snd (iface_Push sd h x) = snd h @ [x]"
    "(\<lambda>a. o_index (fst (iface_Push sd h x) a)) = (\<lambda>a. o_index (fst h a))(x := int (length (snd h)))"
    "(\<lambda>a. no_index (fst (iface_Push sd h x) a)) = (\<lambda>a. no_index (fst h a))"
    by (auto simp: iface_Push_eq o_index_set_index)
  show "snd (iface_Swap sd h i j) = (snd h)[i := snd h ! j, j := snd h ! i]"
    by (simp add: iface_Swap_eq Let_def)
  { assume "i < length (snd h)" "j < length (snd h)"
    then show "(\<lambda>a. o_index (fst (iface_Swap sd h i j) a)) =
        (\<lambda>a. o_index (fst h a))(snd h ! j := int i, snd h ! i := int j)"
      by (cases "i = j") (auto simp: iface_Swap_eq Let_def o_index_set_index fun_eq_iff) }
  { assume "snd h \<noteq> []"
    then show "fst (iface_Pop sd h) = last (snd h)" "snd (snd (iface_Pop sd h)) = butlast (snd h)"
      "(\<lambda>a. o_index (fst (snd (iface_Pop sd h)) a)) = (\<lambda>a. o_index (fst h a))(last (snd h) := -1)"
      "(\<lambda>a. no_index (fst (snd (iface_Pop sd h)) a)) = (\<lambda>a. no_index (fst h a))"
      by (auto simp: iface_Pop_eq o_index_set_index) }
qed

section \<open>The matching loop and the operations on the book\<close>

lemma put_heap_simps [simp]:
  "mem (put_heap sd ob h) = fst h" "side_arr sd (put_heap sd ob h) = snd h"
  "next_addr (put_heap sd ob h) = next_addr ob" "orders (put_heap sd ob h) = orders ob"
  by (cases sd; simp)+

lemma put_heap_other [simp]:
  "sd' \<noteq> sd \<Longrightarrow> side_arr sd' (put_heap sd ob h) = side_arr sd' ob"
  by (cases sd; cases sd'; simp)

lemma side_arr_update [simp]:
  "side_arr sd (ob\<lparr>mem := m\<rparr>) = side_arr sd ob" "side_arr sd (ob\<lparr>orders := r\<rparr>) = side_arr sd ob"
  "side_arr sd (ob\<lparr>next_addr := n\<rparr>) = side_arr sd ob"
  by (cases sd; simp)+

definition match_measure :: "side \<Rightarrow> addr \<Rightarrow> Orderbook \<Rightarrow> nat" where
  "match_measure sd a ob = length (side_arr sd ob) + (if 0 < sint (o_Remaining (mem ob a)) then 1 else 0)"

lemma dat_Remaining: "(\<lambda>x. no_index (m x)) = (\<lambda>x. no_index (m' x)) \<Longrightarrow> o_Remaining (m x) = o_Remaining (m' x)"
  by (metis no_index_simps(6))

lemma match_turn_decreases:
  assumes pos: "0 < sint (o_Remaining (mem ob a))" and ne: "side_arr sd ob \<noteq> []"
    and t: "match_turn sd a best ob clk = (f, ob', clk')"
  shows "match_measure sd a ob' < match_measure sd a ob"
proof -
  let ?ra = "o_Remaining (mem ob a)" let ?rb = "o_Remaining (mem ob best)"
  define qty where "qty = min64 ?ra ?rb"
  define m2 where "m2 = set_Remaining (set_Remaining (mem ob) a (?ra - qty)) best
    (o_Remaining (set_Remaining (mem ob) a (?ra - qty) best) - qty)"
  have ob': "length (side_arr sd ob') = length (side_arr sd ob) - (if o_Remaining (m2 best) = 0 then 1 else 0)
      \<and> o_Remaining (mem ob' a) = o_Remaining (m2 a)"
  proof (cases "o_Remaining (m2 best) = 0")
    case True
    have "ob' = put_heap sd (ob\<lparr>mem := m2, orders := (orders ob)(o_OrderID (m2 best) := None)\<rparr>)
         (snd (Heap_Pop sd (m2, side_arr sd ob)))"
      using t True by (auto simp: match_turn_def Let_def m2_def qty_def split: prod.splits)
    then show ?thesis
      using True hp.heap_Pop_frame [of "(m2, side_arr sd ob)" sd] ne
      by (auto dest: dat_Remaining)
  next
    case False
    have "ob' = put_heap sd (ob\<lparr>mem := m2\<rparr>) (Heap_Fix sd (m2, side_arr sd ob) 0)"
      using t False by (auto simp: match_turn_def Let_def m2_def qty_def split: prod.splits)
    then show ?thesis
      using False hp.heap_Fix_frame [of 0 "(m2, side_arr sd ob)" sd] ne
      by (auto dest: dat_Remaining)
  qed
  have "o_Remaining (m2 a) = 0 \<or> sint (o_Remaining (m2 a)) < 0 \<or> o_Remaining (m2 best) = 0"
  proof (cases "a = best")
    case True
    then have "o_Remaining (m2 a) = - ?ra" by (simp add: m2_def set_Remaining_def qty_def min64_def)
    moreover have "sint (- ?ra) = - sint ?ra"
      using sint64_diff [of 0 ?ra] sint64_bounds [of ?ra] pos by simp
    ultimately show ?thesis using pos by simp
  qed (auto simp: m2_def set_Remaining_def qty_def min64_def)
  then show ?thesis
    using ob' pos ne by (auto simp: match_measure_def)
qed

function match_loop ::
    "side \<Rightarrow> addr \<Rightarrow> Orderbook \<Rightarrow> Clock \<Rightarrow> FillMessage list \<Rightarrow> FillMessage list \<times> Orderbook \<times> Clock" where
  "match_loop sd a ob clk fills =
     (if 0 < sint (o_Remaining (mem ob a)) \<and> side_arr sd ob \<noteq> []
      then let best = side_arr sd ob ! 0
           in if o_OrderType (mem ob a) = ''limit'' \<and>
                 price_stops sd (o_Price (mem ob a)) (o_Price (mem ob best))
              then (fills, ob, clk)
              else case match_turn sd a best ob clk of
                     (fill, ob', clk') \<Rightarrow> match_loop sd a ob' clk' (fills @ [fill])
      else (fills, ob, clk))"
  by pat_completeness auto
termination
  by (relation "measure (\<lambda>(sd, a, ob, clk, fills). match_measure sd a ob)")
    (auto intro: match_turn_decreases [OF _ _ sym])

declare match_loop.simps [simp del]

definition match_order :: "addr \<Rightarrow> Orderbook \<Rightarrow> Clock \<Rightarrow> FillMessage list \<times> Orderbook \<times> Clock" where
  "match_order a ob clk =
     (if o_Side (mem ob a) = ''buy'' then match_loop Asks a ob clk [] else match_loop Bids a ob clk [])"

definition rest :: "addr \<Rightarrow> Orderbook \<Rightarrow> Orderbook" where
  "rest a ob =
     (let ob1 = ob\<lparr>orders := (orders ob)(o_OrderID (mem ob a) \<mapsto> a)\<rparr>;
          sd = (if o_Side (mem ob a) = ''buy'' then Bids else Asks)
      in put_heap sd ob1 (Heap_Push sd (side_heap sd ob1) a))"

definition remove :: "string \<Rightarrow> Orderbook \<Rightarrow> Orderbook" where
  "remove orderID ob =
     (case orders ob orderID of
        None \<Rightarrow> ob
      | Some a \<Rightarrow>
          let ob1 = ob\<lparr>orders := (orders ob)(orderID := None)\<rparr>; ix = o_index (mem ob1 a)
          in if o_Side (mem ob1 a) = ''buy'' then
               (if 0 \<le> ix \<and> ix < int (length (bids ob1))
                then put_heap Bids ob1 (snd (Heap_Remove Bids (side_heap Bids ob1) (nat ix))) else ob1)
             else if o_Side (mem ob1 a) = ''sell'' then
               (if 0 \<le> ix \<and> ix < int (length (asks ob1))
                then put_heap Asks ob1 (snd (Heap_Remove Asks (side_heap Asks ob1) (nat ix))) else ob1)
             else ob1)"

text \<open>
  The map iteration of \<open>cancelSession\<close> has no fixed order: \<open>order\<close> is the order in which it
  yields the values of \<open>ob.orders\<close>.
\<close>

definition cancelSession :: "addr list \<Rightarrow> string \<Rightarrow> Orderbook \<Rightarrow> Orderbook" where
  "cancelSession order sessionID ob =
     (let toRemove = filter (\<lambda>a. o_SessionID (mem ob a) = sessionID) order
      in fold (\<lambda>a ob'. remove (o_OrderID (mem ob' a)) ob') toRemove ob)"

definition map_order :: "(string \<rightharpoonup> addr) \<Rightarrow> addr list \<Rightarrow> bool" where
  "map_order m order \<longleftrightarrow> distinct order \<and> set order = ran m"

end
