(* ===== verification/Book_Inv.thy ===== *)
theory Book_Inv
  imports Orderbook
begin

text \<open>
  The well-formedness invariant of the orderbook and its preservation by the operations of
  \<open>Orderbook\<close>: both slices are heaps with correct \<open>index\<close> fields, the \<open>orders\<close> index and the
  heaps hold the same orders, resting orders are live limit orders, and the book is not crossed.
\<close>

section \<open>The invariant\<close>

fun side_name :: "side \<Rightarrow> string" where
  "side_name Bids = ''buy''"
| "side_name Asks = ''sell''"

fun other :: "side \<Rightarrow> side" where
  "other Bids = Asks"
| "other Asks = Bids"

definition order_ok :: "side \<Rightarrow> Order \<Rightarrow> bool" where
  "order_ok sd ord \<longleftrightarrow> o_Side ord = side_name sd \<and> o_OrderType ord = ''limit'' \<and> 0 < o_Price ord \<and>
     0 < sint (o_Remaining ord) \<and> sint (o_Remaining ord) \<le> sint (o_Quantity ord)"

definition book_ok :: "Orderbook \<Rightarrow> bool" where
  "book_ok ob \<longleftrightarrow>
     (\<forall>sd. hp.heap_inv sd (mem ob, side_arr sd ob)) \<and>
     (\<forall>sd. \<forall>a \<in> set (side_arr sd ob). a < next_addr ob \<and> order_ok sd (mem ob a) \<and>
        orders ob (o_OrderID (mem ob a)) = Some a) \<and>
     (\<forall>orderID a. orders ob orderID = Some a \<longrightarrow>
        o_OrderID (mem ob a) = orderID \<and> (\<exists>sd. a \<in> set (side_arr sd ob))) \<and>
     (\<forall>sd. inj_on (\<lambda>a. o_EnteredAt (mem ob a)) (set (side_arr sd ob))) \<and>
     (\<forall>b \<in> set (bids ob). \<forall>a \<in> set (asks ob). o_Price (mem ob b) < o_Price (mem ob a))"

lemma book_okD:
  assumes "book_ok ob"
  shows "hp.heap_inv sd (mem ob, side_arr sd ob)"
    and "distinct (side_arr sd ob)"
    and "a \<in> set (side_arr sd ob) \<Longrightarrow> a < next_addr ob"
    and "a \<in> set (side_arr sd ob) \<Longrightarrow> order_ok sd (mem ob a)"
    and "a \<in> set (side_arr sd ob) \<Longrightarrow> orders ob (o_OrderID (mem ob a)) = Some a"
    and "orders ob i = Some a \<Longrightarrow> o_OrderID (mem ob a) = i \<and> (\<exists>sd. a \<in> set (side_arr sd ob))"
    and "inj_on (\<lambda>a. o_EnteredAt (mem ob a)) (set (side_arr sd ob))"
    and "b \<in> set (bids ob) \<Longrightarrow> c \<in> set (asks ob) \<Longrightarrow> o_Price (mem ob b) < o_Price (mem ob c)"
  using assms unfolding book_ok_def by (simp_all add: hp.heap_inv_def)

lemma book_okI:
  assumes "\<And>sd. hp.heap_inv sd (mem ob, side_arr sd ob)"
    and "\<And>sd a. a \<in> set (side_arr sd ob) \<Longrightarrow> a < next_addr ob"
    and "\<And>sd a. a \<in> set (side_arr sd ob) \<Longrightarrow> order_ok sd (mem ob a)"
    and "\<And>sd a. a \<in> set (side_arr sd ob) \<Longrightarrow> orders ob (o_OrderID (mem ob a)) = Some a"
    and "\<And>i a. orders ob i = Some a \<Longrightarrow> o_OrderID (mem ob a) = i \<and> (\<exists>sd. a \<in> set (side_arr sd ob))"
    and "\<And>sd. inj_on (\<lambda>a. o_EnteredAt (mem ob a)) (set (side_arr sd ob))"
    and "\<And>b a. b \<in> set (side_arr Bids ob) \<Longrightarrow> a \<in> set (side_arr Asks ob) \<Longrightarrow> o_Price (mem ob b) < o_Price (mem ob a)"
  shows "book_ok ob"
  using assms unfolding book_ok_def by (simp del: not_less)

lemma order_ok_no_index: "no_index x = no_index y \<Longrightarrow> order_ok sd x = order_ok sd y"
  unfolding order_ok_def by (metis no_index_simps)

lemma side_disjoint:
  assumes "book_ok ob" "a \<in> set (side_arr sd ob)" "a \<in> set (side_arr sd' ob)"
  shows "sd = sd'"
proof -
  have "side_name sd = side_name sd'"
    using book_okD(4) [OF assms(1) assms(2)] book_okD(4) [OF assms(1) assms(3)] by (simp add: order_ok_def)
  then show ?thesis by (cases sd; cases sd') simp_all
qed

text \<open>Heap order and index fields only look at price, entry time and \<open>index\<close> of the slice.\<close>

lemma heap_inv_cong:
  assumes "hp.heap_inv sd (m, xs)"
    and "\<And>a. a \<in> set xs \<Longrightarrow> prio sd (m' a) = prio sd (m a) \<and> o_index (m' a) = o_index (m a)"
  shows "hp.heap_inv sd (m', xs)"
proof -
  have "heap_on (hp.kat sd (m', xs)) (length xs) = heap_on (hp.kat sd (m, xs)) (length xs)"
    by (rule heap_on_cong) (simp add: hp.kat_def assms(2))
  then show ?thesis
    using assms by (simp add: hp.heap_inv_def hp.idx_ok_def)
qed

lemma Heap_Init_empty: "Heap_Init sd (m, []) = (m, [])"
  by (simp add: heap_Init_def iface_Len_eq)

lemma NewOrderbook_eq:
  "NewOrderbook = \<lparr>mem = (\<lambda>_. zero_Order), next_addr = 0, bids = [], asks = [], orders = Map.empty\<rparr>"
  by (simp add: NewOrderbook_def Let_def Heap_Init_empty)

lemma NewOrderbook_simps [simp]: "side_arr sd NewOrderbook = []" "orders NewOrderbook = Map.empty"
  by (cases sd; simp add: NewOrderbook_eq) (simp add: NewOrderbook_eq)

lemma NewOrderbook_ok: "book_ok NewOrderbook"
proof -
  have "hp.heap_inv sd (m, [])" for sd m by (rule hp.heap_inv_empty) simp
  moreover have "bids NewOrderbook = []" by (simp add: NewOrderbook_eq)
  ultimately show ?thesis by (simp add: book_ok_def)
qed

section \<open>Preservation\<close>

text \<open>Writing \<open>Remaining\<close> of orders that stay live, and any field of orders that do not rest.\<close>

lemma book_ok_update:
  assumes ok: "book_ok ob"
    and same: "\<And>sd x. x \<in> set (side_arr sd ob) \<Longrightarrow> \<exists>q. m x = (mem ob x)\<lparr>o_Remaining := q\<rparr> \<and>
      0 < sint q \<and> sint q \<le> sint (o_Remaining (mem ob x))"
  shows "book_ok (ob\<lparr>mem := m\<rparr>)"
proof -
  have f: "o_OrderID (m x) = o_OrderID (mem ob x)" "o_EnteredAt (m x) = o_EnteredAt (mem ob x)"
    "o_Price (m x) = o_Price (mem ob x)" "prio sd (m x) = prio sd (mem ob x)"
    "o_index (m x) = o_index (mem ob x)" "order_ok sd (m x)"
    if x: "x \<in> set (side_arr sd ob)" for sd x
    using same [OF x] book_okD(4) [OF ok x] by (cases sd; auto simp: order_ok_def)+
  let ?ob = "ob\<lparr>mem := m\<rparr>"
  show ?thesis
  proof (rule book_okI)
    fix sd
    show "hp.heap_inv sd (mem ?ob, side_arr sd ?ob)"
      using heap_inv_cong [OF book_okD(1) [OF ok], of sd m] f(4,5) by simp
    show "inj_on (\<lambda>a. o_EnteredAt (mem ?ob a)) (set (side_arr sd ?ob))"
      using book_okD(7) [OF ok, of sd] f(2) by (simp add: inj_on_def)
  next
    fix i a assume "orders ?ob i = Some a"
    then show "o_OrderID (mem ?ob a) = i \<and> (\<exists>sd. a \<in> set (side_arr sd ?ob))"
      using book_okD(6) [OF ok, of i a] f(1) [of a] by auto
  next
    fix b a assume "b \<in> set (side_arr Bids ?ob)" "a \<in> set (side_arr Asks ?ob)"
    then show "o_Price (mem ?ob b) < o_Price (mem ?ob a)"
      using f(3) [of b Bids] f(3) [of a Asks] book_okD(8) [OF ok] by simp
  qed (use f book_okD(3,5) [OF ok] in simp_all)
qed

text \<open>Taking one resting order out of its heap and out of the index.\<close>

lemma book_ok_take:
  assumes ok: "book_ok ob" and b: "best \<in> set (side_arr sd ob)"
    and h: "hp.heap_inv sd h" "mset (snd h) = mset (side_arr sd ob) - {#best#}"
    and dat: "\<And>sd x. x \<in> set (side_arr sd ob) \<Longrightarrow> x \<noteq> best \<Longrightarrow> no_index (fst h x) = no_index (mem ob x)"
    and idx: "\<And>sd' x. sd' \<noteq> sd \<Longrightarrow> x \<in> set (side_arr sd' ob) \<Longrightarrow> o_index (fst h x) = o_index (mem ob x)"
  shows "book_ok (put_heap sd (ob\<lparr>orders := (orders ob)(o_OrderID (mem ob best) := None)\<rparr>) h)"
proof -
  define ob' where "ob' = put_heap sd (ob\<lparr>orders := (orders ob)(o_OrderID (mem ob best) := None)\<rparr>) h"
  have ob' [simp]: "mem ob' = fst h" "next_addr ob' = next_addr ob"
    "orders ob' = (orders ob)(o_OrderID (mem ob best) := None)" by (simp_all add: ob'_def)
  have set_h: "set (snd h) = set (side_arr sd ob) - {best}"
    using h(2) book_okD(2) [OF ok, of sd] by (metis mset_remove1 set_mset_mset set_remove1_eq)
  have arr: "set (side_arr sd' ob') = set (side_arr sd' ob) - {best}" for sd'
    using set_h side_disjoint [OF ok b] by (cases "sd' = sd") (auto simp: ob'_def)
  have f: "no_index (fst h x) = no_index (mem ob x)" if "x \<in> set (side_arr sd' ob')" for sd' x
    using dat [of x sd'] that arr by auto
  note f' = no_index_eqD [OF f]
  have "book_ok ob'"
  proof (rule book_okI)
    fix sd'
    show "hp.heap_inv sd' (mem ob', side_arr sd' ob')"
    proof (cases "sd' = sd")
      case False
      then have "hp.heap_inv sd' (mem ob, side_arr sd' ob')" using book_okD(1) [OF ok] by (simp add: ob'_def)
      moreover have "x \<in> set (side_arr sd' ob)" if "x \<in> set (side_arr sd' ob')" for x
        using that arr by blast
      ultimately show ?thesis
        using heap_inv_cong [of sd' "mem ob" "side_arr sd' ob'" "mem ob'"] f'(9) idx [OF False] by simp
    qed (use h in \<open>simp add: ob'_def\<close>)
    have "inj_on (\<lambda>a. o_EnteredAt (mem ob a)) (set (side_arr sd' ob'))"
      using book_okD(7) [OF ok, of sd'] by (rule inj_on_subset) (use arr in blast)
    then show "inj_on (\<lambda>a. o_EnteredAt (mem ob' a)) (set (side_arr sd' ob'))"
      using inj_on_cong [of "set (side_arr sd' ob')" "\<lambda>a. o_EnteredAt (mem ob' a)"] f'(7) by simp
  next
    fix i a assume "orders ob' i = Some a"
    then have "orders ob i = Some a" "i \<noteq> o_OrderID (mem ob best)" by (auto split: if_splits)
    then show "o_OrderID (mem ob' a) = i \<and> (\<exists>sd. a \<in> set (side_arr sd ob'))"
      using book_okD(6) [OF ok, of i a] f'(1) [of a] arr by auto
  next
    fix sd' a assume a: "a \<in> set (side_arr sd' ob')"
    then have a': "a \<in> set (side_arr sd' ob)" "a \<noteq> best" using arr by auto
    show "a < next_addr ob'" using book_okD(3) [OF ok a'(1)] by simp
    show "order_ok sd' (mem ob' a)"
      using book_okD(4) [OF ok a'(1)] order_ok_no_index [OF f [OF a]] by simp
    have "o_OrderID (mem ob a) \<noteq> o_OrderID (mem ob best)"
      using book_okD(5) [OF ok] a' b by (metis option.inject)
    then show "orders ob' (o_OrderID (mem ob' a)) = Some a"
      using book_okD(5) [OF ok a'(1)] f'(1) [OF a] by simp
  next
    fix b a assume "b \<in> set (side_arr Bids ob')" "a \<in> set (side_arr Asks ob')"
    then show "o_Price (mem ob' b) < o_Price (mem ob' a)"
      using book_okD(8) [OF ok, of b a] f'(4) [of b Bids] f'(4) [of a Asks] arr [of Bids] arr [of Asks]
      by simp
  qed
  then show ?thesis by (simp add: ob'_def)
qed

text \<open>Putting a new order on its side of the book.\<close>

definition may_rest :: "side \<Rightarrow> addr \<Rightarrow> Orderbook \<Rightarrow> bool" where
  "may_rest sd a ob \<longleftrightarrow> a < next_addr ob \<and> (\<forall>sd'. a \<notin> set (side_arr sd' ob)) \<and> order_ok sd (mem ob a) \<and>
     orders ob (o_OrderID (mem ob a)) = None \<and>
     (\<forall>x \<in> set (side_arr sd ob). o_EnteredAt (mem ob x) \<noteq> o_EnteredAt (mem ob a)) \<and>
     (\<forall>x \<in> set (side_arr (other sd) ob). price_stops (other sd) (o_Price (mem ob a)) (o_Price (mem ob x)))"

lemma rest_eq:
  assumes "o_Side (mem ob a) = side_name sd"
  shows "rest a ob = put_heap sd (ob\<lparr>orders := (orders ob)(o_OrderID (mem ob a) \<mapsto> a)\<rparr>)
    (Heap_Push sd (mem ob, side_arr sd ob) a)"
  using assms by (cases sd) (simp_all add: rest_def Let_def)

lemma rest_effect:
  assumes ok: "book_ok ob" and may: "may_rest sd a ob"
  shows "mset (side_arr sd (rest a ob)) = add_mset a (mset (side_arr sd ob))"
    and "sd' \<noteq> sd \<Longrightarrow> side_arr sd' (rest a ob) = side_arr sd' ob"
    and "no_index (mem (rest a ob) x) = no_index (mem ob x)"
    and "orders (rest a ob) = (orders ob)(o_OrderID (mem ob a) \<mapsto> a)"
    and "next_addr (rest a ob) = next_addr ob"
    and "hp.heap_inv sd (mem (rest a ob), side_arr sd (rest a ob))"
    and "x \<notin> set (side_arr sd (rest a ob)) \<Longrightarrow> o_index (mem (rest a ob) x) = o_index (mem ob x)"
proof -
  have sn: "o_Side (mem ob a) = side_name sd" using may by (simp add: may_rest_def order_ok_def)
  note r = rest_eq [OF sn]
  have "a \<notin> set (snd (mem ob, side_arr sd ob))" using may by (simp add: may_rest_def)
  note p = hp.heap_Push_correct [OF book_okD(1) [OF ok, of sd] this refl]
  show "mset (side_arr sd (rest a ob)) = add_mset a (mset (side_arr sd ob))"
    "hp.heap_inv sd (mem (rest a ob), side_arr sd (rest a ob))"
    "no_index (mem (rest a ob) x) = no_index (mem ob x)"
    "orders (rest a ob) = (orders ob)(o_OrderID (mem ob a) \<mapsto> a)" "next_addr (rest a ob) = next_addr ob"
    "x \<notin> set (side_arr sd (rest a ob)) \<Longrightarrow> o_index (mem (rest a ob) x) = o_index (mem ob x)"
    using p fun_cong [OF p(3), of x] by (simp_all add: r)
  show "side_arr sd' (rest a ob) = side_arr sd' ob" if "sd' \<noteq> sd"
    using that by (simp add: r)
qed

text \<open>Resting adds the order to its side and to the index.\<close>

lemma rest_arr:
  assumes "book_ok ob" and "may_rest sd a ob"
  shows "set (side_arr sd' (rest a ob)) = (if sd' = sd then insert a (set (side_arr sd ob)) else set (side_arr sd' ob))"
  using arg_cong [OF rest_effect(1) [OF assms], of set_mset] rest_effect(2) [OF assms, of sd'] by simp

lemma rest_index:
  assumes ok: "book_ok ob" and may: "may_rest sd a ob" and i: "orders (rest a ob) i = Some x"
  shows "o_OrderID (mem (rest a ob) x) = i \<and> (\<exists>sd. x \<in> set (side_arr sd (rest a ob)))"
proof -
  note e = rest_effect [OF ok may] and arr = rest_arr [OF ok may]
  note f = no_index_eqD [OF e(3)]
  have "((orders ob)(o_OrderID (mem ob a) \<mapsto> a)) i = Some x" using i by (simp only: e(4))
  then consider "i = o_OrderID (mem ob a)" "x = a" | "orders ob i = Some x"
    by (cases "i = o_OrderID (mem ob a)") auto
  then show ?thesis
  proof cases
    case 2
    then obtain sd' where "x \<in> set (side_arr sd' ob)" "o_OrderID (mem ob x) = i"
      using book_okD(6) [OF ok, of i x] by auto
    then have "x \<in> set (side_arr sd' (rest a ob))" using arr [of sd'] by (simp split: if_splits)
    then show ?thesis using f(1) \<open>o_OrderID (mem ob x) = i\<close> by auto
  qed (use f(1) arr [of sd] in auto)
qed

lemma rest_ok:
  assumes ok: "book_ok ob" and may: "may_rest sd a ob"
  shows "book_ok (rest a ob)"
proof -
  define ob' where "ob' = rest a ob"
  note e = rest_effect [OF ok may, folded ob'_def]
  note f = no_index_eqD [OF e(3)]
  have m: "a < next_addr ob" "\<And>sd'. a \<notin> set (side_arr sd' ob)" "order_ok sd (mem ob a)"
    "orders ob (o_OrderID (mem ob a)) = None"
    "\<And>x. x \<in> set (side_arr sd ob) \<Longrightarrow> o_EnteredAt (mem ob x) \<noteq> o_EnteredAt (mem ob a)"
    "\<And>x. x \<in> set (side_arr (other sd) ob) \<Longrightarrow> price_stops (other sd) (o_Price (mem ob a)) (o_Price (mem ob x))"
    using may by (auto simp: may_rest_def)
  have arr: "set (side_arr sd' ob') = (if sd' = sd then insert a (set (side_arr sd ob)) else set (side_arr sd' ob))" for sd'
    using rest_arr [OF ok may] by (simp add: ob'_def)
  have "book_ok ob'"
  proof (rule book_okI)
    fix sd'
    show "hp.heap_inv sd' (mem ob', side_arr sd' ob')"
    proof (cases "sd' = sd")
      case False
      have "x \<notin> set (side_arr sd ob')" if "x \<in> set (side_arr sd' ob)" for x
        using that m(2) arr [of sd] side_disjoint [OF ok that, of sd] False by auto
      then show ?thesis
        using heap_inv_cong [OF book_okD(1) [OF ok, of sd'], of "mem ob'"] f(9) e(2,7) False by simp
    qed (use e(6) in simp)
    have "o_EnteredAt (mem ob a) \<notin> (\<lambda>x. o_EnteredAt (mem ob x)) ` set (side_arr sd ob)" using m(5) by force
    then have "inj_on (\<lambda>a. o_EnteredAt (mem ob a)) (set (side_arr sd' ob'))"
      using book_okD(7) [OF ok, of sd'] arr [of sd'] m(2) [of sd] by (cases "sd' = sd") (simp_all add: inj_on_insert)
    then show "inj_on (\<lambda>a. o_EnteredAt (mem ob' a)) (set (side_arr sd' ob'))" using f(7) by simp
  next
    fix i x assume "orders ob' i = Some x"
    then show "o_OrderID (mem ob' x) = i \<and> (\<exists>sd. x \<in> set (side_arr sd ob'))"
      using rest_index [OF ok may] by (simp add: ob'_def)
  next
    fix sd' x assume x: "x \<in> set (side_arr sd' ob')"
    then consider "sd' = sd" "x = a" | "x \<in> set (side_arr sd' ob)" using arr [of sd'] by (auto split: if_splits)
    then have "x < next_addr ob \<and> order_ok sd' (mem ob x) \<and> orders ob' (o_OrderID (mem ob x)) = Some x"
    proof cases
      case 2
      then show ?thesis using book_okD(3-5) [OF ok 2] m(4) e(4) by auto
    qed (use m e(4) in auto)
    then show "x < next_addr ob'" "order_ok sd' (mem ob' x)" "orders ob' (o_OrderID (mem ob' x)) = Some x"
      using e(5) f(1) order_ok_no_index [OF e(3)] by auto
  next
    fix b c assume "b \<in> set (side_arr Bids ob')" "c \<in> set (side_arr Asks ob')"
    then have "o_Price (mem ob b) < o_Price (mem ob c)"
      using arr [of Bids] arr [of Asks] book_okD(8) [OF ok] m(6) by (cases sd) auto
    then show "o_Price (mem ob' b) < o_Price (mem ob' c)" using f(4) by simp
  qed
  then show ?thesis by (simp add: ob'_def)
qed

lemma remove_unknown: "orders ob i = None \<Longrightarrow> remove i ob = ob"
  by (simp add: remove_def)

text \<open>The \<open>index\<close> field always points at the order itself, so \<open>remove\<close> takes out the right one.\<close>

lemma remove_eq:
  assumes ok: "book_ok ob" and a: "orders ob i = Some a" "a \<in> set (side_arr sd ob)"
  shows "remove i ob = put_heap sd (ob\<lparr>orders := (orders ob)(i := None)\<rparr>)
      (snd (Heap_Remove sd (mem ob, side_arr sd ob) (nat (o_index (mem ob a)))))"
    and "nat (o_index (mem ob a)) < length (side_arr sd ob)"
    and "side_arr sd ob ! nat (o_index (mem ob a)) = a"
proof -
  have ix: "0 \<le> o_index (mem ob a)" "nat (o_index (mem ob a)) < length (side_arr sd ob)"
    "side_arr sd ob ! nat (o_index (mem ob a)) = a"
    using hp.heap_idx [OF book_okD(1) [OF ok, of sd], of a] a(2) by auto
  have lt: "o_index (mem ob a) < int (length (side_arr sd ob))" using ix by linarith
  have "o_Side (mem ob a) = side_name sd" using book_okD(4) [OF ok a(2)] by (simp add: order_ok_def)
  then show "remove i ob = put_heap sd (ob\<lparr>orders := (orders ob)(i := None)\<rparr>)
      (snd (Heap_Remove sd (mem ob, side_arr sd ob) (nat (o_index (mem ob a)))))"
    using ix(1) a(1) lt by (cases sd) (simp_all add: remove_def Let_def)
  show "nat (o_index (mem ob a)) < length (side_arr sd ob)"
    "side_arr sd ob ! nat (o_index (mem ob a)) = a" by (rule ix)+
qed

lemma remove_effect:
  assumes ok: "book_ok ob" and a: "orders ob i = Some a" "a \<in> set (side_arr sd ob)"
  shows "book_ok (remove i ob)"
    and "mset (side_arr sd (remove i ob)) = mset (side_arr sd ob) - {#a#}"
    and "sd' \<noteq> sd \<Longrightarrow> side_arr sd' (remove i ob) = side_arr sd' ob"
    and "no_index (mem (remove i ob) x) = no_index (mem ob x)"
    and "orders (remove i ob) = (orders ob)(i := None)"
    and "next_addr (remove i ob) = next_addr ob"
proof -
  note r = remove_eq [OF ok a]
  have inv: "hp.heap_inv sd (mem ob, side_arr sd ob)" by (rule book_okD(1) [OF ok])
  have n: "nat (o_index (mem ob a)) < length (snd (mem ob, side_arr sd ob))" using r(2) by simp
  note p = hp.heap_Remove_correct [OF inv n refl]
  have i: "i = o_OrderID (mem ob a)" using book_okD(6) [OF ok a(1)] by simp
  show "mset (side_arr sd (remove i ob)) = mset (side_arr sd ob) - {#a#}"
    "no_index (mem (remove i ob) x) = no_index (mem ob x)"
    "orders (remove i ob) = (orders ob)(i := None)" "next_addr (remove i ob) = next_addr ob"
    using p(3) fun_cong [OF p(4), of x] r(3) by (simp_all add: r(1))
  show "side_arr sd' (remove i ob) = side_arr sd' ob" if "sd' \<noteq> sd" using that by (simp add: r(1))
  show "book_ok (remove i ob)"
  proof (subst r(1), subst i, rule book_ok_take [OF ok a(2) p(2)])
    fix sd' x assume "sd' \<noteq> sd" "x \<in> set (side_arr sd' ob)"
    then have "x \<notin> set (side_arr sd ob)" using side_disjoint [OF ok, of x sd sd'] by auto
    then show "o_index (fst (snd (Heap_Remove sd (mem ob, side_arr sd ob) (nat (o_index (mem ob a))))) x) =
        o_index (mem ob x)" using p(6) [of x] by simp
  qed (use p(3,4) r(3) in \<open>simp_all add: fun_eq_iff\<close>)
qed

end
