(* ===== verification/Price_Time.thy ===== *)
theory Price_Time
  imports Book_Inv
begin

text \<open>
  Price-time priority as an abstract specification, and the refinement: the heap based matching
  loop of \<open>Orderbook\<close> computes the sweep of a queue sorted by priority.
\<close>

section \<open>The specification\<close>

record Resting =
  r_OrderID :: string
  r_Price :: price
  r_Qty :: int
  r_EnteredAt :: int
  r_SessionID :: string

text \<open>
  \<open>sweep sd limited p rem rs\<close>: an incoming order for \<open>rem\<close> units, at limit \<open>p\<close> if \<open>limited\<close>, against
  the queue \<open>rs\<close> of side \<open>sd\<close>, best first. Gives the trades, the units left and the queue left.
\<close>

fun sweep :: "side \<Rightarrow> bool \<Rightarrow> price \<Rightarrow> int \<Rightarrow> Resting list \<Rightarrow> (int \<times> price) list \<times> int \<times> Resting list" where
  "sweep sd limited p rem [] = ([], rem, [])"
| "sweep sd limited p rem (r # rs) =
     (if rem \<le> 0 \<or> limited \<and> price_stops sd p (r_Price r) then ([], rem, r # rs)
      else if r_Qty r \<le> rem
      then (case sweep sd limited p (rem - r_Qty r) rs of
              (ts, rem', rs') \<Rightarrow> ((r_Qty r, r_Price r) # ts, rem', rs'))
      else ([(rem, r_Price r)], 0, r\<lparr>r_Qty := r_Qty r - rem\<rparr> # rs))"

text \<open>Units traded, and the shape of a sweep: it consumes whole orders from the front and at most
  one order in part.\<close>

definition traded :: "(int \<times> price) list \<Rightarrow> int" where
  "traded ts = sum_list (map fst ts)"

definition depth :: "Resting list \<Rightarrow> int" where
  "depth rs = sum_list (map r_Qty rs)"

lemma traded_simps [simp]: "traded [] = 0" "traded (t # ts) = fst t + traded ts"
  by (simp_all add: traded_def)

lemma depth_simps [simp]: "depth [] = 0" "depth (r # rs) = r_Qty r + depth rs"
  by (simp_all add: depth_def)

lemma sweep_conserves:
  "sweep sd limited p rem rs = (ts, rem', rs') \<Longrightarrow> traded ts + rem' = rem \<and> traded ts + depth rs' = depth rs"
  by (induction sd limited p rem rs arbitrary: ts rem' rs' rule: sweep.induct)
    (auto split: if_splits prod.splits)

lemma sweep_positive:
  "sweep sd limited p rem rs = (ts, rem', rs') \<Longrightarrow> 0 \<le> rem \<Longrightarrow> \<forall>r\<in>set rs. 0 < r_Qty r \<Longrightarrow>
   0 \<le> rem' \<and> (\<forall>t\<in>set ts. 0 < fst t) \<and> (\<forall>r\<in>set rs'. 0 < r_Qty r)"
proof (induction sd limited p rem rs arbitrary: ts rem' rs' rule: sweep.induct)
  case (2 sd limited p rem r rs)
  then show ?case by (cases "sweep sd limited p (rem - r_Qty r) rs") (auto split: if_splits)
qed auto

lemma sweep_acceptable:
  "sweep sd limited p rem rs = (ts, rem', rs') \<Longrightarrow> limited \<Longrightarrow> t \<in> set ts \<Longrightarrow> \<not> price_stops sd p (snd t)"
proof (induction sd limited p rem rs arbitrary: ts rem' rs' rule: sweep.induct)
  case (2 sd limited p rem r rs)
  then show ?case by (cases "sweep sd limited p (rem - r_Qty r) rs") (auto split: if_splits)
qed auto

text \<open>\<open>k\<close> orders are consumed from the front, in queue order, each at its own price; what is left of
  the queue starts with the next order, reduced when the incoming order ran out inside it.\<close>

definition consumed :: "int \<Rightarrow> Resting list \<Rightarrow> (int \<times> price) list \<Rightarrow> int \<Rightarrow> Resting list \<Rightarrow> nat \<Rightarrow> bool" where
  "consumed rem rs ts rem' rs' k \<longleftrightarrow>
     k \<le> length rs \<and>
     (ts = map (\<lambda>r. (r_Qty r, r_Price r)) (take k rs) \<and> rs' = drop k rs \<or>
      k < length rs \<and> rem' = 0 \<and>
      (let r = rs ! k; q = rem - depth (take k rs)
       in 0 < q \<and> q < r_Qty r \<and> ts = map (\<lambda>r. (r_Qty r, r_Price r)) (take k rs) @ [(q, r_Price r)] \<and>
          rs' = r\<lparr>r_Qty := r_Qty r - q\<rparr> # drop (Suc k) rs))"

lemma consumed_step:
  assumes "consumed (rem - r_Qty r) rs ts rem' rs' k"
  shows "consumed rem (r # rs) ((r_Qty r, r_Price r) # ts) rem' rs' (Suc k)"
  using assms by (auto simp: consumed_def Let_def algebra_simps)

lemma sweep_consumes:
  "sweep sd limited p rem rs = (ts, rem', rs') \<Longrightarrow> \<exists>k. consumed rem rs ts rem' rs' k"
proof (induction sd limited p rem rs arbitrary: ts rem' rs' rule: sweep.induct)
  case (1 sd limited p rem)
  then show ?case by (auto simp: consumed_def)
next
  case (2 sd limited p rem r rs)
  consider "rem \<le> 0 \<or> limited \<and> price_stops sd p (r_Price r)"
    | "\<not> (rem \<le> 0 \<or> limited \<and> price_stops sd p (r_Price r))" "r_Qty r \<le> rem"
    | "\<not> (rem \<le> 0 \<or> limited \<and> price_stops sd p (r_Price r))" "rem < r_Qty r" by linarith
  then show ?case
  proof cases
    case 2
    obtain us where "sweep sd limited p (rem - r_Qty r) rs = (us, rem', rs')" "ts = (r_Qty r, r_Price r) # us"
      using 2 "2.prems" by (auto split: prod.splits)
    then show ?thesis using "2.IH" [OF 2(1), of us rem' rs'] 2(2) consumed_step by blast
  next
    case 1
    then show ?thesis using "2.prems" by (intro exI [of _ 0]) (auto simp: consumed_def)
  next
    case 3
    then show ?thesis using "2.prems" by (intro exI [of _ 0]) (auto simp: consumed_def Let_def)
  qed
qed

text \<open>Matching stops early only when the price of everything left is not acceptable.\<close>

lemma sweep_exhausts:
  assumes "sweep sd limited p rem rs = (ts, rem', rs')" and "0 < rem'"
  shows "rs' = [] \<or> limited \<and> price_stops sd p (r_Price (hd rs'))"
  using assms
proof (induction sd limited p rem rs arbitrary: ts rem' rs' rule: sweep.induct)
  case (2 sd limited p rem r rs)
  then show ?case by (cases "sweep sd limited p (rem - r_Qty r) rs") (auto split: if_splits)
qed auto

section \<open>The queue a book stands for\<close>

definition view :: "Order \<Rightarrow> Resting" where
  "view ord = \<lparr>r_OrderID = o_OrderID ord, r_Price = o_Price ord, r_Qty = sint (o_Remaining ord),
     r_EnteredAt = o_EnteredAt ord, r_SessionID = o_SessionID ord\<rparr>"

definition line :: "side \<Rightarrow> Orderbook \<Rightarrow> addr list" where
  "line sd ob = sort_key (\<lambda>a. prio sd (mem ob a)) (side_arr sd ob)"

definition queue :: "side \<Rightarrow> Orderbook \<Rightarrow> Resting list" where
  "queue sd ob = map (\<lambda>a. view (mem ob a)) (line sd ob)"

lemma view_no_index: "no_index x = no_index y \<Longrightarrow> view x = view y"
  unfolding view_def using no_index_eqD [of x y] by simp

lemma mset_line [simp]: "mset (line sd ob) = mset (side_arr sd ob)"
  by (simp add: line_def)

lemma set_line [simp]: "set (line sd ob) = set (side_arr sd ob)"
  by (simp add: line_def)

lemma prio_inj: "book_ok ob \<Longrightarrow> inj_on (\<lambda>a. prio sd (mem ob a)) (set (side_arr sd ob))"
  using book_okD(7) [of ob sd] by (cases sd) (auto simp: inj_on_def)

lemma line_unique:
  assumes "book_ok ob" and "mset xs = mset (side_arr sd ob)"
    and "sorted (map (\<lambda>a. prio sd (mem ob a)) xs)"
  shows "line sd ob = xs"
proof -
  have "set xs = set (side_arr sd ob)" using assms(2) by (rule mset_eq_setD)
  then show ?thesis
    unfolding line_def using sort_key_inj_key_eq [OF assms(2) [symmetric] prio_inj [OF assms(1)] assms(3)] by simp
qed

lemma sorted_line: "sorted (map (\<lambda>a. prio sd (mem ob a)) (line sd ob))"
  by (simp add: line_def)

lemma line_head:
  assumes ok: "book_ok ob" and ne: "side_arr sd ob \<noteq> []"
  shows "line sd ob = side_arr sd ob ! 0 # tl (line sd ob)"
proof -
  let ?f = "\<lambda>a. prio sd (mem ob a)" and ?b = "side_arr sd ob ! 0"
  have b: "?b \<in> set (side_arr sd ob)" using ne by simp
  have least: "?f ?b \<le> ?f x" if "x \<in> set (side_arr sd ob)" for x
    using hp.heap_top_least [OF book_okD(1) [OF ok, of sd], of x] that by simp
  have ne': "line sd ob \<noteq> []" using ne mset_line [of sd ob] by (metis mset_zero_iff)
  then have h: "hd (line sd ob) \<in> set (side_arr sd ob)" using set_line hd_in_set by blast
  have "?f (hd (line sd ob)) \<le> ?f ?b"
    using sorted_line [of sd ob] ne' b by (cases "line sd ob") (auto simp flip: set_line)
  then have "?f (hd (line sd ob)) = ?f ?b" using least [OF h] by simp
  then have "hd (line sd ob) = ?b" using prio_inj [OF ok, of sd] h b by (auto dest: inj_onD)
  then show ?thesis using ne' by (metis list.collapse)
qed

lemma line_transfer:
  assumes "book_ok ob'" and "mset (side_arr sd ob') = mset xs"
    and "sorted (map (\<lambda>a. prio sd (mem ob a)) xs)"
    and "\<And>x. x \<in> set xs \<Longrightarrow> prio sd (mem ob' x) = prio sd (mem ob x)"
  shows "line sd ob' = xs"
proof (rule line_unique [OF assms(1) assms(2) [symmetric]])
  have "map (\<lambda>a. prio sd (mem ob' a)) xs = map (\<lambda>a. prio sd (mem ob a)) xs" using assms(4) by simp
  then show "sorted (map (\<lambda>a. prio sd (mem ob' a)) xs)" using assms(3) by (simp only:)
qed

lemma queue_same:
  assumes "book_ok ob" "book_ok ob'" and "mset (side_arr sd ob') = mset (side_arr sd ob)"
    and "\<And>x. x \<in> set (side_arr sd ob) \<Longrightarrow> no_index (mem ob' x) = no_index (mem ob x)"
  shows "queue sd ob' = queue sd ob"
proof -
  have "line sd ob' = line sd ob"
  proof (rule line_transfer [OF assms(2) _ sorted_line])
    fix x assume "x \<in> set (line sd ob)"
    then show "prio sd (mem ob' x) = prio sd (mem ob x)" by (intro no_index_eqD(9) assms(4)) simp
  qed (use assms(3) in simp)
  then show ?thesis
    by (simp add: queue_def view_no_index [OF assms(4)])
qed

text \<open>Priority of a queue entry, and the book as the pair of its queues.\<close>

fun rprio :: "side \<Rightarrow> Resting \<Rightarrow> rat \<times> int" where
  "rprio Bids r = (- r_Price r, r_EnteredAt r)"
| "rprio Asks r = (r_Price r, r_EnteredAt r)"

lemma view_simps [simp]:
  "r_OrderID (view ord) = o_OrderID ord" "r_Price (view ord) = o_Price ord"
  "r_Qty (view ord) = sint (o_Remaining ord)" "r_EnteredAt (view ord) = o_EnteredAt ord"
  "r_SessionID (view ord) = o_SessionID ord"
  by (simp_all add: view_def)

lemma rprio_view [simp]: "rprio sd (view ord) = prio sd ord"
  by (cases sd) simp_all

lemma sorted_queue: "sorted (map (rprio sd) (queue sd ob))"
  using sorted_line [of sd ob] by (simp add: queue_def o_def)

lemma set_queue: "set (queue sd ob) = (\<lambda>a. view (mem ob a)) ` set (side_arr sd ob)"
  by (simp add: queue_def)

lemma stops_tail:
  assumes "sorted (map (rprio sd) (r # rs))" and "price_stops sd p (r_Price r)" and "x \<in> set rs"
  shows "price_stops sd p (r_Price x)"
proof -
  have "rprio sd r \<le> rprio sd x" using assms(1,3) by auto
  with assms(2) show ?thesis by (cases sd) auto
qed

text \<open>Resting an order inserts it into its queue by priority.\<close>

lemma rest_queue:
  assumes ok: "book_ok ob" and may: "may_rest sd a ob"
  shows "queue sd (rest a ob) = insort_key (rprio sd) (view (mem ob a)) (queue sd ob)"
    and "sd' \<noteq> sd \<Longrightarrow> queue sd' (rest a ob) = queue sd' ob"
proof -
  note e = rest_effect [OF ok may] and ok' = rest_ok [OF ok may]
  have l: "line sd (rest a ob) = insort_key (\<lambda>x. prio sd (mem ob x)) a (line sd ob)"
  proof (rule line_transfer [OF ok'])
    show "sorted (map (\<lambda>x. prio sd (mem ob x)) (insort_key (\<lambda>x. prio sd (mem ob x)) a (line sd ob)))"
      by (simp add: sorted_insort_key sorted_line)
  qed (use e(1) no_index_eqD(9) [OF e(3)] in simp_all)
  have v: "view (mem (rest a ob) x) = view (mem ob x)" for x by (rule view_no_index [OF e(3)])
  show "queue sd (rest a ob) = insort_key (rprio sd) (view (mem ob a)) (queue sd ob)"
    using map_insort_key [of "\<lambda>x. view (mem ob x)" "rprio sd" a "line sd ob"] by (simp add: queue_def l v)
  show "queue sd' (rest a ob) = queue sd' ob" if "sd' \<noteq> sd"
    by (rule queue_same [OF ok ok']) (use e(2) [OF that] e(3) in simp_all)
qed

text \<open>Removing an order filters it out of its queue.\<close>

lemma mset_filter_line:
  assumes ok: "book_ok ob" and a: "a \<in> set (side_arr sd ob)"
  shows "mset (filter (\<lambda>x. x \<noteq> a) (line sd ob)) = mset (side_arr sd ob) - {#a#}"
proof -
  have "distinct (line sd ob)" using book_okD(2) [OF ok, of sd] mset_eq_imp_distinct_iff [OF mset_line] by blast
  then show ?thesis using filter_neq_mset [of "line sd ob" a] a by simp
qed

lemma remove_queue:
  assumes ok: "book_ok ob"
  shows "queue sd (remove i ob) = filter (\<lambda>r. r_OrderID r \<noteq> i) (queue sd ob)"
proof (cases "orders ob i")
  case None
  have "r_OrderID r \<noteq> i" if "r \<in> set (queue sd ob)" for r
  proof -
    from that obtain x where "x \<in> set (side_arr sd ob)" "r = view (mem ob x)" by (auto simp: set_queue)
    with book_okD(5) [OF ok, of x sd] None show ?thesis by auto
  qed
  with None show ?thesis by (simp add: remove_unknown)
next
  case (Some a)
  then obtain sd' where i: "o_OrderID (mem ob a) = i" and a: "a \<in> set (side_arr sd' ob)"
    using book_okD(6) [OF ok] by blast
  note e = remove_effect [OF ok Some a]
  have id: "o_OrderID (mem ob x) = i \<longleftrightarrow> x = a" if "x \<in> set (side_arr sd ob)" for x
    using book_okD(5) [OF ok that] Some i by (metis option.inject)
  have "line sd (remove i ob) = filter (\<lambda>x. x \<noteq> a) (line sd ob)"
  proof (rule line_transfer [OF e(1) _ sorted_filter [OF sorted_line]])
    show "mset (side_arr sd (remove i ob)) = mset (filter (\<lambda>x. x \<noteq> a) (line sd ob))"
    proof (cases "sd = sd'")
      case True
      then show ?thesis using e(2) mset_filter_line [OF ok a] by simp
    next
      case False
      then have "a \<notin> set (line sd ob)" using a side_disjoint [OF ok a, of sd] by auto
      then have "filter (\<lambda>x. x \<noteq> a) (line sd ob) = line sd ob" by (intro filter_True) auto
      then show ?thesis using e(3) [OF False] by simp
    qed
  qed (rule no_index_eqD(9) [OF e(4)])
  moreover have "filter (\<lambda>x. x \<noteq> a) (line sd ob) = filter (\<lambda>x. o_OrderID (mem ob x) \<noteq> i) (line sd ob)"
    using id by (intro filter_cong) auto
  ultimately show ?thesis
    using view_no_index [OF e(4)] by (simp add: queue_def filter_map o_def)
qed

lemma remove_ok: "book_ok ob \<Longrightarrow> book_ok (remove i ob)"
  using remove_unknown remove_effect(1) book_okD(6) by (cases "orders ob i") (fastforce, blast)

section \<open>One turn of the loop\<close>

lemma min64_sint: "sint (min64 a b) = min (sint a) (sint b)"
  by (simp add: min64_def)

definition free_order :: "addr \<Rightarrow> Orderbook \<Rightarrow> bool" where
  "free_order a ob \<longleftrightarrow> (\<forall>sd. a \<notin> set (side_arr sd ob)) \<and> orders ob (o_OrderID (mem ob a)) = None"

lemma match_turn_cases:
  assumes t: "match_turn sd a best ob clk = (f, ob', clk')" and ab: "a \<noteq> best"
    and ra: "ra = o_Remaining (mem ob a)" and rb: "rb = o_Remaining (mem ob best)"
    and m: "m = set_Remaining (set_Remaining (mem ob) a (ra - min64 ra rb)) best (rb - min64 ra rb)"
  shows "f_OrderID f = o_OrderID (mem ob a)" "f_FilledQty f = min64 ra rb"
    "f_FillPrice f = o_Price (mem ob best)" "f_Remaining f = ra - min64 ra rb" "f_Type f = ''fill''"
    "f_Timestamp f = fst (now clk)" "clk' = snd (now clk)"
    "ob' = (if rb - min64 ra rb = 0
        then put_heap sd (ob\<lparr>mem := m, orders := (orders ob)(o_OrderID (mem ob best) := None)\<rparr>)
               (snd (Heap_Pop sd (m, side_arr sd ob)))
        else put_heap sd (ob\<lparr>mem := m\<rparr>) (Heap_Fix sd (m, side_arr sd ob) 0))"
  using t ab unfolding m ra rb
  by (auto simp: match_turn_def Let_def set_Remaining_def split: prod.splits)

text \<open>The two orders of a turn with their new remainders.\<close>

definition settled :: "addr \<Rightarrow> addr \<Rightarrow> int64 \<Rightarrow> int64 \<Rightarrow> Orderbook \<Rightarrow> addr \<Rightarrow> Order" where
  "settled a best qa qb ob = (mem ob)(a := (mem ob a)\<lparr>o_Remaining := qa\<rparr>, best := (mem ob best)\<lparr>o_Remaining := qb\<rparr>)"

lemma settled_no_index:
  assumes "a \<noteq> best"
  shows "x \<noteq> a \<Longrightarrow> x \<noteq> best \<Longrightarrow> no_index (settled a best qa qb ob x) = no_index (mem ob x)"
    and "no_index (settled a best qa qb ob a) = (no_index (mem ob a))\<lparr>o_Remaining := qa\<rparr>"
    and "no_index (settled a best qa qb ob best) = (no_index (mem ob best))\<lparr>o_Remaining := qb\<rparr>"
  using assms by (simp_all add: settled_def no_index_def)

lemma settled_heap_inv: "book_ok ob \<Longrightarrow> hp.heap_inv sd (settled a best qa qb ob, side_arr sd ob)"
  by (rule heap_inv_cong [OF book_okD(1)]) (auto simp: settled_def split: side.split, (cases sd; simp)+)

text \<open>The best order is used up and leaves the heap and the index.\<close>

lemma book_ok_filled:
  assumes ok: "book_ok ob" and free: "free_order a ob" and ne: "side_arr sd ob \<noteq> []" and best: "best = side_arr sd ob ! 0"
    and h: "h = snd (Heap_Pop sd (settled a best qa qb ob, side_arr sd ob))"
  shows "book_ok (put_heap sd (ob\<lparr>orders := (orders ob)(o_OrderID (mem ob best) := None)\<rparr>) h) \<and>
    mset (snd h) = mset (side_arr sd ob) - {#best#} \<and> (\<forall>x. no_index (fst h x) = no_index (settled a best qa qb ob x))"
proof -
  let ?m = "settled a best qa qb ob"
  have bb: "best \<in> set (side_arr sd ob)" using ne best by simp
  have "snd (?m, side_arr sd ob) \<noteq> []" using ne by simp
  note p = hp.heap_Pop_correct [OF settled_heap_inv [OF ok] this refl, folded h]
  have "book_ok (put_heap sd (ob\<lparr>orders := (orders ob)(o_OrderID (mem ob best) := None)\<rparr>) h)"
  proof (rule book_ok_take [OF ok bb p(2)])
    fix sd' x assume x: "x \<in> set (side_arr sd' ob)"
    have xa: "x \<noteq> a" using x free by (auto simp: free_order_def)
    { assume "x \<noteq> best"
      with xa show "no_index (fst h x) = no_index (mem ob x)" using fun_cong [OF p(4), of x] by (simp add: settled_def) }
    { assume "sd' \<noteq> sd"
      then have "x \<notin> set (side_arr sd ob)" using x side_disjoint [OF ok, of x sd sd'] by auto
      then show "o_index (fst h x) = o_index (mem ob x)"
        using p(6) [of x] bb xa by (cases "x = best") (auto simp: settled_def) }
  qed (use p(3) best in simp)
  then show ?thesis using p(3) fun_cong [OF p(4)] best by simp
qed

text \<open>The best order is filled in part and stays.\<close>

lemma book_ok_partly_filled:
  assumes ok: "book_ok ob" and free: "free_order a ob" and "best \<in> set (side_arr sd ob)"
    and q: "0 < sint qb" "sint qb \<le> sint (o_Remaining (mem ob best))"
  shows "book_ok (ob\<lparr>mem := settled a best qa qb ob\<rparr>)"
proof (rule book_ok_update [OF ok])
  fix sd' x assume x: "x \<in> set (side_arr sd' ob)"
  then have "x \<noteq> a" using free by (auto simp: free_order_def)
  moreover have "0 < sint (o_Remaining (mem ob x))" using book_okD(4) [OF ok x] by (simp add: order_ok_def)
  ultimately show "\<exists>q. settled a best qa qb ob x = (mem ob x)\<lparr>o_Remaining := q\<rparr> \<and> 0 < sint q \<and> sint q \<le> sint (o_Remaining (mem ob x))"
    using q by (intro exI [of _ "if x = best then qb else o_Remaining (mem ob x)"]) (auto simp: settled_def)
qed

lemma match_turn_effect:
  assumes ok: "book_ok ob" and free: "free_order a ob" and pos: "0 < sint (o_Remaining (mem ob a))"
    and ne: "side_arr sd ob \<noteq> []" and best: "best = side_arr sd ob ! 0"
    and t: "match_turn sd a best ob clk = (f, ob', clk')"
    and ra: "ra = o_Remaining (mem ob a)" and rb: "rb = o_Remaining (mem ob best)"
  shows "book_ok ob'"
    and "mset (side_arr sd ob') = (if sint rb \<le> sint ra then mset (side_arr sd ob) - {#best#} else mset (side_arr sd ob))"
    and "sd' \<noteq> sd \<Longrightarrow> side_arr sd' ob' = side_arr sd' ob"
    and "orders ob' = (if sint rb \<le> sint ra then (orders ob)(o_OrderID (mem ob best) := None) else orders ob)"
    and "next_addr ob' = next_addr ob"
    and "x \<noteq> a \<Longrightarrow> x \<noteq> best \<Longrightarrow> no_index (mem ob' x) = no_index (mem ob x)"
    and "no_index (mem ob' a) = (no_index (mem ob a))\<lparr>o_Remaining := ra - min64 ra rb\<rparr>"
    and "no_index (mem ob' best) = (no_index (mem ob best))\<lparr>o_Remaining := rb - min64 ra rb\<rparr>"
proof -
  let ?m = "settled a best (ra - min64 ra rb) (rb - min64 ra rb) ob"
  have bb: "best \<in> set (side_arr sd ob)" using ne best by simp
  then have ab: "a \<noteq> best" using free by (auto simp: free_order_def)
  have m: "?m = set_Remaining (set_Remaining (mem ob) a (ra - min64 ra rb)) best (rb - min64 ra rb)"
    using ab by (auto simp: settled_def set_Remaining_def)
  note c = match_turn_cases [OF t ab ra rb m]
  have rb_pos: "0 < sint rb" using book_okD(4) [OF ok bb] rb by (simp add: order_ok_def)
  have drb: "sint (rb - min64 ra rb) = sint rb - min (sint ra) (sint rb)"
    using min64_sint [of ra rb] pos ra rb_pos by (subst sint64_diff_le) auto
  have z: "rb - min64 ra rb = 0 \<longleftrightarrow> sint rb \<le> sint ra"
    using drb sint64_eq_0_iff [of "rb - min64 ra rb"] by auto
  have "book_ok ob' \<and>
     mset (side_arr sd ob') = (if sint rb \<le> sint ra then mset (side_arr sd ob) - {#best#} else mset (side_arr sd ob)) \<and>
     (\<forall>x. no_index (mem ob' x) = no_index (?m x)) \<and>
     orders ob' = (if sint rb \<le> sint ra then (orders ob)(o_OrderID (mem ob best) := None) else orders ob)"
  proof (cases "sint rb \<le> sint ra")
    case True
    then have "ob' = put_heap sd (ob\<lparr>orders := (orders ob)(o_OrderID (mem ob best) := None)\<rparr>) (snd (Heap_Pop sd (?m, side_arr sd ob)))"
      using c(8) z by (cases sd) simp_all
    with True book_ok_filled [OF ok free ne best refl] show ?thesis by simp
  next
    case False
    have "Heap_Fix sd (?m, side_arr sd ob) 0 = (?m, side_arr sd ob)"
      using hp.heap_Fix_same [OF settled_heap_inv [OF ok], of 0] ne by simp
    then have "ob' = ob\<lparr>mem := ?m\<rparr>" using c(8) z False by (cases sd) simp_all
    moreover have "book_ok (ob\<lparr>mem := ?m\<rparr>)" by (rule book_ok_partly_filled [OF ok free bb]) (use drb False pos ra rb in auto)
    ultimately show ?thesis using False by simp
  qed
  then show "book_ok ob'"
    "mset (side_arr sd ob') = (if sint rb \<le> sint ra then mset (side_arr sd ob) - {#best#} else mset (side_arr sd ob))"
    "orders ob' = (if sint rb \<le> sint ra then (orders ob)(o_OrderID (mem ob best) := None) else orders ob)"
    "x \<noteq> a \<Longrightarrow> x \<noteq> best \<Longrightarrow> no_index (mem ob' x) = no_index (mem ob x)"
    "no_index (mem ob' a) = (no_index (mem ob a))\<lparr>o_Remaining := ra - min64 ra rb\<rparr>"
    "no_index (mem ob' best) = (no_index (mem ob best))\<lparr>o_Remaining := rb - min64 ra rb\<rparr>"
    using settled_no_index [OF ab] by simp_all
  show "side_arr sd' ob' = side_arr sd' ob" if "sd' \<noteq> sd" using that by (simp add: c(8))
  show "next_addr ob' = next_addr ob" by (simp add: c(8))
qed

section \<open>The queue after a turn\<close>

lemma sorted_tl_line: "sorted (map (\<lambda>a. prio sd (mem ob a)) (tl (line sd ob)))"
  using sorted_line [of sd ob] by (cases "line sd ob") auto

text \<open>Behind the head of the line nothing changes.\<close>

lemma line_tail_kept:
  assumes ok: "book_ok ob" and free: "free_order a ob" and l: "line sd ob = best # tl (line sd ob)"
    and keep: "\<And>x. x \<noteq> a \<Longrightarrow> x \<noteq> best \<Longrightarrow> no_index (mem ob' x) = no_index (mem ob x)"
  shows "map (\<lambda>x. view (mem ob' x)) (tl (line sd ob)) = tl (queue sd ob) \<and>
    (\<forall>x \<in> set (tl (line sd ob)). prio sd (mem ob' x) = prio sd (mem ob x))"
proof -
  have d: "distinct (line sd ob)" using book_okD(2) [OF ok, of sd] mset_eq_imp_distinct_iff [OF mset_line] by blast
  have kept: "no_index (mem ob' x) = no_index (mem ob x)" if "x \<in> set (tl (line sd ob))" for x
  proof (rule keep)
    show "x \<noteq> best" using d l that by (metis distinct.simps(2))
    have "x \<in> set (side_arr sd ob)" using that l set_line by (metis list.set_intros(2))
    then show "x \<noteq> a" using free by (auto simp: free_order_def)
  qed
  have "map (\<lambda>x. view (mem ob' x)) (tl (line sd ob)) = map (\<lambda>x. view (mem ob x)) (tl (line sd ob))"
    by (rule map_cong [OF refl], rule view_no_index, rule kept)
  moreover have "prio sd (mem ob' x) = prio sd (mem ob x)" if "x \<in> set (tl (line sd ob))" for x
    using kept [OF that] no_index_eqD(9) by blast
  ultimately show ?thesis by (simp add: queue_def map_tl)
qed

lemma match_turn_queue:
  assumes ok: "book_ok ob" and free: "free_order a ob" and pos: "0 < sint (o_Remaining (mem ob a))"
    and ne: "side_arr sd ob \<noteq> []" and best: "best = side_arr sd ob ! 0"
    and t: "match_turn sd a best ob clk = (f, ob', clk')"
    and ra: "ra = o_Remaining (mem ob a)" and rb: "rb = o_Remaining (mem ob best)"
  shows "queue sd ob = view (mem ob best) # tl (queue sd ob)"
    and "queue sd ob' = (if sint rb \<le> sint ra then tl (queue sd ob)
           else (view (mem ob best))\<lparr>r_Qty := sint rb - sint ra\<rparr> # tl (queue sd ob))"
proof -
  note e = match_turn_effect [OF ok free pos ne best t ra rb]
  have l: "line sd ob = best # tl (line sd ob)" using line_head [OF ok ne] best by simp
  then show "queue sd ob = view (mem ob best) # tl (queue sd ob)"
    unfolding queue_def by (cases "line sd ob") auto
  have m: "mset (side_arr sd ob) = add_mset best (mset (tl (line sd ob)))"
    using arg_cong [OF l, of mset] by simp
  have same: "map (\<lambda>x. view (mem ob' x)) (tl (line sd ob)) = tl (queue sd ob)"
    and p: "\<And>x. x \<in> set (tl (line sd ob)) \<Longrightarrow> prio sd (mem ob' x) = prio sd (mem ob x)"
    using line_tail_kept [OF ok free l e(6)] by blast+
  show "queue sd ob' = (if sint rb \<le> sint ra then tl (queue sd ob)
           else (view (mem ob best))\<lparr>r_Qty := sint rb - sint ra\<rparr> # tl (queue sd ob))"
  proof (cases "sint rb \<le> sint ra")
    case True
    have "line sd ob' = tl (line sd ob)"
      by (rule line_transfer [OF e(1) _ sorted_tl_line p]) (use e(2) True m in simp)
    with True same show ?thesis by (simp add: queue_def)
  next
    case False
    have pb: "prio sd (mem ob' best) = prio sd (mem ob best)"
      using arg_cong [OF e(8), of "prio sd"] by (cases sd) simp_all
    have "line sd ob' = line sd ob"
    proof (rule line_transfer [OF e(1) _ sorted_line])
      fix x assume "x \<in> set (line sd ob)"
      then show "prio sd (mem ob' x) = prio sd (mem ob x)"
        using l p pb by (metis set_ConsD)
    qed (use e(2) False in simp)
    then have q: "queue sd ob' = view (mem ob' best) # tl (queue sd ob)"
      using l same unfolding queue_def by (cases "line sd ob") auto
    have "sint (rb - min64 ra rb) = sint rb - sint ra"
      using False pos ra min64_sint [of ra rb] by (subst sint64_diff_le) auto
    then have "view (mem ob' best) = (view (mem ob best))\<lparr>r_Qty := sint rb - sint ra\<rparr>"
      using e(8) no_index_eqD [of "mem ob' best" "(mem ob best)\<lparr>o_Remaining := rb - min64 ra rb\<rparr>"]
      by (simp add: view_def no_index_def)
    with q False show ?thesis by simp
  qed
qed

section \<open>The loop refines the sweep\<close>

text \<open>
  The fill messages of an order are the trades of the sweep, each with the running remainder.
\<close>

fun fills_are :: "string \<Rightarrow> int \<Rightarrow> FillMessage list \<Rightarrow> (int \<times> price) list \<Rightarrow> bool" where
  "fills_are i rem [] [] = True"
| "fills_are i rem (f # fs) (t # ts) =
     (f_Type f = ''fill'' \<and> f_OrderID f = i \<and> sint (f_FilledQty f) = fst t \<and> f_FillPrice f = snd t \<and>
      sint (f_Remaining f) = rem - fst t \<and> fills_are i (rem - fst t) fs ts)"
| "fills_are i rem _ _ = False"

lemma free_order_turn:
  assumes ok: "book_ok ob" and free: "free_order a ob" and pos: "0 < sint (o_Remaining (mem ob a))"
    and ne: "side_arr sd ob \<noteq> []" and best: "best = side_arr sd ob ! 0"
    and t: "match_turn sd a best ob clk = (f, ob', clk')"
  shows "free_order a ob'"
proof -
  note e = match_turn_effect [OF ok free pos ne best t refl refl]
  have "set (side_arr sd' ob') \<subseteq> set (side_arr sd' ob)" for sd'
    using e(2) e(3) [of sd'] by (cases "sd' = sd") (auto split: if_splits dest!: in_diffD simp flip: set_mset_mset)
  moreover have "o_OrderID (mem ob' a) = o_OrderID (mem ob a)"
    using arg_cong [OF e(7), of o_OrderID] by simp
  ultimately show ?thesis using free e(4) by (auto simp: free_order_def)
qed

text \<open>What a run of the loop leaves alone.\<close>

definition frame :: "side \<Rightarrow> addr \<Rightarrow> Orderbook \<Rightarrow> Orderbook \<Rightarrow> bool" where
  "frame sd a ob ob' \<longleftrightarrow>
     (\<forall>sd'. sd' \<noteq> sd \<longrightarrow> side_arr sd' ob' = side_arr sd' ob) \<and>
     set (side_arr sd ob') \<subseteq> set (side_arr sd ob) \<and>
     (\<forall>x. x \<noteq> a \<and> x \<notin> set (side_arr sd ob) \<longrightarrow> no_index (mem ob' x) = no_index (mem ob x)) \<and>
     (\<forall>x. \<exists>r. no_index (mem ob' x) = (no_index (mem ob x))\<lparr>o_Remaining := r\<rparr>) \<and>
     orders ob' \<subseteq>\<^sub>m orders ob \<and> next_addr ob' = next_addr ob"

lemma frame_refl: "frame sd a ob ob"
  by (auto simp: frame_def intro: exI [of _ "o_Remaining (mem ob x)" for x]) (metis Order.surjective Order.update_convs(6))

lemma frame_trans: "frame sd a ob ob1 \<Longrightarrow> frame sd a ob1 ob2 \<Longrightarrow> frame sd a ob ob2"
  unfolding frame_def
  by (auto intro: map_le_trans) (metis Order.update_convs(6) Order.surjective)

lemma frame_turn:
  assumes ok: "book_ok ob" and free: "free_order a ob" and pos: "0 < sint (o_Remaining (mem ob a))"
    and ne: "side_arr sd ob \<noteq> []" and best: "best = side_arr sd ob ! 0"
    and t: "match_turn sd a best ob clk = (f, ob', clk')"
  shows "frame sd a ob ob'"
proof -
  note e = match_turn_effect [OF ok free pos ne best t refl refl]
  have bb: "best \<in> set (side_arr sd ob)" using ne best by simp
  have "set (side_arr sd ob') \<subseteq> set (side_arr sd ob)"
    using e(2) by (auto split: if_splits dest!: in_diffD simp flip: set_mset_mset)
  moreover have "\<exists>r. no_index (mem ob' x) = (no_index (mem ob x))\<lparr>o_Remaining := r\<rparr>" for x
    using e(6) [of x] e(7,8) frame_refl [of sd a ob] unfolding frame_def by metis
  moreover have "orders ob' \<subseteq>\<^sub>m orders ob" using e(4) by (simp add: map_le_def)
  ultimately show ?thesis using e(3,5,6) bb by (auto simp: frame_def)
qed

definition loop_post :: "side \<Rightarrow> addr \<Rightarrow> Orderbook \<Rightarrow> Clock \<Rightarrow> FillMessage list \<Rightarrow> Orderbook \<Rightarrow> Clock \<Rightarrow> bool" where
  "loop_post sd a ob clk fs ob' clk' \<longleftrightarrow>
     book_ok ob' \<and> free_order a ob' \<and> frame sd a ob ob' \<and> lastTimestamp clk \<le> lastTimestamp clk' \<and>
     (\<exists>ts. sweep sd (o_OrderType (mem ob a) = ''limit'') (o_Price (mem ob a)) (sint (o_Remaining (mem ob a))) (queue sd ob) =
             (ts, sint (o_Remaining (mem ob' a)), queue sd ob') \<and>
           fills_are (o_OrderID (mem ob a)) (sint (o_Remaining (mem ob a))) fs ts)"

lemma queue_Nil: "side_arr sd ob = [] \<Longrightarrow> queue sd ob = []"
  by (simp add: queue_def line_def)

lemma loop_post_stop:
  assumes "book_ok ob" "free_order a ob"
    and "sint (o_Remaining (mem ob a)) \<le> 0 \<or> side_arr sd ob = [] \<or>
         o_OrderType (mem ob a) = ''limit'' \<and> price_stops sd (o_Price (mem ob a)) (o_Price (mem ob (side_arr sd ob ! 0)))"
  shows "loop_post sd a ob clk [] ob clk"
proof (cases "side_arr sd ob = []")
  case True
  with assms show ?thesis by (simp add: loop_post_def frame_refl queue_Nil)
next
  case False
  have "queue sd ob = view (mem ob (side_arr sd ob ! 0)) # tl (queue sd ob)"
    using line_head [OF assms(1) False] unfolding queue_def by (cases "line sd ob") auto
  then obtain rs where q: "queue sd ob = view (mem ob (side_arr sd ob ! 0)) # rs" by blast
  show ?thesis
    using assms False by (auto simp: loop_post_def frame_refl q view_def)
qed

lemma loop_post_turn:
  assumes ok: "book_ok ob" and free: "free_order a ob" and pos: "0 < sint (o_Remaining (mem ob a))"
    and ne: "side_arr sd ob \<noteq> []" and best: "best = side_arr sd ob ! 0"
    and go: "\<not> (o_OrderType (mem ob a) = ''limit'' \<and> price_stops sd (o_Price (mem ob a)) (o_Price (mem ob best)))"
    and t: "match_turn sd a best ob clk = (f, ob1, clk1)"
    and post: "loop_post sd a ob1 clk1 fs ob' clk'"
  shows "loop_post sd a ob clk (f # fs) ob' clk'"
proof -
  let ?ra = "o_Remaining (mem ob a)" let ?rb = "o_Remaining (mem ob best)"
  note e = match_turn_effect [OF ok free pos ne best t refl refl]
  note q = match_turn_queue [OF ok free pos ne best t refl refl]
  have bb: "best \<in> set (side_arr sd ob)" using ne best by simp
  then have ab: "a \<noteq> best" using free by (auto simp: free_order_def)
  note c = match_turn_cases [OF t ab refl refl refl]
  have rbp: "0 < sint ?rb" using book_okD(4) [OF ok bb] by (simp add: order_ok_def)
  have qm: "sint (min64 ?ra ?rb) = min (sint ?ra) (sint ?rb)" by (rule min64_sint)
  have rem: "sint (?ra - min64 ?ra ?rb) = sint ?ra - min (sint ?ra) (sint ?rb)"
    using qm pos rbp by (subst sint64_diff_le) auto
  have "no_index (mem ob1 a) = no_index ((mem ob a)\<lparr>o_Remaining := ?ra - min64 ?ra ?rb\<rparr>)"
    using e(7) by (simp add: no_index_def)
  note a1 = no_index_eqD [OF this, simplified]
  from post obtain ts where sw: "sweep sd (o_OrderType (mem ob a) = ''limit'') (o_Price (mem ob a))
        (sint ?ra - min (sint ?ra) (sint ?rb)) (queue sd ob1) = (ts, sint (o_Remaining (mem ob' a)), queue sd ob')"
    and fl: "fills_are (o_OrderID (mem ob a)) (sint ?ra - min (sint ?ra) (sint ?rb)) fs ts"
    using a1 rem by (auto simp: loop_post_def)
  obtain rs where qo: "queue sd ob = view (mem ob best) # rs" using q(1) by blast
  have v: "r_Price (view (mem ob best)) = o_Price (mem ob best)" "r_Qty (view (mem ob best)) = sint ?rb"
    by (simp_all add: view_def)
  have "sweep sd (o_OrderType (mem ob a) = ''limit'') (o_Price (mem ob a)) (sint ?ra) (queue sd ob) =
      ((min (sint ?ra) (sint ?rb), o_Price (mem ob best)) # ts, sint (o_Remaining (mem ob' a)), queue sd ob')"
  proof (cases "sint ?rb \<le> sint ?ra")
    case True
    then show ?thesis using sw go pos q(2) by (simp add: qo v)
  next
    case False
    then show ?thesis using sw go pos q(2) by (auto simp: qo v)
  qed
  moreover have "fills_are (o_OrderID (mem ob a)) (sint ?ra) (f # fs) ((min (sint ?ra) (sint ?rb), o_Price (mem ob best)) # ts)"
    using fl c(1-5) rem qm by simp
  moreover have "lastTimestamp clk \<le> lastTimestamp clk'"
    using post c(7) fst_now_gt [of clk] by (simp add: loop_post_def)
  moreover have "frame sd a ob ob'"
    using frame_trans [OF frame_turn [OF ok free pos ne best t]] post by (simp add: loop_post_def)
  ultimately show ?thesis using post by (auto simp: loop_post_def)
qed

theorem match_loop_refines:
  "match_loop sd a ob clk fills = (fills', ob', clk') \<Longrightarrow> book_ok ob \<Longrightarrow> free_order a ob \<Longrightarrow>
   \<exists>fs. fills' = fills @ fs \<and> loop_post sd a ob clk fs ob' clk'"
proof (induction sd a ob clk fills arbitrary: fills' ob' clk' rule: match_loop.induct)
  case (1 sd a ob clk fills)
  let ?best = "side_arr sd ob ! 0"
  note ok = "1.prems"(2) and free = "1.prems"(3)
  show ?case
  proof (cases "0 < sint (o_Remaining (mem ob a)) \<and> side_arr sd ob \<noteq> [] \<and>
      \<not> (o_OrderType (mem ob a) = ''limit'' \<and> price_stops sd (o_Price (mem ob a)) (o_Price (mem ob ?best)))")
    case False
    then have "match_loop sd a ob clk fills = (fills, ob, clk)"
      by (subst match_loop.simps) (auto simp: Let_def)
    with "1.prems"(1) loop_post_stop [OF ok free, of sd clk] False show ?thesis by auto
  next
    case True
    then have g: "0 < sint (o_Remaining (mem ob a))" "side_arr sd ob \<noteq> []"
      "\<not> (o_OrderType (mem ob a) = ''limit'' \<and> price_stops sd (o_Price (mem ob a)) (o_Price (mem ob ?best)))"
      by auto
    obtain f ob1 clk1 where t: "match_turn sd a ?best ob clk = (f, ob1, clk1)" by (metis prod_cases3)
    have l: "match_loop sd a ob1 clk1 (fills @ [f]) = (fills', ob', clk')"
      using "1.prems"(1) True t by (subst (asm) match_loop.simps) (auto simp: Let_def)
    have ok1: "book_ok ob1" and free1: "free_order a ob1"
      using match_turn_effect(1) [OF ok free g(1,2) refl t refl refl] free_order_turn [OF ok free g(1,2) refl t] .
    have "\<exists>fs. fills' = (fills @ [f]) @ fs \<and> loop_post sd a ob1 clk1 fs ob' clk'"
      using True by (intro "1.IH" [OF _ refl _ t [symmetric] refl l ok1 free1]) auto
    then show ?thesis
      using loop_post_turn [OF ok free g(1,2) refl g(3) t] by auto
  qed
qed

end
