(* ===== verification/Stub_Session.thy ===== *)
theory Stub_Session
  imports Price_Time
begin

text \<open>
  The sessions of the stub engine (\<open>src/services/stub/main.go\<close>): the wire messages, the order and
  cancel handlers, the orderbook snapshot, and the contract of each handler against the queues of
  \<open>Price_Time\<close>. A handler changes the book under its mutex and is an atomic function of book and
  clock; the messages it puts on the session's channel are its result, in sending order.
\<close>

section \<open>Wire messages\<close>

record IncomingMessage =
  i_Type :: string
  i_OrderID :: string
  i_Side :: string
  i_OrderType :: string
  i_Price :: price
  i_Quantity :: int64

record AckMessage =
  a_Type :: string
  a_OrderID :: string
  a_Timestamp :: int

record CancelAckMessage =
  c_Type :: string
  c_OrderID :: string
  c_Timestamp :: int

record RejectMessage =
  j_Type :: string
  j_OrderID :: string
  j_Reason :: string
  j_Timestamp :: int

datatype OutMessage = Ack AckMessage | Fill FillMessage | CancelAck CancelAckMessage | Reject RejectMessage

fun out_OrderID :: "OutMessage \<Rightarrow> string" where
  "out_OrderID (Ack m) = a_OrderID m"
| "out_OrderID (Fill m) = f_OrderID m"
| "out_OrderID (CancelAck m) = c_OrderID m"
| "out_OrderID (Reject m) = j_OrderID m"

fun out_Timestamp :: "OutMessage \<Rightarrow> int" where
  "out_Timestamp (Ack m) = a_Timestamp m"
| "out_Timestamp (Fill m) = f_Timestamp m"
| "out_Timestamp (CancelAck m) = c_Timestamp m"
| "out_Timestamp (Reject m) = j_Timestamp m"

section \<open>Handlers\<close>

definition orderID_char :: "char \<Rightarrow> bool" where
  "orderID_char c \<longleftrightarrow> is_alnum c \<or> c = CHR ''/'' \<or> c = CHR ''-''"

definition orderIDRegex_MatchString :: "string \<Rightarrow> bool" where
  "orderIDRegex_MatchString s \<longleftrightarrow> s \<noteq> [] \<and> list_all orderID_char s"

definition reject :: "string \<Rightarrow> string \<Rightarrow> int \<Rightarrow> OutMessage" where
  "reject orderID reason ts =
     Reject \<lparr>j_Type = ''reject'', j_OrderID = orderID, j_Reason = reason, j_Timestamp = ts\<rparr>"

definition alloc :: "Order \<Rightarrow> Orderbook \<Rightarrow> addr \<times> Orderbook" where
  "alloc ord ob = (next_addr ob, ob\<lparr>mem := (mem ob)(next_addr ob := ord), next_addr := Suc (next_addr ob)\<rparr>)"

definition bad_fields :: "IncomingMessage \<Rightarrow> bool" where
  "bad_fields msg \<longleftrightarrow>
     length (i_OrderID msg) = 0 \<or> length (i_OrderID msg) > 64 \<or> \<not> orderIDRegex_MatchString (i_OrderID msg) \<or>
     (i_Side msg \<noteq> ''buy'' \<and> i_Side msg \<noteq> ''sell'') \<or>
     (i_OrderType msg \<noteq> ''limit'' \<and> i_OrderType msg \<noteq> ''market'')"

definition new_Order :: "string \<Rightarrow> IncomingMessage \<Rightarrow> int \<Rightarrow> Order" where
  "new_Order sid msg entered =
     \<lparr>o_OrderID = i_OrderID msg, o_Side = i_Side msg, o_OrderType = i_OrderType msg,
      o_Price = i_Price msg, o_Quantity = i_Quantity msg, o_Remaining = i_Quantity msg,
      o_EnteredAt = entered, o_SessionID = sid, o_index = -1\<rparr>"

text \<open>The part of \<open>handleOrder\<close> after the checks, from the allocation of the order on.\<close>

definition accept_order ::
    "string \<Rightarrow> IncomingMessage \<Rightarrow> Orderbook \<Rightarrow> Clock \<Rightarrow> OutMessage list \<times> Orderbook \<times> Clock" where
  "accept_order sid msg ob clk =
     (let (entered, clk1) = now clk;
          (a, ob1) = alloc (new_Order sid msg entered) ob;
          ack = Ack \<lparr>a_Type = ''ack'', a_OrderID = i_OrderID msg, a_Timestamp = entered\<rparr>;
          (fills, ob2, clk2) = match_order a ob1 clk1;
          toSend = ack # map Fill fills
      in if o_OrderType (mem ob2 a) = ''market'' \<and> 0 < sint (o_Remaining (mem ob2 a))
         then let (ts, clk3) = now clk2
              in (toSend @ [reject (i_OrderID msg) ''no_liquidity'' ts], ob2, clk3)
         else if 0 < sint (o_Remaining (mem ob2 a)) then (toSend, rest a ob2, clk2)
         else (toSend, ob2, clk2))"

definition handleOrder ::
    "string \<Rightarrow> IncomingMessage \<Rightarrow> Orderbook \<Rightarrow> Clock \<Rightarrow> OutMessage list \<times> Orderbook \<times> Clock" where
  "handleOrder sid msg ob clk =
     (if bad_fields msg
      then let (ts, clk') = now clk in ([reject (i_OrderID msg) ''invalid_order'' ts], ob, clk')
      else if sint (i_Quantity msg) \<le> 0
      then let (ts, clk') = now clk in ([reject (i_OrderID msg) ''invalid_quantity'' ts], ob, clk')
      else if i_OrderType msg = ''limit'' \<and> i_Price msg \<le> 0
      then let (ts, clk') = now clk in ([reject (i_OrderID msg) ''invalid_price'' ts], ob, clk')
      else if orders ob (i_OrderID msg) \<noteq> None
      then let (ts, clk') = now clk in ([reject (i_OrderID msg) ''duplicate_order_id'' ts], ob, clk')
      else accept_order sid msg ob clk)"

definition handleCancel ::
    "string \<Rightarrow> IncomingMessage \<Rightarrow> Orderbook \<Rightarrow> Clock \<Rightarrow> OutMessage list \<times> Orderbook \<times> Clock" where
  "handleCancel sid msg ob clk =
     (case orders ob (i_OrderID msg) of
        None \<Rightarrow> let (ts, clk') = now clk in ([reject (i_OrderID msg) ''unknown_order'' ts], ob, clk')
      | Some a \<Rightarrow>
          if o_SessionID (mem ob a) \<noteq> sid
          then let (ts, clk') = now clk in ([reject (i_OrderID msg) ''unauthorized'' ts], ob, clk')
          else let ob' = remove (i_OrderID msg) ob; (ts, clk') = now clk
               in ([CancelAck \<lparr>c_Type = ''cancel_ack'', c_OrderID = i_OrderID msg, c_Timestamp = ts\<rparr>], ob', clk'))"

text \<open>One turn of the read loop of \<open>streamHandler\<close>.\<close>

definition stream_message ::
    "string \<Rightarrow> IncomingMessage \<Rightarrow> Orderbook \<Rightarrow> Clock \<Rightarrow> OutMessage list \<times> Orderbook \<times> Clock" where
  "stream_message sid msg ob clk =
     (if i_Type msg = ''order'' then handleOrder sid msg ob clk
      else if i_Type msg = ''cancel'' then handleCancel sid msg ob clk
      else let (ts, clk') = now clk in ([reject (i_OrderID msg) ''unknown_type'' ts], ob, clk'))"

section \<open>The orderbook snapshot\<close>

record PriceLevel =
  l_Price :: price
  l_Quantity :: int64

record SnapshotResponse =
  snap_Bids :: "PriceLevel list"
  snap_Asks :: "PriceLevel list"
  snap_Timestamp :: int

text \<open>\<open>m[o.Price] += o.Remaining\<close> over a slice; a missing key reads as zero.\<close>

definition level_map :: "(addr \<Rightarrow> Order) \<Rightarrow> addr list \<Rightarrow> price \<rightharpoonup> int64" where
  "level_map st xs =
     fold (\<lambda>a m. m(o_Price (st a) \<mapsto> (case m (o_Price (st a)) of None \<Rightarrow> 0 | Some q \<Rightarrow> q) + o_Remaining (st a)))
       xs Map.empty"

text \<open>
  The levels of one side, gathered by a map iteration that yields the prices in the order \<open>ps\<close>
  and then sorted, bids from the highest price, asks from the lowest.
\<close>

fun level_key :: "side \<Rightarrow> PriceLevel \<Rightarrow> rat" where
  "level_key Bids l = - l_Price l"
| "level_key Asks l = l_Price l"

definition price_levels :: "side \<Rightarrow> price list \<Rightarrow> Orderbook \<Rightarrow> PriceLevel list" where
  "price_levels sd ps ob =
     (let m = level_map (mem ob) (side_arr sd ob)
      in sort_key (level_key sd) (map (\<lambda>p. \<lparr>l_Price = p, l_Quantity = the (m p)\<rparr>) ps))"

definition orderbookHandler :: "price list \<Rightarrow> price list \<Rightarrow> Orderbook \<Rightarrow> Clock \<Rightarrow> SnapshotResponse \<times> Clock" where
  "orderbookHandler bidOrder askOrder ob clk =
     (let bids' = price_levels Bids bidOrder ob; asks' = price_levels Asks askOrder ob;
          (ts, clk') = now clk
      in (\<lparr>snap_Bids = bids', snap_Asks = asks', snap_Timestamp = ts\<rparr>, clk'))"

definition level_order :: "side \<Rightarrow> Orderbook \<Rightarrow> price list \<Rightarrow> bool" where
  "level_order sd ob ps \<longleftrightarrow> distinct ps \<and> set ps = dom (level_map (mem ob) (side_arr sd ob))"

section \<open>The specification of the book\<close>

text \<open>
  A book is specified by its two queues. \<open>submit\<close> sweeps the opposite queue and, for a limit order
  with units left, inserts it into its own queue by priority; the other two operations filter.
\<close>

type_synonym queues = "side \<Rightarrow> Resting list"

definition submit :: "side \<Rightarrow> bool \<Rightarrow> Resting \<Rightarrow> queues \<Rightarrow> (int \<times> price) list \<times> int \<times> queues" where
  "submit sd limited r Q =
     (case sweep (other sd) limited (r_Price r) (r_Qty r) (Q (other sd)) of
        (ts, rem, opp) \<Rightarrow>
          (ts, rem, Q(other sd := opp,
                      sd := if limited \<and> 0 < rem then insort_key (rprio sd) (r\<lparr>r_Qty := rem\<rparr>) (Q sd) else Q sd)))"

definition book_queues :: "Orderbook \<Rightarrow> queues" where
  "book_queues ob = (\<lambda>sd. queue sd ob)"

text \<open>The clock is ahead of every entry time in the book.\<close>

definition clock_ahead :: "Orderbook \<Rightarrow> Clock \<Rightarrow> bool" where
  "clock_ahead ob clk \<longleftrightarrow> (\<forall>sd. \<forall>a \<in> set (side_arr sd ob). o_EnteredAt (mem ob a) \<le> lastTimestamp clk)"

definition side_of :: "string \<Rightarrow> side" where
  "side_of s = (if s = ''buy'' then Bids else Asks)"

definition valid_order :: "IncomingMessage \<Rightarrow> bool" where
  "valid_order msg \<longleftrightarrow> \<not> bad_fields msg \<and> 0 < sint (i_Quantity msg) \<and>
     (i_OrderType msg = ''limit'' \<longrightarrow> 0 < i_Price msg)"

lemma other_neq [simp]: "other sd \<noteq> sd" "sd \<noteq> other sd" "other (other sd) = sd"
  by (cases sd; simp)+

section \<open>Timestamps\<close>

definition stamps :: "int \<Rightarrow> int list \<Rightarrow> int \<Rightarrow> bool" where
  "stamps lo xs hi \<longleftrightarrow> sorted_wrt (<) (lo # xs) \<and> last (lo # xs) \<le> hi"

lemma stamps_Nil [simp]: "stamps lo [] hi \<longleftrightarrow> lo \<le> hi"
  by (simp add: stamps_def)

lemma stamps_Cons [simp]: "stamps lo (x # xs) hi \<longleftrightarrow> lo < x \<and> stamps x xs hi"
  by (auto simp: stamps_def)

lemma stamps_append: "stamps lo xs mid \<Longrightarrow> stamps mid ys hi \<Longrightarrow> stamps lo (xs @ ys) hi"
proof (induction xs arbitrary: lo)
  case Nil
  then show ?case by (cases ys) auto
qed auto

lemma now_stamps: "now clk = (ts, clk') \<Longrightarrow> lastTimestamp clk < ts \<and> lastTimestamp clk' = ts"
  using now_props by blast

lemma match_turn_stamp:
  "match_turn sd a best ob clk = (f, ob', clk') \<Longrightarrow>
   lastTimestamp clk < f_Timestamp f \<and> lastTimestamp clk' = f_Timestamp f"
  by (auto simp: match_turn_def Let_def split: prod.splits if_splits dest: now_stamps)

lemma match_loop_stamps:
  "match_loop sd a ob clk fills = (fills', ob', clk') \<Longrightarrow>
   \<exists>fs. fills' = fills @ fs \<and> stamps (lastTimestamp clk) (map f_Timestamp fs) (lastTimestamp clk')"
proof (induction sd a ob clk fills arbitrary: fills' ob' clk' rule: match_loop.induct)
  case (1 sd a ob clk fills)
  let ?best = "side_arr sd ob ! 0"
  show ?case
  proof (cases "0 < sint (o_Remaining (mem ob a)) \<and> side_arr sd ob \<noteq> [] \<and>
      \<not> (o_OrderType (mem ob a) = ''limit'' \<and> price_stops sd (o_Price (mem ob a)) (o_Price (mem ob ?best)))")
    case False
    then have "match_loop sd a ob clk fills = (fills, ob, clk)"
      by (subst match_loop.simps) (auto simp: Let_def)
    with "1.prems"(1) show ?thesis by auto
  next
    case True
    obtain f ob1 clk1 where t: "match_turn sd a ?best ob clk = (f, ob1, clk1)" by (metis prod_cases3)
    have l: "match_loop sd a ob1 clk1 (fills @ [f]) = (fills', ob', clk')"
      using "1.prems"(1) True t by (subst (asm) match_loop.simps) (auto simp: Let_def)
    have "\<exists>fs. fills' = (fills @ [f]) @ fs \<and> stamps (lastTimestamp clk1) (map f_Timestamp fs) (lastTimestamp clk')"
      using True by (intro "1.IH" [OF _ refl _ t [symmetric] refl l]) auto
    then show ?thesis using match_turn_stamp [OF t] by auto
  qed
qed

lemma match_order_stamps:
  "match_order a ob clk = (fs, ob', clk') \<Longrightarrow> stamps (lastTimestamp clk) (map f_Timestamp fs) (lastTimestamp clk')"
  unfolding match_order_def using match_loop_stamps by (force split: if_splits)

text \<open>The run of an accepted order, taken apart.\<close>

definition accept_end :: "IncomingMessage \<Rightarrow> int \<Rightarrow> FillMessage list \<Rightarrow> addr \<Rightarrow> Orderbook \<Rightarrow> Clock \<Rightarrow>
    OutMessage list \<Rightarrow> Orderbook \<Rightarrow> Clock \<Rightarrow> bool" where
  "accept_end msg entered fs a ob2 clk2 out ob' clk' \<longleftrightarrow>
    (if o_OrderType (mem ob2 a) = ''market'' \<and> 0 < sint (o_Remaining (mem ob2 a))
     then ob' = ob2 \<and> clk' = snd (now clk2) \<and>
       out = Ack \<lparr>a_Type = ''ack'', a_OrderID = i_OrderID msg, a_Timestamp = entered\<rparr> # map Fill fs @
         [reject (i_OrderID msg) ''no_liquidity'' (fst (now clk2))]
     else clk' = clk2 \<and> ob' = (if 0 < sint (o_Remaining (mem ob2 a)) then rest a ob2 else ob2) \<and>
       out = Ack \<lparr>a_Type = ''ack'', a_OrderID = i_OrderID msg, a_Timestamp = entered\<rparr> # map Fill fs)"

lemma accept_orderE:
  assumes "accept_order sid msg ob clk = (out, ob', clk')"
  obtains entered clk1 a ob1 fs ob2 clk2 where
    "now clk = (entered, clk1)" "alloc (new_Order sid msg entered) ob = (a, ob1)"
    "match_order a ob1 clk1 = (fs, ob2, clk2)"
    "accept_end msg entered fs a ob2 clk2 out ob' clk'"
proof -
  obtain entered clk1 where 1: "now clk = (entered, clk1)" by fastforce
  obtain a ob1 where 2: "alloc (new_Order sid msg entered) ob = (a, ob1)" by fastforce
  obtain fs ob2 clk2 where 3: "match_order a ob1 clk1 = (fs, ob2, clk2)" by (metis prod_cases3)
  show ?thesis
    by (rule that [OF 1 2 3]) (use assms 1 2 3 in \<open>auto simp: accept_order_def accept_end_def Let_def split: if_splits prod.splits\<close>)
qed

lemma accept_order_stamps:
  assumes "accept_order sid msg ob clk = (out, ob', clk')"
  shows "stamps (lastTimestamp clk) (map out_Timestamp out) (lastTimestamp clk')"
proof (rule accept_orderE [OF assms])
  fix entered clk1 a ob1 fs ob2 clk2
  assume n: "now clk = (entered, clk1)" and m: "match_order a ob1 clk1 = (fs, ob2, clk2)"
    and c: "accept_end msg entered fs a ob2 clk2 out ob' clk'"
  have f: "map out_Timestamp (map Fill fs) = map f_Timestamp fs" by simp
  have "stamps (lastTimestamp clk1) (map f_Timestamp fs @ [fst (now clk2)]) (fst (now clk2))"
    by (rule stamps_append [OF match_order_stamps [OF m]]) (simp add: fst_now_gt)
  then show ?thesis
    using c now_stamps [OF n] match_order_stamps [OF m] f by (auto simp: accept_end_def reject_def o_def split: if_splits)
qed

lemma stream_message_stamps:
  "stream_message sid msg ob clk = (out, ob', clk') \<Longrightarrow>
   stamps (lastTimestamp clk) (map out_Timestamp out) (lastTimestamp clk')"
  by (auto simp: stream_message_def handleOrder_def handleCancel_def reject_def Let_def
      split: if_splits prod.splits option.splits dest: now_stamps accept_order_stamps)

section \<open>Submitting an order\<close>

lemma alloc_effect:
  assumes ok: "book_ok ob" and al: "alloc ord ob = (a, ob1)" and new: "orders ob (o_OrderID ord) = None"
  shows "book_ok ob1" "free_order a ob1" "mem ob1 a = ord" "a < next_addr ob1"
    and "queue sd ob1 = queue sd ob" "side_arr sd ob1 = side_arr sd ob" "orders ob1 = orders ob"
    and "x \<in> set (side_arr sd ob) \<Longrightarrow> mem ob1 x = mem ob x"
proof -
  have a: "a = next_addr ob" and ob1: "ob1 = (ob\<lparr>mem := (mem ob)(next_addr ob := ord)\<rparr>)\<lparr>next_addr := Suc (next_addr ob)\<rparr>"
    using al by (auto simp: alloc_def)
  have old: "x \<noteq> next_addr ob" if "x \<in> set (side_arr sd ob)" for sd x
    using book_okD(3) [OF ok that] by simp
  show m: "mem ob1 x = mem ob x" if "x \<in> set (side_arr sd ob)" for sd x
    using old [OF that] by (simp add: ob1)
  show arr: "side_arr sd ob1 = side_arr sd ob" for sd by (simp add: ob1)
  show "mem ob1 a = ord" "a < next_addr ob1" "orders ob1 = orders ob" by (simp_all add: a ob1)
  have "book_ok (ob\<lparr>mem := (mem ob)(next_addr ob := ord)\<rparr>)"
  proof (rule book_ok_update [OF ok])
    fix sd x assume x: "x \<in> set (side_arr sd ob)"
    then show "\<exists>q. ((mem ob)(next_addr ob := ord)) x = (mem ob x)\<lparr>o_Remaining := q\<rparr> \<and>
        0 < sint q \<and> sint q \<le> sint (o_Remaining (mem ob x))"
      using old [OF x] book_okD(4) [OF ok x]
      by (intro exI [of _ "o_Remaining (mem ob x)"]) (simp add: order_ok_def)
  qed
  then show ok1: "book_ok ob1"
    unfolding book_ok_def ob1 by (auto simp del: fun_upd_apply intro: less_SucI)
  show "queue sd ob1 = queue sd ob"
    by (rule queue_same [OF ok ok1]) (simp_all add: arr m)
  show "free_order a ob1"
    using old new by (auto simp: free_order_def a ob1)
qed

lemma frame_order: "frame sd a ob ob' \<Longrightarrow> \<exists>r. no_index (mem ob' x) = (no_index (mem ob x))\<lparr>o_Remaining := r\<rparr>"
  unfolding frame_def by blast

lemma view_update: "no_index x = (no_index y)\<lparr>o_Remaining := r\<rparr> \<Longrightarrow>
    view x = (view y)\<lparr>r_Qty := sint r\<rparr> \<and> o_Remaining x = r \<and> o_OrderID x = o_OrderID y \<and>
    o_Side x = o_Side y \<and> o_OrderType x = o_OrderType y \<and> o_Price x = o_Price y \<and>
    o_Quantity x = o_Quantity y \<and> o_EnteredAt x = o_EnteredAt y \<and> o_SessionID x = o_SessionID y"
  using no_index_eqD [of x "y\<lparr>o_Remaining := r\<rparr>"] by (simp add: no_index_def view_def)

lemma queue_positive: "book_ok ob \<Longrightarrow> \<forall>r \<in> set (queue sd ob). 0 < r_Qty r"
  using book_okD(4) [of ob] by (auto simp: set_queue order_ok_def)

text \<open>What matching leaves, for an order of side \<open>sd\<close> that does not rest yet.\<close>

lemma match_order_post:
  assumes m: "match_order a ob clk = (fs, ob', clk')" and ok: "book_ok ob" and free: "free_order a ob"
    and side: "o_Side (mem ob a) = side_name sd"
  shows "loop_post (other sd) a ob clk fs ob' clk'"
  using m match_loop_refines [OF _ ok free, of "other sd" clk "[]"] side
  by (cases sd) (auto simp: match_order_def)

lemma match_order_may_rest:
  assumes m: "match_order a ob clk = (fs, ob', clk')" and ok: "book_ok ob" and free: "free_order a ob"
    and side: "o_Side (mem ob a) = side_name sd" and limit: "o_OrderType (mem ob a) = ''limit''"
    and price: "0 < o_Price (mem ob a)" and a: "a < next_addr ob"
    and qty: "0 < sint (o_Remaining (mem ob a))" "o_Remaining (mem ob a) = o_Quantity (mem ob a)"
    and fresh: "\<And>x. x \<in> set (side_arr sd ob) \<Longrightarrow> o_EnteredAt (mem ob x) \<noteq> o_EnteredAt (mem ob a)"
    and left: "0 < sint (o_Remaining (mem ob' a))"
  shows "may_rest sd a ob'"
proof -
  have post: "loop_post (other sd) a ob clk fs ob' clk'" by (rule match_order_post [OF m ok free side])
  then have ok': "book_ok ob'" and free': "free_order a ob'" and fr: "frame (other sd) a ob ob'"
    by (auto simp: loop_post_def)
  obtain r where "no_index (mem ob' a) = (no_index (mem ob a))\<lparr>o_Remaining := r\<rparr>" using frame_order [OF fr] by blast
  note v = view_update [OF this]
  from post obtain ts where sw: "sweep (other sd) True (o_Price (mem ob a)) (sint (o_Remaining (mem ob a)))
      (queue (other sd) ob) = (ts, sint (o_Remaining (mem ob' a)), queue (other sd) ob')"
    using limit by (auto simp: loop_post_def)
  have "sint (o_Remaining (mem ob' a)) \<le> sint (o_Remaining (mem ob a))"
  proof -
    have "\<forall>t\<in>set ts. 0 < fst t" using sweep_positive [OF sw] qty(1) queue_positive [OF ok, of "other sd"] by simp
    then have "0 \<le> traded ts" unfolding traded_def by (intro sum_list_nonneg) auto
    then show ?thesis using sweep_conserves [OF sw] by linarith
  qed
  then have "order_ok sd (mem ob' a)" using v side limit price left qty(2) by (simp add: order_ok_def)
  moreover have "price_stops (other sd) (o_Price (mem ob' a)) (o_Price (mem ob' x))"
    if x: "x \<in> set (side_arr (other sd) ob')" for x
  proof -
    have q: "view (mem ob' x) \<in> set (queue (other sd) ob')" using x by (simp add: set_queue)
    then obtain r rs where rs: "queue (other sd) ob' = r # rs" by (cases "queue (other sd) ob'") auto
    then have "price_stops (other sd) (o_Price (mem ob a)) (r_Price r)" using sweep_exhausts [OF sw left] by simp
    then have "price_stops (other sd) (o_Price (mem ob a)) (r_Price (view (mem ob' x)))"
      using stops_tail [of "other sd" r rs] sorted_queue [of "other sd" ob'] q rs by (metis set_ConsD)
    then show ?thesis using v by simp
  qed
  moreover have "o_EnteredAt (mem ob' x) \<noteq> o_EnteredAt (mem ob' a)" if x: "x \<in> set (side_arr sd ob')" for x
  proof -
    have arr: "x \<in> set (side_arr sd ob)" using x fr by (simp add: frame_def)
    obtain q where "no_index (mem ob' x) = (no_index (mem ob x))\<lparr>o_Remaining := q\<rparr>" using frame_order [OF fr] by blast
    with view_update [OF this] v fresh [OF arr] show ?thesis by simp
  qed
  moreover have "next_addr ob' = next_addr ob" using fr by (simp add: frame_def)
  ultimately show ?thesis using free' a by (simp add: may_rest_def free_order_def)
qed

lemma clock_ahead_frame:
  assumes "clock_ahead ob clk" and fr: "frame sd a ob ob'" and "lastTimestamp clk \<le> lastTimestamp clk'"
  shows "clock_ahead ob' clk'"
  unfolding clock_ahead_def
proof (intro allI ballI)
  fix sd' x assume x: "x \<in> set (side_arr sd' ob')"
  then have "x \<in> set (side_arr sd' ob)" using fr by (cases "sd' = sd") (auto simp: frame_def)
  moreover obtain q where "no_index (mem ob' x) = (no_index (mem ob x))\<lparr>o_Remaining := q\<rparr>"
    using frame_order [OF fr] by blast
  ultimately show "o_EnteredAt (mem ob' x) \<le> lastTimestamp clk'"
    using assms(1,3) view_update [of "mem ob' x" q "mem ob x"] by (fastforce simp: clock_ahead_def)
qed

text \<open>
  The contract of an accepted order: the book stays well formed, its queues are those of
  \<open>submit\<close>, and the messages are the ack, one fill per trade, and the final rejection of a market
  order the book could not fill.
\<close>

definition order_reply :: "string \<Rightarrow> int \<Rightarrow> (int \<times> price) list \<Rightarrow> bool \<Rightarrow> OutMessage list \<Rightarrow> bool" where
  "order_reply orderID qty ts unfilled out \<longleftrightarrow>
     (\<exists>t0 fs rej. out = Ack \<lparr>a_Type = ''ack'', a_OrderID = orderID, a_Timestamp = t0\<rparr> # map Fill fs @ rej \<and>
        fills_are orderID qty fs ts \<and>
        (if unfilled then \<exists>t1. rej = [reject orderID ''no_liquidity'' t1] else rej = []))"

definition resting_of :: "string \<Rightarrow> IncomingMessage \<Rightarrow> int \<Rightarrow> Resting" where
  "resting_of sid msg entered = \<lparr>r_OrderID = i_OrderID msg, r_Price = i_Price msg,
     r_Qty = sint (i_Quantity msg), r_EnteredAt = entered, r_SessionID = sid\<rparr>"

lemma frame_queue_other:
  assumes "book_ok ob" "book_ok ob'" and fr: "frame (other sd) a ob ob'" and free: "free_order a ob"
  shows "queue sd ob' = queue sd ob"
proof (rule queue_same [OF assms(1,2)])
  show "mset (side_arr sd ob') = mset (side_arr sd ob)" using fr by (simp add: frame_def)
  fix x assume x: "x \<in> set (side_arr sd ob)"
  have "x \<noteq> a" using x free by (auto simp: free_order_def)
  moreover have "x \<notin> set (side_arr (other sd) ob)" using side_disjoint [OF assms(1) x, of "other sd"] by auto
  ultimately show "no_index (mem ob' x) = no_index (mem ob x)" using fr by (simp add: frame_def)
qed

lemma clock_ahead_rest:
  assumes "clock_ahead ob clk" "book_ok ob" and may: "may_rest sd a ob" and "o_EnteredAt (mem ob a) \<le> lastTimestamp clk"
  shows "clock_ahead (rest a ob) clk"
  unfolding clock_ahead_def
proof (intro allI ballI)
  fix sd' x assume x: "x \<in> set (side_arr sd' (rest a ob))"
  note e = rest_effect [OF assms(2) may]
  have "x = a \<or> x \<in> set (side_arr sd' ob)"
    using x arg_cong [OF e(1), of set_mset] e(2) [of sd'] by (cases "sd' = sd") auto
  then show "o_EnteredAt (mem (rest a ob) x) \<le> lastTimestamp clk"
    using assms(1,4) no_index_eqD(7) [OF e(3)] by (auto simp: clock_ahead_def)
qed

lemma valid_side:
  assumes "valid_order msg"
  shows "i_Side msg = side_name (side_of (i_Side msg))" and "i_OrderType msg = ''limit'' \<or> i_OrderType msg = ''market''"
  using assms by (auto simp: valid_order_def bad_fields_def side_of_def)

text \<open>The state in which matching leaves the book of an accepted order.\<close>

lemma accept_matched:
  assumes n: "now clk = (entered, clk1)" and al: "alloc (new_Order sid msg entered) ob = (a, ob1)"
    and m: "match_order a ob1 clk1 = (fs, ob2, clk2)" and v: "valid_order msg"
    and ok: "book_ok ob" and ahead: "clock_ahead ob clk" and new: "orders ob (i_OrderID msg) = None"
    and sd: "sd = side_of (i_Side msg)" and rem: "rem = sint (o_Remaining (mem ob2 a))"
  shows "book_ok ob2" "clock_ahead ob2 clk2" "queue sd ob2 = queue sd ob"
    and "view (mem ob2 a) = (resting_of sid msg entered)\<lparr>r_Qty := rem\<rparr>" "o_OrderType (mem ob2 a) = i_OrderType msg"
    and "o_EnteredAt (mem ob2 a) \<le> lastTimestamp clk2"
    and "i_OrderType msg = ''limit'' \<Longrightarrow> 0 < rem \<Longrightarrow> may_rest sd a ob2"
    and "\<exists>ts. sweep (other sd) (i_OrderType msg = ''limit'') (i_Price msg) (sint (i_Quantity msg)) (queue (other sd) ob) =
        (ts, rem, queue (other sd) ob2) \<and> fills_are (i_OrderID msg) (sint (i_Quantity msg)) fs ts"
proof -
  have nw: "orders ob (o_OrderID (new_Order sid msg entered)) = None" using new by (simp add: new_Order_def)
  note A = alloc_effect [OF ok al nw]
  have o: "mem ob1 a = new_Order sid msg entered" by (rule A(3))
  have side: "o_Side (mem ob1 a) = side_name sd" using valid_side(1) [OF v] by (simp add: o new_Order_def sd)
  have post: "loop_post (other sd) a ob1 clk1 fs ob2 clk2" by (rule match_order_post [OF m A(1,2) side])
  then show ok2: "book_ok ob2" by (auto simp: loop_post_def)
  have fr: "frame (other sd) a ob1 ob2" and t: "lastTimestamp clk1 \<le> lastTimestamp clk2"
    using post by (auto simp: loop_post_def)
  obtain r2 where "no_index (mem ob2 a) = (no_index (mem ob1 a))\<lparr>o_Remaining := r2\<rparr>" using frame_order [OF fr] by blast
  note V = view_update [OF this, unfolded o]
  have lst: "lastTimestamp clk1 = entered" "lastTimestamp clk < entered" using now_stamps [OF n] by simp_all
  have ahead1: "clock_ahead ob1 clk1" using ahead lst A(6,8) by (fastforce simp: clock_ahead_def)
  show "clock_ahead ob2 clk2" by (rule clock_ahead_frame [OF ahead1 fr t])
  show "\<exists>ts. sweep (other sd) (i_OrderType msg = ''limit'') (i_Price msg) (sint (i_Quantity msg)) (queue (other sd) ob) =
        (ts, rem, queue (other sd) ob2) \<and> fills_are (i_OrderID msg) (sint (i_Quantity msg)) fs ts"
    using post A(5) by (auto simp: loop_post_def o new_Order_def rem)
  show "queue sd ob2 = queue sd ob" using frame_queue_other [OF A(1) ok2 fr A(2)] A(5) by simp
  show "view (mem ob2 a) = (resting_of sid msg entered)\<lparr>r_Qty := rem\<rparr>" "o_OrderType (mem ob2 a) = i_OrderType msg"
    "o_EnteredAt (mem ob2 a) \<le> lastTimestamp clk2"
    using V n t lst by (simp_all add: view_def new_Order_def resting_of_def rem)
  show "may_rest sd a ob2" if "i_OrderType msg = ''limit''" "0 < rem"
  proof (rule match_order_may_rest [OF m A(1,2) side])
    fix x assume "x \<in> set (side_arr sd ob1)"
    then show "o_EnteredAt (mem ob1 x) \<noteq> o_EnteredAt (mem ob1 a)"
      using A(6,8) ahead lst by (fastforce simp: clock_ahead_def o new_Order_def)
  qed (use that v A(4) in \<open>auto simp: o new_Order_def valid_order_def rem\<close>)
qed

lemma book_queues_sides:
  "book_queues ob' = (book_queues ob)(other sd := queue (other sd) ob', sd := queue sd ob')"
  by (rule ext, rename_tac x, case_tac x; cases sd) (simp_all add: book_queues_def)

theorem accept_order_refines:
  assumes acc: "accept_order sid msg ob clk = (out, ob', clk')" and v: "valid_order msg"
    and ok: "book_ok ob" and ahead: "clock_ahead ob clk" and new: "orders ob (i_OrderID msg) = None"
  shows "book_ok ob' \<and> clock_ahead ob' clk' \<and>
    (\<exists>ts rem. submit (side_of (i_Side msg)) (i_OrderType msg = ''limit'')
        (resting_of sid msg (fst (now clk))) (book_queues ob) = (ts, rem, book_queues ob') \<and>
      order_reply (i_OrderID msg) (sint (i_Quantity msg)) ts (i_OrderType msg = ''market'' \<and> 0 < rem) out)"
proof (rule accept_orderE [OF acc])
  let ?sd = "side_of (i_Side msg)" and ?limit = "i_OrderType msg = ''limit''"
  fix entered clk1 a ob1 fs ob2 clk2
  assume n: "now clk = (entered, clk1)" and al: "alloc (new_Order sid msg entered) ob = (a, ob1)"
    and m: "match_order a ob1 clk1 = (fs, ob2, clk2)"
    and c: "accept_end msg entered fs a ob2 clk2 out ob' clk'"
  let ?rem = "sint (o_Remaining (mem ob2 a))"
  note c = c [unfolded accept_end_def]
  note M = accept_matched [OF n al m v ok ahead new refl refl]
  from M(8) obtain ts where
    sw: "sweep (other ?sd) ?limit (i_Price msg) (sint (i_Quantity msg)) (queue (other ?sd) ob) = (ts, ?rem, queue (other ?sd) ob2)"
    and fills: "fills_are (i_OrderID msg) (sint (i_Quantity msg)) fs ts" by blast
  have sub: "submit ?sd ?limit (resting_of sid msg (fst (now clk))) (book_queues ob) =
    (ts, ?rem, (book_queues ob)(other ?sd := queue (other ?sd) ob2, ?sd := if ?limit \<and> 0 < ?rem
       then insort_key (rprio ?sd) (view (mem ob2 a)) (queue ?sd ob) else queue ?sd ob))"
    using sw n M(4) by (simp add: submit_def book_queues_def resting_of_def)
  show ?thesis
  proof (cases "?limit \<and> 0 < ?rem")
    case True
    note may = M(7) [OF conjunct1 [OF True] conjunct2 [OF True]]
    have ob': "ob' = rest a ob2" "clk' = clk2"
      and out: "out = Ack \<lparr>a_Type = ''ack'', a_OrderID = i_OrderID msg, a_Timestamp = entered\<rparr> # map Fill fs"
      using c True M(5) by auto
    have "book_queues ob' = (book_queues ob)(other ?sd := queue (other ?sd) ob2,
        ?sd := insort_key (rprio ?sd) (view (mem ob2 a)) (queue ?sd ob))"
      using book_queues_sides [of ob' ob ?sd] rest_queue [OF M(1) may] M(3) by (simp add: ob')
    moreover have "order_reply (i_OrderID msg) (sint (i_Quantity msg)) ts False out"
      using fills out by (auto simp: order_reply_def)
    ultimately show ?thesis using sub True rest_ok [OF M(1) may] clock_ahead_rest [OF M(2,1) may M(6)] ob' by auto
  next
    case False
    then have ob': "ob' = ob2" "lastTimestamp clk2 \<le> lastTimestamp clk'"
      using c M(5) valid_side(2) [OF v] fst_now_gt [of clk2] by (auto split: if_splits)
    have "clock_ahead ob' clk'" using M(2) ob' by (fastforce simp: clock_ahead_def)
    moreover have "submit ?sd ?limit (resting_of sid msg (fst (now clk))) (book_queues ob) = (ts, ?rem, book_queues ob')"
      using sub False book_queues_sides [of ob' ob ?sd] M(3) ob'(1) by simp
    moreover have "order_reply (i_OrderID msg) (sint (i_Quantity msg)) ts (i_OrderType msg = ''market'' \<and> 0 < ?rem) out"
      using fills c M(5) by (auto simp: order_reply_def split: if_splits)
    ultimately show ?thesis using M(1) ob'(1) by blast
  qed
qed

section \<open>Cancelling\<close>

lemma find_queue:
  assumes ok: "book_ok ob"
  shows "find (\<lambda>r. r_OrderID r = i) (queue Bids ob @ queue Asks ob) = map_option (\<lambda>a. view (mem ob a)) (orders ob i)"
proof (cases "orders ob i")
  case None
  have "r_OrderID r \<noteq> i" if r: "r \<in> set (queue Bids ob @ queue Asks ob)" for r
  proof -
    from r obtain sd where "r \<in> set (queue sd ob)" by auto
    then obtain x where "x \<in> set (side_arr sd ob)" "r = view (mem ob x)" by (auto simp: set_queue)
    then show ?thesis using book_okD(5) [OF ok, of x sd] None by auto
  qed
  then show ?thesis using None by (auto simp: find_None_iff)
next
  case (Some a)
  then obtain sd where a: "o_OrderID (mem ob a) = i" "a \<in> set (side_arr sd ob)" using book_okD(6) [OF ok Some] by blast
  have q: "\<exists>r \<in> set (queue Bids ob @ queue Asks ob). r_OrderID r = i"
    using a by (cases sd) (auto simp: set_queue intro: bexI [of _ "view (mem ob a)"])
  then obtain r where f: "find (\<lambda>r. r_OrderID r = i) (queue Bids ob @ queue Asks ob) = Some r"
    by (cases "find (\<lambda>r. r_OrderID r = i) (queue Bids ob @ queue Asks ob)") (auto simp: find_None_iff)
  then have r: "r \<in> set (queue Bids ob @ queue Asks ob)" "r_OrderID r = i" by (auto dest: find_SomeD)
  then obtain sd' where "r \<in> set (queue sd' ob)" by auto
  then obtain x where x: "x \<in> set (side_arr sd' ob)" "r = view (mem ob x)" by (auto simp: set_queue)
  then have "x = a" using book_okD(5) [OF ok x(1)] r(2) Some by simp
  with f x Some show ?thesis by simp
qed

text \<open>The contract of a cancel, on the queues alone.\<close>

definition cancel_spec :: "string \<Rightarrow> string \<Rightarrow> queues \<Rightarrow> string + queues" where
  "cancel_spec sid i Q =
     (case find (\<lambda>r. r_OrderID r = i) (Q Bids @ Q Asks) of
        None \<Rightarrow> Inl ''unknown_order''
      | Some r \<Rightarrow> if r_SessionID r \<noteq> sid then Inl ''unauthorized''
                  else Inr (\<lambda>sd. filter (\<lambda>r. r_OrderID r \<noteq> i) (Q sd)))"

lemma remove_frame:
  assumes ok: "book_ok ob"
  shows "set (side_arr sd (remove i ob)) \<subseteq> set (side_arr sd ob)" "no_index (mem (remove i ob) x) = no_index (mem ob x)"
    and "next_addr (remove i ob) = next_addr ob" "orders (remove i ob) = (orders ob)(i := None)"
proof -
  have "set (side_arr sd (remove i ob)) \<subseteq> set (side_arr sd ob) \<and> no_index (mem (remove i ob) x) = no_index (mem ob x) \<and>
    next_addr (remove i ob) = next_addr ob \<and> orders (remove i ob) = (orders ob)(i := None)"
  proof (cases "orders ob i")
    case None
    then have "(orders ob)(i := None) = orders ob" by auto
    with None show ?thesis by (simp add: remove_unknown)
  next
    case (Some a)
    then obtain sd' where a: "a \<in> set (side_arr sd' ob)" using book_okD(6) [OF ok Some] by blast
    note e = remove_effect [OF ok Some a]
    have "set (side_arr sd (remove i ob)) \<subseteq> set (side_arr sd ob)"
      using e(2) e(3) [of sd] by (cases "sd = sd'") (auto dest!: in_diffD simp flip: set_mset_mset)
    with e(4-6) show ?thesis by blast
  qed
  then show "set (side_arr sd (remove i ob)) \<subseteq> set (side_arr sd ob)" "no_index (mem (remove i ob) x) = no_index (mem ob x)"
    "next_addr (remove i ob) = next_addr ob" "orders (remove i ob) = (orders ob)(i := None)" by blast+
qed

lemma clock_ahead_remove:
  assumes "book_ok ob" "clock_ahead ob clk" "lastTimestamp clk \<le> lastTimestamp clk'"
  shows "clock_ahead (remove i ob) clk'"
  using assms(2,3) remove_frame(1) [OF assms(1)] no_index_eqD(7) [OF remove_frame(2) [OF assms(1)]]
  unfolding clock_ahead_def by fastforce

lemma handleCancel_refines:
  assumes h: "handleCancel sid msg ob clk = (out, ob', clk')" and ok: "book_ok ob" and ahead: "clock_ahead ob clk"
  shows "book_ok ob' \<and> clock_ahead ob' clk' \<and> lastTimestamp clk < lastTimestamp clk' \<and>
    (case cancel_spec sid (i_OrderID msg) (book_queues ob) of
       Inl reason \<Rightarrow> ob' = ob \<and> out = [reject (i_OrderID msg) reason (lastTimestamp clk')]
     | Inr Q \<Rightarrow> book_queues ob' = Q \<and>
         out = [CancelAck \<lparr>c_Type = ''cancel_ack'', c_OrderID = i_OrderID msg, c_Timestamp = lastTimestamp clk'\<rparr>])"
proof -
  obtain ts clk1 where n: "now clk = (ts, clk1)" by fastforce
  have c: "lastTimestamp clk < ts" "lastTimestamp clk1 = ts" "clk' = clk1"
    using now_stamps [OF n] h n by (auto simp: handleCancel_def Let_def split: option.splits if_splits)
  have same: "clock_ahead ob clk'" using ahead c by (fastforce simp: clock_ahead_def)
  have rm: "clock_ahead (remove i ob) clk'" for i using clock_ahead_remove [OF ok ahead] c by simp
  show ?thesis
    using h n c ok same rm remove_ok [OF ok] remove_queue [OF ok]
    by (auto simp: handleCancel_def cancel_spec_def book_queues_def find_queue [OF ok] Let_def
        split: option.splits if_splits)
qed

section \<open>Closing a session\<close>

abbreviation remove_all :: "addr list \<Rightarrow> Orderbook \<Rightarrow> Orderbook" where
  "remove_all \<equiv> fold (\<lambda>a ob'. remove (o_OrderID (mem ob' a)) ob')"

lemma remove_all_effect:
  "book_ok ob \<Longrightarrow> book_ok (remove_all as ob) \<and>
   queue sd (remove_all as ob) = filter (\<lambda>r. r_OrderID r \<notin> (\<lambda>a. o_OrderID (mem ob a)) ` set as) (queue sd ob)"
proof (induction as arbitrary: ob)
  case (Cons a as)
  let ?ob = "remove (o_OrderID (mem ob a)) ob"
  have f: "o_OrderID (mem ?ob x) = o_OrderID (mem ob x)" for x
    by (rule no_index_eqD(1) [OF remove_frame(2) [OF Cons.prems]])
  from Cons.IH [OF remove_ok [OF Cons.prems]]
  show ?case by (simp add: f remove_queue [OF Cons.prems])
qed simp

lemma clock_ahead_remove_all:
  "book_ok ob \<Longrightarrow> clock_ahead ob clk \<Longrightarrow> clock_ahead (remove_all as ob) clk"
  by (induction as arbitrary: ob) (simp_all add: remove_ok clock_ahead_remove)

lemma resting_in_map_order:
  assumes ok: "book_ok ob" and mo: "map_order (orders ob) order" and x: "x \<in> set (side_arr sd ob)"
  shows "o_OrderID (mem ob x) \<in> (\<lambda>a. o_OrderID (mem ob a)) ` {a \<in> set order. o_SessionID (mem ob a) = sid} \<longleftrightarrow>
    o_SessionID (mem ob x) = sid"
proof
  assume "o_SessionID (mem ob x) = sid"
  moreover have "x \<in> set order" using book_okD(5) [OF ok x] mo by (auto simp: map_order_def ran_def)
  ultimately show "o_OrderID (mem ob x) \<in> (\<lambda>a. o_OrderID (mem ob a)) ` {a \<in> set order. o_SessionID (mem ob a) = sid}"
    by blast
next
  assume "o_OrderID (mem ob x) \<in> (\<lambda>a. o_OrderID (mem ob a)) ` {a \<in> set order. o_SessionID (mem ob a) = sid}"
  then obtain y where y: "o_OrderID (mem ob x) = o_OrderID (mem ob y)" "y \<in> set order" "o_SessionID (mem ob y) = sid"
    by blast
  then obtain i where "orders ob i = Some y" using mo by (auto simp: map_order_def ran_def)
  then have "orders ob (o_OrderID (mem ob y)) = Some y" using book_okD(6) [OF ok] by metis
  then have "x = y" using book_okD(5) [OF ok x] y(1) by simp
  with y(3) show "o_SessionID (mem ob x) = sid" by simp
qed

lemma cancelSession_refines:
  assumes ok: "book_ok ob" and mo: "map_order (orders ob) order"
  shows "book_ok (cancelSession order sid ob)"
    and "queue sd (cancelSession order sid ob) = filter (\<lambda>r. r_SessionID r \<noteq> sid) (queue sd ob)"
    and "clock_ahead ob clk \<Longrightarrow> clock_ahead (cancelSession order sid ob) clk"
proof -
  let ?as = "filter (\<lambda>a. o_SessionID (mem ob a) = sid) order"
  have "filter (\<lambda>r. r_OrderID r \<notin> (\<lambda>a. o_OrderID (mem ob a)) ` set ?as) (queue sd ob) =
      filter (\<lambda>r. r_SessionID r \<noteq> sid) (queue sd ob)"
  proof (rule filter_cong [OF refl])
    fix r assume "r \<in> set (queue sd ob)"
    then obtain x where "x \<in> set (side_arr sd ob)" "r = view (mem ob x)" by (auto simp: set_queue)
    then show "(r_OrderID r \<notin> (\<lambda>a. o_OrderID (mem ob a)) ` set ?as) = (r_SessionID r \<noteq> sid)"
      using resting_in_map_order [OF ok mo, of x sd sid] by simp
  qed
  then show "book_ok (cancelSession order sid ob)"
    "queue sd (cancelSession order sid ob) = filter (\<lambda>r. r_SessionID r \<noteq> sid) (queue sd ob)"
    using remove_all_effect [OF ok, of ?as sd] by (simp_all add: cancelSession_def Let_def)
  show "clock_ahead (cancelSession order sid ob) clk" if "clock_ahead ob clk"
    using clock_ahead_remove_all [OF ok that] by (simp add: cancelSession_def Let_def)
qed

section \<open>The snapshot\<close>

lemma level_map_eq:
  "level_map st xs p = (if p \<in> (\<lambda>a. o_Price (st a)) ` set xs
     then Some (\<Sum>a\<leftarrow>filter (\<lambda>a. o_Price (st a) = p) xs. o_Remaining (st a)) else None)"
proof (induction xs rule: rev_induct)
  case Nil
  show ?case by (simp add: level_map_def)
next
  case (snoc x xs)
  have "level_map st (xs @ [x]) = (level_map st xs)(o_Price (st x) \<mapsto>
      (case level_map st xs (o_Price (st x)) of None \<Rightarrow> 0 | Some q \<Rightarrow> q) + o_Remaining (st x))"
    by (simp add: level_map_def)
  moreover have "filter (\<lambda>a. o_Price (st a) = p) xs = []" if "p \<notin> (\<lambda>a. o_Price (st a)) ` set xs"
    using that by (auto simp: filter_empty_conv)
  ultimately show ?case using snoc by (auto split: if_splits)
qed

lemma dom_level_map: "dom (level_map st xs) = (\<lambda>a. o_Price (st a)) ` set xs"
  by (auto simp: level_map_eq dom_def)

text \<open>The level a snapshot has to show at a price: the units resting there.\<close>

definition depth_at :: "price \<Rightarrow> Resting list \<Rightarrow> int" where
  "depth_at p rs = depth (filter (\<lambda>r. r_Price r = p) rs)"

lemma sint64_sum_list:
  fixes xs :: "int64 list"
  assumes "\<forall>x\<in>set xs. 0 \<le> sint x" and "(\<Sum>x\<leftarrow>xs. sint x) < 2 ^ 63"
  shows "sint (sum_list xs) = (\<Sum>x\<leftarrow>xs. sint x)"
  using assms
proof (induction xs)
  case (Cons x xs)
  have "0 \<le> (\<Sum>x\<leftarrow>xs. sint x)" using Cons.prems(1) by (intro sum_list_nonneg) auto
  with Cons show ?case using sint64_bounds [of x] by (simp add: sint64_add)
qed simp

lemma depth_at_arr: "depth_at p (queue sd ob) = (\<Sum>a\<leftarrow>filter (\<lambda>a. o_Price (mem ob a) = p) (side_arr sd ob). sint (o_Remaining (mem ob a)))"
proof -
  let ?f = "\<lambda>a. sint (o_Remaining (mem ob a))" and ?P = "\<lambda>a. o_Price (mem ob a) = p"
  have "mset (map ?f (filter ?P (line sd ob))) = mset (map ?f (filter ?P (side_arr sd ob)))"
    by simp
  then have "sum_list (map ?f (filter ?P (line sd ob))) = sum_list (map ?f (filter ?P (side_arr sd ob)))"
    by (metis sum_mset_sum_list)
  then show ?thesis by (simp add: depth_at_def depth_def queue_def filter_map o_def)
qed

lemma depth_at_le: "\<forall>r\<in>set rs. 0 < r_Qty r \<Longrightarrow> depth_at p rs \<le> depth rs"
  by (induction rs) (auto simp: depth_at_def)

lemma price_levels_correct:
  assumes ok: "book_ok ob" and lo: "level_order sd ob ps" and fit: "depth (queue sd ob) < 2 ^ 63"
  shows "sorted_wrt (\<lambda>l l'. level_key sd l < level_key sd l') (price_levels sd ps ob) \<and>
    l_Price ` set (price_levels sd ps ob) = r_Price ` set (queue sd ob) \<and>
    (\<forall>l \<in> set (price_levels sd ps ob). sint (l_Quantity l) = depth_at (l_Price l) (queue sd ob))"
proof (intro conjI ballI)
  let ?m = "level_map (mem ob) (side_arr sd ob)" and ?ls = "price_levels sd ps ob"
  let ?xs = "map (\<lambda>p. \<lparr>l_Price = p, l_Quantity = the (?m p)\<rparr>) ps"
  have ls: "?ls = sort_key (level_key sd) ?xs" by (simp add: price_levels_def Let_def)
  have dom: "set ps = (\<lambda>a. o_Price (mem ob a)) ` set (side_arr sd ob)" "distinct ps"
    using lo by (simp_all add: level_order_def dom_level_map)
  have "distinct (map (level_key sd) ?xs)" using dom(2) by (cases sd) (simp_all add: o_def distinct_map inj_on_def)
  moreover have "mset (map (level_key sd) ?ls) = mset (map (level_key sd) ?xs)" by (simp only: ls mset_map mset_sort)
  ultimately have "distinct (map (level_key sd) ?ls)" using mset_eq_imp_distinct_iff by blast
  then have "sorted_wrt (<) (map (level_key sd) ?ls)" by (simp add: strict_sorted_iff ls)
  then show "sorted_wrt (\<lambda>l l'. level_key sd l < level_key sd l') ?ls" by (simp add: sorted_wrt_map)
  show "l_Price ` set ?ls = r_Price ` set (queue sd ob)" using dom(1) by (auto simp: ls set_queue image_image)
  fix l assume "l \<in> set ?ls"
  then obtain p where p: "p \<in> set ps" "l = \<lparr>l_Price = p, l_Quantity = the (?m p)\<rparr>" by (auto simp: ls)
  let ?as = "filter (\<lambda>a. o_Price (mem ob a) = p) (side_arr sd ob)"
  have q: "l_Quantity l = sum_list (map (\<lambda>a. o_Remaining (mem ob a)) ?as)" using p dom(1) by (simp add: level_map_eq)
  have "\<forall>x\<in>set (map (\<lambda>a. o_Remaining (mem ob a)) ?as). 0 \<le> sint x"
    using book_okD(4) [OF ok, of _ sd] by (auto simp: order_ok_def less_imp_le)
  moreover have "(\<Sum>x\<leftarrow>map (\<lambda>a. o_Remaining (mem ob a)) ?as. sint x) = depth_at p (queue sd ob)"
    by (simp add: depth_at_arr o_def)
  moreover have "depth_at p (queue sd ob) < 2 ^ 63"
    using depth_at_le [OF queue_positive [OF ok, of sd], of p] fit by linarith
  ultimately show "sint (l_Quantity l) = depth_at (l_Price l) (queue sd ob)"
    using sint64_sum_list [of "map (\<lambda>a. o_Remaining (mem ob a)) ?as"] q p(2) by simp
qed

end
