(* ===== verification/Transition.thy ===== *)
theory Transition
  imports Prelude "HOL-Library.Sublist"
begin

text \<open>
  State machines: the states a step relation reaches from its initial states, and the interfaces
  through which the components use them. A component proves that its initial states satisfy an
  invariant and that its steps keep it; the lemmas on reachable states, on facts that never cease to
  hold and on loops that run until their work is done follow once for all of them.
\<close>

inductive reach :: "('s \<Rightarrow> bool) \<Rightarrow> ('s \<Rightarrow> 's \<Rightarrow> bool) \<Rightarrow> 's \<Rightarrow> bool"
  for init :: "'s \<Rightarrow> bool" and step :: "'s \<Rightarrow> 's \<Rightarrow> bool" where
  reach_init: "init s \<Longrightarrow> reach init step s"
| reach_step: "reach init step s \<Longrightarrow> step s s' \<Longrightarrow> reach init step s'"

lemma reach_steps: "step\<^sup>*\<^sup>* s s' \<Longrightarrow> reach init step s \<Longrightarrow> reach init step s'"
  by (induction rule: rtranclp_induct) (auto intro: reach_step)

section \<open>Invariants\<close>

locale system_invariant =
  fixes init :: "'s \<Rightarrow> bool" and step :: "'s \<Rightarrow> 's \<Rightarrow> bool" and inv :: "'s \<Rightarrow> bool"
  assumes inv_init: "init s \<Longrightarrow> inv s"
    and inv_step: "inv s \<Longrightarrow> step s s' \<Longrightarrow> inv s'"
begin

lemma inv_reach: "reach init step s \<Longrightarrow> inv s"
  by (induction rule: reach.induct) (auto intro: inv_init inv_step)

lemma inv_steps: "step\<^sup>*\<^sup>* s s' \<Longrightarrow> inv s \<Longrightarrow> inv s'"
  by (induction rule: rtranclp_induct) (auto intro: inv_step)

end

text \<open>A fact that no step of the system can end, once it holds in a reachable state.\<close>

locale stable_fact = system_invariant +
  fixes fact :: "'s \<Rightarrow> bool"
  assumes fact_step: "inv s \<Longrightarrow> fact s \<Longrightarrow> step s s' \<Longrightarrow> fact s'"
begin

lemma fact_forever:
  assumes "step\<^sup>*\<^sup>* s s'" and "reach init step s" and "fact s"
  shows "fact s'"
  using assms
proof (induction rule: rtranclp_induct)
  case (step y z)
  have "inv y" using inv_reach [OF reach_steps] step.hyps(1) step.prems(1) by blast
  then show ?case using step fact_step by blast
qed

end

section \<open>Loops\<close>

text \<open>A loop whose every turn takes away work and which has a turn while work is left.\<close>

locale working_loop =
  fixes turn :: "'s \<Rightarrow> 's \<Rightarrow> bool" and work :: "'s \<Rightarrow> nat" and active :: "'s \<Rightarrow> bool"
  assumes turn_work: "active s \<Longrightarrow> turn s s' \<Longrightarrow> work s = Suc (work s')"
    and turn_active: "active s \<Longrightarrow> turn s s' \<Longrightarrow> active s'"
    and turn_exists: "active s \<Longrightarrow> 0 < work s \<Longrightarrow> \<exists>s'. turn s s'"
begin

lemma turns_work: "active s \<Longrightarrow> (turn ^^ n) s s' \<Longrightarrow> work s = n + work s' \<and> active s'"
proof (induction n arbitrary: s')
  case (Suc n)
  then obtain t where "(turn ^^ n) s t" "turn t s'" by auto
  with Suc turn_work turn_active show ?case by fastforce
qed simp

text \<open>No schedule takes more turns than there is work, and every schedule can be completed.\<close>

lemma turns_complete: "active s \<Longrightarrow> \<exists>s'. (turn ^^ work s) s s' \<and> work s' = 0"
proof (induction "work s" arbitrary: s)
  case 0
  then show ?case by auto
next
  case (Suc n)
  then obtain t where t: "turn s t" using turn_exists by fastforce
  with Suc have "n = work t" "active t" using turn_work turn_active by force+
  with Suc obtain s' where "(turn ^^ n) t s'" "work s' = 0" by blast
  with t Suc show ?case by (metis relpowp_Suc_I2)
qed

end

end
