(* ===== verification/Stub_System.thy ===== *)
theory Stub_System
  imports Stub_Session Transition
begin

text \<open>
  The stub engine as a whole (\<open>streamHandler\<close>, \<open>orderbookHandler\<close> and the session bookkeeping of
  \<open>src/services/stub/main.go\<close>): any number of sessions connect, send messages, are closed and
  query the book in any order. Every step is one critical section of the book's mutex or one
  call of the clock.
\<close>

section \<open>States and steps\<close>

record Stub =
  s_book :: Orderbook
  s_clock :: Clock
  s_live :: "string list"
  s_log :: "(string \<times> OutMessage) list"

definition session_id :: "string \<Rightarrow> int \<Rightarrow> string" where
  "session_id remoteAddr ts = remoteAddr @ ''/'' @ dec ts"

definition stub_connect :: "string \<Rightarrow> Stub \<Rightarrow> Stub" where
  "stub_connect remoteAddr s =
     (let (ts, clk) = now (s_clock s)
      in s\<lparr>s_clock := clk, s_live := session_id remoteAddr ts # s_live s\<rparr>)"

definition stub_receive :: "string \<Rightarrow> IncomingMessage \<Rightarrow> Stub \<Rightarrow> Stub" where
  "stub_receive sid msg s =
     (let (out, ob, clk) = stream_message sid msg (s_book s) (s_clock s)
      in s\<lparr>s_book := ob, s_clock := clk, s_log := s_log s @ map (Pair sid) out\<rparr>)"

definition stub_query :: "price list \<Rightarrow> price list \<Rightarrow> Stub \<Rightarrow> Stub" where
  "stub_query bidOrder askOrder s = s\<lparr>s_clock := snd (orderbookHandler bidOrder askOrder (s_book s) (s_clock s))\<rparr>"

definition stub_close :: "addr list \<Rightarrow> string \<Rightarrow> Stub \<Rightarrow> Stub" where
  "stub_close order sid s = s\<lparr>s_book := cancelSession order sid (s_book s), s_live := remove1 sid (s_live s)\<rparr>"

inductive stub_step :: "Stub \<Rightarrow> Stub \<Rightarrow> bool" where
  connect: "stub_step s (stub_connect remoteAddr s)"
| receive: "sid \<in> set (s_live s) \<Longrightarrow> stub_step s (stub_receive sid msg s)"
| query: "level_order Bids (s_book s) bidOrder \<Longrightarrow> level_order Asks (s_book s) askOrder \<Longrightarrow>
     stub_step s (stub_query bidOrder askOrder s)"
| close: "sid \<in> set (s_live s) \<Longrightarrow> map_order (orders (s_book s)) order \<Longrightarrow> stub_step s (stub_close order sid s)"

definition stub_init :: "(nat \<Rightarrow> int) \<Rightarrow> Stub" where
  "stub_init wl = \<lparr>s_book = NewOrderbook, s_clock = \<lparr>lastTimestamp = 0, wall = wl, reads = 0\<rparr>, s_live = [], s_log = []\<rparr>"

definition stub_initial :: "Stub \<Rightarrow> bool" where
  "stub_initial s \<longleftrightarrow> (\<exists>wl. s = stub_init wl)"

abbreviation stub_reachable :: "Stub \<Rightarrow> bool" where
  "stub_reachable \<equiv> reach stub_initial stub_step"

lemma stub_reachable_start: "stub_reachable (stub_init wl)"
  by (rule reach_init) (auto simp: stub_initial_def)

lemma stub_reachable_step: "stub_reachable s \<Longrightarrow> stub_step s s' \<Longrightarrow> stub_reachable s'"
  by (rule reach_step)

inductive_cases stub_stepE: "stub_step s s'"

section \<open>Handlers on any message\<close>

lemma sweep_sessions:
  "sweep sd limited p rem rs = (ts, rem', rs') \<Longrightarrow> r_SessionID ` set rs' \<subseteq> r_SessionID ` set rs"
proof (induction sd limited p rem rs arbitrary: ts rem' rs' rule: sweep.induct)
  case (2 sd limited p rem r rs)
  then show ?case by (cases "sweep sd limited p (rem - r_Qty r) rs") (auto split: if_splits)
qed simp

lemma submit_sessions:
  assumes "submit sd limited r Q = (ts, rem, Q')"
  shows "r_SessionID ` set (Q' x) \<subseteq> insert (r_SessionID r) (r_SessionID ` set (Q x))"
proof -
  obtain opp where sw: "sweep (other sd) limited (r_Price r) (r_Qty r) (Q (other sd)) = (ts, rem, opp)"
    and Q': "Q' = Q(other sd := opp, sd := if limited \<and> 0 < rem then insort_key (rprio sd) (r\<lparr>r_Qty := rem\<rparr>) (Q sd) else Q sd)"
    using assms by (auto simp: submit_def split: prod.splits)
  consider "x = sd" | "x = other sd" by (cases x; cases sd) auto
  then show ?thesis
    using sweep_sessions [OF sw] by cases (auto simp: Q' set_insort_key)
qed

lemma handleOrder_cases:
  assumes "handleOrder sid msg ob clk = (out, ob', clk')"
  shows "ob' = ob \<and> lastTimestamp clk < lastTimestamp clk' \<or>
    valid_order msg \<and> orders ob (i_OrderID msg) = None \<and> accept_order sid msg ob clk = (out, ob', clk')"
  using assms now_props [of clk]
  by (auto simp: handleOrder_def valid_order_def Let_def split: if_splits prod.splits)

lemma stream_message_keeps:
  assumes m: "stream_message sid msg ob clk = (out, ob', clk')" and ok: "book_ok ob" and ahead: "clock_ahead ob clk"
  shows "book_ok ob' \<and> clock_ahead ob' clk' \<and>
    r_SessionID ` set (queue sd ob') \<subseteq> insert sid (r_SessionID ` set (queue sd ob))"
proof -
  have idle: ?thesis if "ob' = ob" "lastTimestamp clk < lastTimestamp clk'"
    using that ok ahead by (fastforce simp: clock_ahead_def)
  consider (ord) "handleOrder sid msg ob clk = (out, ob', clk')" | (can) "handleCancel sid msg ob clk = (out, ob', clk')"
    | "ob' = ob" "lastTimestamp clk < lastTimestamp clk'"
    using m now_props [of clk] by (auto simp: stream_message_def Let_def split: if_splits prod.splits)
  then show ?thesis
  proof cases
    case ord
    from handleOrder_cases [OF this] show ?thesis
    proof
      assume "valid_order msg \<and> orders ob (i_OrderID msg) = None \<and> accept_order sid msg ob clk = (out, ob', clk')"
      then have v: "valid_order msg" and new: "orders ob (i_OrderID msg) = None"
        and acc: "accept_order sid msg ob clk = (out, ob', clk')" by blast+
      from accept_order_refines [OF acc v ok ahead new] show ?thesis
        using submit_sessions [of "side_of (i_Side msg)" "i_OrderType msg = ''limit''"
          "resting_of sid msg (fst (now clk))" "book_queues ob" _ _ "book_queues ob'" sd]
        by (auto simp: book_queues_def resting_of_def)
    qed (use idle in blast)
  next
    case can
    from handleCancel_refines [OF this ok ahead] show ?thesis
      by (auto simp: cancel_spec_def book_queues_def fun_eq_iff split: option.splits if_splits sum.splits)
  qed (rule idle)
qed

section \<open>The invariant\<close>

definition stub_inv :: "Stub \<Rightarrow> bool" where
  "stub_inv s \<longleftrightarrow> book_ok (s_book s) \<and> clock_ahead (s_book s) (s_clock s) \<and> 0 \<le> lastTimestamp (s_clock s) \<and>
     distinct (s_live s) \<and>
     (\<forall>sid \<in> set (s_live s). \<exists>remoteAddr ts. sid = session_id remoteAddr ts \<and> 0 \<le> ts \<and> ts \<le> lastTimestamp (s_clock s)) \<and>
     (\<forall>sd. r_SessionID ` set (queue sd (s_book s)) \<subseteq> set (s_live s)) \<and>
     stamps 0 (map (\<lambda>m. out_Timestamp (snd m)) (s_log s)) (lastTimestamp (s_clock s))"

lemma dec_nonneg_no_slash: "0 \<le> t \<Longrightarrow> CHR ''/'' \<notin> set (dec t)"
  using dec_nat_digits [of "CHR ''/''" "nat t"] by (auto simp: dec_def is_digit_def byte_def)

lemma session_id_inject:
  assumes "0 \<le> t" "0 \<le> u" "session_id x t = session_id y u"
  shows "x = y \<and> t = u"
proof -
  have "x @ CHR ''/'' # dec t = y @ CHR ''/'' # dec u" using assms(3) by (simp add: session_id_def)
  from append_sep_inject_right [OF this dec_nonneg_no_slash [OF assms(1)] dec_nonneg_no_slash [OF assms(2)]]
  have "x = y" "dec t = dec u" by simp_all
  then show ?thesis using assms(1,2) by (simp add: dec_def eq_nat_nat_iff)
qed

lemma stamps_mono: "stamps lo xs hi \<Longrightarrow> hi \<le> hi' \<Longrightarrow> stamps lo xs hi'"
  by (simp add: stamps_def)

lemma stamps_le: "stamps lo xs hi \<Longrightarrow> lo \<le> hi"
  by (induction xs arbitrary: lo) force+

lemma stub_init_inv: "stub_inv (stub_init wl)"
  using NewOrderbook_ok by (simp add: stub_inv_def stub_init_def clock_ahead_def queue_def line_def)

lemma stub_connect_inv [keeps]:
  assumes "stub_inv s"
  shows "stub_inv (stub_connect remoteAddr s)"
proof -
  obtain ts clk where n: "now (s_clock s) = (ts, clk)" by fastforce
  note t = now_stamps [OF n]
  have "session_id remoteAddr ts \<notin> set (s_live s)"
  proof
    assume "session_id remoteAddr ts \<in> set (s_live s)"
    then obtain x u where "session_id remoteAddr ts = session_id x u" "0 \<le> u" "u \<le> lastTimestamp (s_clock s)"
      using assms by (fastforce simp: stub_inv_def)
    then show False using session_id_inject [of ts u remoteAddr x] t by simp
  qed
  then show ?thesis
    using assms t by (fastforce simp: stub_inv_def stub_connect_def n clock_ahead_def intro: stamps_mono)
qed

lemma stub_receive_inv [keeps]:
  assumes inv: "stub_inv s" and sid: "sid \<in> set (s_live s)"
  shows "stub_inv (stub_receive sid msg s)"
proof -
  obtain out ob clk where m: "stream_message sid msg (s_book s) (s_clock s) = (out, ob, clk)" by (metis prod_cases3)
  note st = stream_message_stamps [OF m]
  have le: "lastTimestamp (s_clock s) \<le> lastTimestamp clk" by (rule stamps_le [OF st])
  have k: "book_ok ob \<and> clock_ahead ob clk" "r_SessionID ` set (queue sd ob) \<subseteq> insert sid (r_SessionID ` set (queue sd (s_book s)))" for sd
    using stream_message_keeps [OF m] inv by (auto simp: stub_inv_def)
  have live: "r_SessionID ` set (queue sd ob) \<subseteq> set (s_live s)" for sd
    using k(2) [of sd] inv sid unfolding stub_inv_def by blast
  have "stamps 0 (map (\<lambda>m. out_Timestamp (snd m)) (s_log s @ map (Pair sid) out)) (lastTimestamp clk)"
    using stamps_append [OF _ st] inv by (simp add: stub_inv_def o_def)
  moreover have "\<exists>remoteAddr ts. x = session_id remoteAddr ts \<and> 0 \<le> ts \<and> ts \<le> lastTimestamp clk"
    if "x \<in> set (s_live s)" for x using inv that le by (meson order_trans stub_inv_def)
  ultimately show ?thesis
    using k live inv le by (simp add: stub_inv_def stub_receive_def m)
qed

lemma stub_query_inv [keeps]: "stub_inv s \<Longrightarrow> stub_inv (stub_query bidOrder askOrder s)"
  using fst_now_gt [of "s_clock s"]
  by (fastforce simp: stub_inv_def stub_query_def orderbookHandler_def Let_def clock_ahead_def split_beta intro: stamps_mono)

lemma stub_close_inv [keeps]:
  assumes inv: "stub_inv s" and mo: "map_order (orders (s_book s)) order"
  shows "stub_inv (stub_close order sid s)"
proof -
  let ?ob = "cancelSession order sid (s_book s)"
  have c: "book_ok ?ob" "clock_ahead ?ob (s_clock s)"
    "\<And>sd. queue sd ?ob = filter (\<lambda>r. r_SessionID r \<noteq> sid) (queue sd (s_book s))"
    using cancelSession_refines [OF _ mo] inv by (auto simp: stub_inv_def)
  have "set (remove1 sid (s_live s)) = set (s_live s) - {sid}" using inv by (simp add: stub_inv_def)
  then have "r_SessionID ` set (queue sd ?ob) \<subseteq> set (remove1 sid (s_live s))" for sd
    using inv unfolding stub_inv_def c(3) by auto
  then show ?thesis using inv c(1,2) by (auto simp: stub_inv_def stub_close_def)
qed

interpretation stub: system_invariant stub_initial stub_step stub_inv
proof unfold_locales
  show "stub_inv s" if "stub_initial s" for s using that stub_init_inv by (auto simp: stub_initial_def)
  show "stub_inv s'" if "stub_inv s" "stub_step s s'" for s s'
    using that(2,1) by (cases rule: stub_step.cases) (auto intro: keeps)
qed

lemmas stub_reachable_inv = stub.inv_reach

end
