(* ===== verification/Stub_Props.thy ===== *)
theory Stub_Props
  imports Stub_System
begin

text \<open>The theorems about the stub engine.\<close>

section \<open>A small market\<close>

text \<open>One session with two resting sell orders; the states the examples below start from.\<close>

definition demo_msg :: "string \<Rightarrow> string \<Rightarrow> price \<Rightarrow> int64 \<Rightarrow> IncomingMessage" where
  "demo_msg i sd p q = \<lparr>i_Type = ''order'', i_OrderID = i, i_Side = sd, i_OrderType = ''limit'',
     i_Price = p, i_Quantity = q\<rparr>"

definition demo_stub :: Stub where
  "demo_stub = stub_receive ''h/1'' (demo_msg ''b'' ''sell'' 99 3)
     (stub_receive ''h/1'' (demo_msg ''a'' ''sell'' 100 5) (stub_connect ''h'' (stub_init (\<lambda>n. 0))))"

definition demo_book :: Orderbook where
  "demo_book = snd (alloc (new_Order ''h/1'' (demo_msg ''c'' ''buy'' 100 6) 4) (s_book demo_stub))"

lemma demo_reachable: "stub_reachable demo_stub"
proof -
  have "''h/1'' \<in> set (s_live (stub_connect ''h'' (stub_init (\<lambda>n. 0))))" by code_simp
  moreover have "''h/1'' \<in> set (s_live (stub_receive ''h/1'' (demo_msg ''a'' ''sell'' 100 5) (stub_connect ''h'' (stub_init (\<lambda>n. 0)))))"
    by code_simp
  ultimately show ?thesis
    unfolding demo_stub_def by (intro stub_reachable_step [OF _ stub_step.receive] stub_reachable_step [OF _ stub_step.connect]
        stub_reachable_start)
qed

lemma demo_book_facts:
  "book_ok (s_book demo_stub)" "clock_ahead (s_book demo_stub) (s_clock demo_stub)"
  "book_ok demo_book" "free_order 2 demo_book" "o_Side (mem demo_book 2) = side_name Bids"
proof -
  have inv: "stub_inv demo_stub" by (rule stub_reachable_inv [OF demo_reachable])
  then show ok: "book_ok (s_book demo_stub)" and "clock_ahead (s_book demo_stub) (s_clock demo_stub)"
    by (simp_all add: stub_inv_def)
  have al: "alloc (new_Order ''h/1'' (demo_msg ''c'' ''buy'' 100 6) 4) (s_book demo_stub) = (2, demo_book)"
  proof (rule prod_eqI)
    show "fst (alloc (new_Order ''h/1'' (demo_msg ''c'' ''buy'' 100 6) 4) (s_book demo_stub)) = fst (2, demo_book)"
      by code_simp
  qed (simp add: demo_book_def)
  have new: "orders (s_book demo_stub) (o_OrderID (new_Order ''h/1'' (demo_msg ''c'' ''buy'' 100 6) 4)) = None"
    by code_simp
  show "book_ok demo_book" "free_order 2 demo_book" by (rule alloc_effect [OF ok al new])+
  show "o_Side (mem demo_book 2) = side_name Bids" by code_simp
qed

lemma map_order_iff:
  assumes ok: "book_ok ob"
  shows "map_order (orders ob) order \<longleftrightarrow> distinct order \<and> set order = set (bids ob) \<union> set (asks ob)"
proof -
  have "\<exists>i. orders ob i = Some a" if "a \<in> set (side_arr sd ob)" for sd a using book_okD(5) [OF ok that] by blast
  from this [of _ Bids] this [of _ Asks] have "set (bids ob) \<union> set (asks ob) \<subseteq> ran (orders ob)" by (auto simp: ran_def)
  moreover have "a \<in> set (bids ob) \<union> set (asks ob)" if "orders ob i = Some a" for i a
    using book_okD(6) [OF ok that] by (metis Un_iff side.exhaust side_arr.simps)
  ultimately have "ran (orders ob) = set (bids ob) \<union> set (asks ob)" unfolding ran_def by blast
  then show ?thesis by (simp add: map_order_def)
qed

section \<open>Properties of the engine\<close>

text \<open>
  C1. Matching implements price-time priority. On a well formed book the heap based loop of
  \<open>match\<close>, run for an order that does not rest yet, produces exactly the fills, the remainder and
  the opposite queue of the reference sweep over the queue sorted by price and entry time; it
  leaves its own side alone and the book well formed.
\<close>

theorem match_refines_sweep:
  assumes "match_order a ob clk = (fs, ob', clk')" and "book_ok ob" and "free_order a ob"
    and "o_Side (mem ob a) = side_name sd"
  shows "book_ok ob' \<and> queue sd ob' = queue sd ob \<and>
    (\<exists>ts. sweep (other sd) (o_OrderType (mem ob a) = ''limit'') (o_Price (mem ob a)) (sint (o_Remaining (mem ob a)))
            (queue (other sd) ob) = (ts, sint (o_Remaining (mem ob' a)), queue (other sd) ob') \<and>
          fills_are (o_OrderID (mem ob a)) (sint (o_Remaining (mem ob a))) fs ts)"
proof -
  have post: "loop_post (other sd) a ob clk fs ob' clk'" by (rule match_order_post [OF assms])
  then have "queue sd ob' = queue sd ob"
    by (intro frame_queue_other [OF assms(2) _ _ assms(3)]) (auto simp: loop_post_def)
  with post show ?thesis by (auto simp: loop_post_def)
qed

theorem match_refines_sweep_witness:
  "\<exists>fs ob' clk'. match_order 2 demo_book (s_clock demo_stub) = (fs, ob', clk') \<and> book_ok ob' \<and>
     map f_FilledQty fs = [3, 3] \<and> map f_FillPrice fs = [99, 100] \<and>
     (\<exists>ts. sweep Asks True 100 6 (queue Asks demo_book) = (ts, sint (o_Remaining (mem ob' 2)), queue Asks ob') \<and>
       fills_are ''c'' 6 fs ts)"
proof -
  obtain fs ob' clk' where m: "match_order 2 demo_book (s_clock demo_stub) = (fs, ob', clk')" by (metis prod_cases3)
  have "map f_FilledQty (fst (match_order 2 demo_book (s_clock demo_stub))) = [3, 3]"
    "map f_FillPrice (fst (match_order 2 demo_book (s_clock demo_stub))) = [99, 100]" by code_simp+
  moreover have "o_OrderType (mem demo_book 2) = ''limit''" "o_Price (mem demo_book 2) = 100"
    "sint (o_Remaining (mem demo_book 2)) = 6" "o_OrderID (mem demo_book 2) = ''c''" by code_simp+
  ultimately show ?thesis
    using match_refines_sweep [OF m demo_book_facts(3-5)] m by auto
qed

text \<open>
  C2. Fairness of a match. The resting orders traded against are a prefix of the opposite queue,
  each consumed whole at its own price, except that the last one may be reduced when the incoming
  order runs out inside it; every unit is accounted for on both sides, no trade is worse than the
  limit of a limit order, and units are left over only when the opposite queue is empty or, for a
  limit order, every price in it is beyond the limit.
\<close>

theorem match_is_fair:
  assumes "match_order a ob clk = (fs, ob', clk')" and "book_ok ob" and "free_order a ob"
    and "o_Side (mem ob a) = side_name sd"
    and rem: "rem = sint (o_Remaining (mem ob a))" and rem': "rem' = sint (o_Remaining (mem ob' a))"
  shows "\<exists>ts k. fills_are (o_OrderID (mem ob a)) rem fs ts \<and>
    consumed rem (queue (other sd) ob) ts rem' (queue (other sd) ob') k \<and>
    traded ts + rem' = rem \<and> traded ts + depth (queue (other sd) ob') = depth (queue (other sd) ob) \<and>
    (o_OrderType (mem ob a) = ''limit'' \<longrightarrow> (\<forall>t \<in> set ts. \<not> price_stops (other sd) (o_Price (mem ob a)) (snd t))) \<and>
    (0 < rem' \<longrightarrow> queue (other sd) ob' = [] \<or>
       o_OrderType (mem ob a) = ''limit'' \<and>
       (\<forall>r \<in> set (queue (other sd) ob'). price_stops (other sd) (o_Price (mem ob a)) (r_Price r)))"
proof -
  have "loop_post (other sd) a ob clk fs ob' clk'" by (rule match_order_post [OF assms(1-4)])
  then obtain ts where sw: "sweep (other sd) (o_OrderType (mem ob a) = ''limit'') (o_Price (mem ob a)) rem
      (queue (other sd) ob) = (ts, rem', queue (other sd) ob')" and f: "fills_are (o_OrderID (mem ob a)) rem fs ts"
    by (auto simp: loop_post_def rem rem')
  obtain k where k: "consumed rem (queue (other sd) ob) ts rem' (queue (other sd) ob') k"
    using sweep_consumes [OF sw] by blast
  have "queue (other sd) ob' = [] \<or> o_OrderType (mem ob a) = ''limit'' \<and>
     (\<forall>r \<in> set (queue (other sd) ob'). price_stops (other sd) (o_Price (mem ob a)) (r_Price r))" if "0 < rem'"
    using sweep_exhausts [OF sw that] stops_tail [of "other sd"] sorted_queue [of "other sd" ob']
    by (cases "queue (other sd) ob'") auto
  with f k sweep_conserves [OF sw] sweep_acceptable [OF sw] show ?thesis by blast
qed

theorem match_is_fair_witness:
  "\<exists>fs ob' clk' ts k. match_order 2 demo_book (s_clock demo_stub) = (fs, ob', clk') \<and> fills_are ''c'' 6 fs ts \<and>
     consumed 6 (queue Asks demo_book) ts 0 (queue Asks ob') k \<and> traded ts = 6"
proof -
  obtain fs ob' clk' where m: "match_order 2 demo_book (s_clock demo_stub) = (fs, ob', clk')" by (metis prod_cases3)
  have "0 = sint (o_Remaining (mem (fst (snd (match_order 2 demo_book (s_clock demo_stub)))) 2))"
    "6 = sint (o_Remaining (mem demo_book 2))" "o_OrderID (mem demo_book 2) = ''c''" by code_simp+
  then show ?thesis
    using match_is_fair [OF m demo_book_facts(3-5), of 6 0] m by auto
qed

text \<open>
  C3. A valid order with an unused id is accepted: the queues of the book become those of the
  specification \<open>submit\<close> (sweep the opposite queue, then insert the rest of a limit order by
  price and time), the book stays well formed, and the session is sent the ack, one fill per trade
  with the running remainder and, for a market order with units left, a final
  \<open>no_liquidity\<close> rejection.
\<close>

theorem handleOrder_refines_submit:
  assumes "valid_order msg" and "orders ob (i_OrderID msg) = None" and "book_ok ob" and "clock_ahead ob clk"
    and "handleOrder sid msg ob clk = (out, ob', clk')"
  shows "book_ok ob' \<and> clock_ahead ob' clk' \<and>
    (\<exists>ts rem. submit (side_of (i_Side msg)) (i_OrderType msg = ''limit'')
        (resting_of sid msg (fst (now clk))) (book_queues ob) = (ts, rem, book_queues ob') \<and>
      order_reply (i_OrderID msg) (sint (i_Quantity msg)) ts (i_OrderType msg = ''market'' \<and> 0 < rem) out)"
proof (rule accept_order_refines [OF _ assms(1,3,4,2)])
  show "accept_order sid msg ob clk = (out, ob', clk')"
    using assms(1,2,5) by (auto simp: handleOrder_def valid_order_def)
qed

theorem handleOrder_refines_submit_witness:
  "\<exists>out ob' clk' ts rem.
     handleOrder ''h/1'' (demo_msg ''c'' ''buy'' 100 6) (s_book demo_stub) (s_clock demo_stub) = (out, ob', clk') \<and>
     book_ok ob' \<and> length out = 3 \<and> order_reply ''c'' 6 ts False out \<and>
     submit Bids True (resting_of ''h/1'' (demo_msg ''c'' ''buy'' 100 6) 4) (book_queues (s_book demo_stub)) =
       (ts, rem, book_queues ob')"
proof -
  let ?m = "demo_msg ''c'' ''buy'' 100 6" and ?s = demo_stub
  obtain out ob' clk' where h: "handleOrder ''h/1'' ?m (s_book ?s) (s_clock ?s) = (out, ob', clk')" by (metis prod_cases3)
  have f: "valid_order ?m" "orders (s_book ?s) (i_OrderID ?m) = None" by code_simp+
  have e: "length (fst (handleOrder ''h/1'' ?m (s_book ?s) (s_clock ?s))) = 3" "side_of (i_Side ?m) = Bids"
    "(i_OrderType ?m = ''limit'') = True" "(i_OrderType ?m = ''market'') = False" "fst (now (s_clock ?s)) = 4"
    "i_OrderID ?m = ''c''" "sint (i_Quantity ?m) = 6" by code_simp+
  from handleOrder_refines_submit [OF f demo_book_facts(1,2) h] e h show ?thesis by auto
qed

text \<open>
  C6. Errors of an order. \<open>handleOrder\<close> answers with a single rejection, a fresh timestamp and an
  untouched book exactly when the order is malformed or its id is in use; the reason names the
  first check that fails, in the order of the checks.
\<close>

theorem handleOrder_error:
  "(\<exists>reason ts. handleOrder sid msg ob clk = ([reject (i_OrderID msg) reason ts], ob, snd (now clk)) \<and>
      lastTimestamp clk < ts \<and>
      (reason = ''invalid_order'' \<and> bad_fields msg \<or>
       reason = ''invalid_quantity'' \<and> \<not> bad_fields msg \<and> sint (i_Quantity msg) \<le> 0 \<or>
       reason = ''invalid_price'' \<and> \<not> bad_fields msg \<and> 0 < sint (i_Quantity msg) \<and> i_OrderType msg = ''limit'' \<and> i_Price msg \<le> 0 \<or>
       reason = ''duplicate_order_id'' \<and> valid_order msg \<and> orders ob (i_OrderID msg) \<noteq> None)) \<longleftrightarrow>
   \<not> (valid_order msg \<and> orders ob (i_OrderID msg) = None)"
proof (cases "valid_order msg \<and> orders ob (i_OrderID msg) = None")
  case True
  then have "handleOrder sid msg ob clk = accept_order sid msg ob clk"
    by (auto simp: handleOrder_def valid_order_def)
  moreover have "accept_order sid msg ob clk \<noteq> ([reject (i_OrderID msg) reason ts], ob, snd (now clk))" for reason ts
    by (rule notI, erule accept_orderE) (auto simp: accept_end_def reject_def split: if_splits)
  ultimately show ?thesis using True by simp
next
  case False
  obtain ts clk' where n: "now clk = (ts, clk')" by fastforce
  show ?thesis
    using False now_stamps [OF n] by (auto simp: handleOrder_def valid_order_def n Let_def)
qed

lemma fills_are_ids: "fills_are i q fs ts \<Longrightarrow> f \<in> set fs \<Longrightarrow> f_OrderID f = i"
  by (induction i q fs ts rule: fills_are.induct) auto

text \<open>
  Replies go to the requester only: every message the engine emits for an incoming message
  carries the order id of that message. In particular the owner of a resting order is never told
  that it was filled.
\<close>

theorem replies_to_requester:
  assumes "stream_message sid msg ob clk = (out, ob', clk')" and "book_ok ob" and "clock_ahead ob clk" and "m \<in> set out"
  shows "out_OrderID m = i_OrderID msg"
proof -
  consider (ord) "handleOrder sid msg ob clk = (out, ob', clk')" | "\<forall>m \<in> set out. out_OrderID m = i_OrderID msg"
    using assms(1) by (auto simp: stream_message_def handleCancel_def reject_def Let_def split: if_splits prod.splits option.splits)
  then show ?thesis
  proof cases
    case ord
    show ?thesis
    proof (cases "valid_order msg \<and> orders ob (i_OrderID msg) = None")
      case True
      have "accept_order sid msg ob clk = (out, ob', clk')" using ord True by (auto simp: handleOrder_def valid_order_def)
      from accept_order_refines [OF this _ assms(2,3)] True obtain ts b where
        "order_reply (i_OrderID msg) (sint (i_Quantity msg)) ts b out" by auto
      then obtain t0 fs rej where "out = Ack \<lparr>a_Type = ''ack'', a_OrderID = i_OrderID msg, a_Timestamp = t0\<rparr> # map Fill fs @ rej"
        "\<forall>f \<in> set fs. f_OrderID f = i_OrderID msg" "\<forall>m \<in> set rej. out_OrderID m = i_OrderID msg"
        unfolding order_reply_def using fills_are_ids by (fastforce simp: reject_def split: if_splits)
      then show ?thesis using assms(4) by auto
    next
      case False
      then show ?thesis using ord assms(4)
        by (auto simp: handleOrder_def valid_order_def reject_def Let_def split: if_splits prod.splits)
    qed
  qed (use assms(4) in blast)
qed

theorem replies_to_requester_witness:
  "\<exists>out ob' clk' m. stream_message ''h/1'' (demo_msg ''c'' ''buy'' 100 6) (s_book demo_stub) (s_clock demo_stub) =
     (out, ob', clk') \<and> length out = 3 \<and> m = out ! 2 \<and> out_OrderID m = ''c''"
proof -
  let ?m = "demo_msg ''c'' ''buy'' 100 6" and ?s = demo_stub
  obtain out ob' clk' where h: "stream_message ''h/1'' ?m (s_book ?s) (s_clock ?s) = (out, ob', clk')" by (metis prod_cases3)
  have "length (fst (stream_message ''h/1'' ?m (s_book ?s) (s_clock ?s))) = 3" by code_simp
  then have l: "length out = 3" using h by simp
  have "out_OrderID (out ! 2) = i_OrderID ?m" by (rule replies_to_requester [OF h demo_book_facts(1,2)]) (simp add: l)
  then show ?thesis using h l by (auto simp: demo_msg_def)
qed



text \<open>
  C9. Closing a session takes out exactly its resting orders. Whatever order the iteration over
  the \<open>orders\<close> map yields, each queue keeps the orders of the other sessions, in the same order.
\<close>

theorem cancelSession_any_order:
  assumes "book_ok ob" and "map_order (orders ob) order"
  shows "book_ok (cancelSession order sid ob) \<and>
    queue sd (cancelSession order sid ob) = filter (\<lambda>r. r_SessionID r \<noteq> sid) (queue sd ob)"
  using cancelSession_refines(1,2) [OF assms] by blast

theorem cancelSession_any_order_witness:
  "map_order (orders (s_book demo_stub)) [1, 0] \<and>
   queue Asks (cancelSession [1, 0] ''h/1'' (s_book demo_stub)) = [] \<and>
   queue Asks (cancelSession [1, 0] ''other'' (s_book demo_stub)) = queue Asks (s_book demo_stub)"
proof -
  have "bids (s_book demo_stub) = []" "asks (s_book demo_stub) = [1, 0]" by code_simp+
  then have mo: "map_order (orders (s_book demo_stub)) [1, 0]"
    by (simp add: map_order_iff [OF demo_book_facts(1)])
  have q: "map r_SessionID (queue Asks (s_book demo_stub)) = [''h/1'', ''h/1'']" by code_simp
  then have "\<forall>r \<in> set (queue Asks (s_book demo_stub)). r_SessionID r = ''h/1''" by (auto simp: map_eq_Cons_conv)
  then show ?thesis
    using mo cancelSession_any_order [OF demo_book_facts(1) mo, of "''h/1''" Asks]
      cancelSession_any_order [OF demo_book_facts(1) mo, of "''other''" Asks] by (auto simp: filter_id_conv)
qed

text \<open>
  The snapshot shows the book: whatever order the iterations over the level maps yield, each
  side lists every price at which an order rests exactly once, bids from the highest and asks from
  the lowest price, each with the number of units resting there, as long as that number fits in 63
  bits; and the query changes no order.
\<close>

theorem orderbookHandler_correct:
  assumes "book_ok ob" and "level_order Bids ob bidOrder" and "level_order Asks ob askOrder"
    and "depth (queue Bids ob) < 2 ^ 63" and "depth (queue Asks ob) < 2 ^ 63"
    and "orderbookHandler bidOrder askOrder ob clk = (snap, clk')"
    and "ls = (case sd of Bids \<Rightarrow> snap_Bids snap | Asks \<Rightarrow> snap_Asks snap)"
  shows "sorted_wrt (\<lambda>l l'. level_key sd l < level_key sd l') ls \<and>
    l_Price ` set ls = r_Price ` set (queue sd ob) \<and>
    (\<forall>l \<in> set ls. sint (l_Quantity l) = depth_at (l_Price l) (queue sd ob)) \<and>
    lastTimestamp clk < snap_Timestamp snap"
proof -
  have "lastTimestamp clk < snap_Timestamp snap"
    using assms(6) now_props [of clk] by (auto simp: orderbookHandler_def Let_def split: prod.splits)
  moreover have "ls = price_levels sd (case sd of Bids \<Rightarrow> bidOrder | Asks \<Rightarrow> askOrder) ob"
    using assms(6,7) by (cases sd) (auto simp: orderbookHandler_def Let_def split: prod.splits)
  ultimately show ?thesis
    using price_levels_correct [OF assms(1,2,4)] price_levels_correct [OF assms(1,3,5)] by (cases sd) auto
qed

theorem orderbookHandler_correct_witness:
  "\<exists>snap clk'. orderbookHandler [] [100, 99] (s_book demo_stub) (s_clock demo_stub) = (snap, clk') \<and>
     map l_Price (snap_Asks snap) = [99, 100] \<and> l_Price ` set (snap_Asks snap) = r_Price ` set (queue Asks (s_book demo_stub))"
proof -
  let ?ob = "s_book demo_stub" and ?clk = "s_clock demo_stub"
  obtain snap clk' where h: "orderbookHandler [] [100, 99] ?ob ?clk = (snap, clk')" by fastforce
  have b: "bids ?ob = []" "asks ?ob = [1, 0]" "o_Price (mem ?ob 0) = 100" "o_Price (mem ?ob 1) = 99" by code_simp+
  have lo: "level_order Bids ?ob []" "level_order Asks ?ob [100, 99]"
    by (auto simp: level_order_def dom_level_map b simp del: One_nat_def)
  have d: "depth (queue Bids ?ob) < 2 ^ 63" "depth (queue Asks ?ob) < 2 ^ 63" by code_simp+
  have p: "map l_Price (snap_Asks (fst (orderbookHandler [] [100, 99] ?ob ?clk))) = [99, 100]" by code_simp
  have "l_Price ` set (snap_Asks snap) = r_Price ` set (queue Asks ?ob)"
    using orderbookHandler_correct [OF demo_book_facts(1) lo d h, of _ Asks] by simp
  with p h show ?thesis by simp
qed

text \<open>
  C4. Safety of every run. In every state reachable by sessions connecting, sending arbitrary
  messages, querying and closing in any order, the book is well formed (heap order on both sides,
  every \<open>index\<close> field exact, the id index and the heaps hold the same orders, all with positive
  remaining quantity) and not crossed: every bid is below every ask.
\<close>

theorem reachable_book_ok:
  assumes "stub_reachable s"
  shows "book_ok (s_book s) \<and>
    (\<forall>b \<in> set (queue Bids (s_book s)). \<forall>a \<in> set (queue Asks (s_book s)). r_Price b < r_Price a)"
proof -
  have ok: "book_ok (s_book s)" using stub_reachable_inv [OF assms] by (simp add: stub_inv_def)
  then show ?thesis using book_okD(8) [OF ok] by (auto simp: set_queue)
qed

theorem reachable_book_ok_witness:
  "stub_reachable demo_stub \<and> book_ok (s_book demo_stub) \<and> length (queue Asks (s_book demo_stub)) = 2"
proof -
  have "length (queue Asks (s_book demo_stub)) = 2" by code_simp
  with reachable_book_ok [OF demo_reachable] demo_reachable show ?thesis by simp
qed

text \<open>
  C7. Sessions. Live sessions never share an id, and every resting order belongs to a live
  session: an order does not outlive the connection that sent it.
\<close>

theorem reachable_sessions:
  assumes "stub_reachable s"
  shows "distinct (s_live s) \<and> r_SessionID ` set (queue sd (s_book s)) \<subseteq> set (s_live s)"
  using stub_reachable_inv [OF assms] by (simp add: stub_inv_def)

theorem reachable_sessions_witness:
  "s_live demo_stub = [''h/1''] \<and> r_SessionID ` set (queue Asks (s_book demo_stub)) \<subseteq> {''h/1''}"
proof -
  have "s_live demo_stub = [''h/1'']" by code_simp
  with reachable_sessions [OF demo_reachable, of Asks] show ?thesis by simp
qed

text \<open>
  Timestamps of the messages the engine sends, over all sessions, strictly increase, even
  when the wall clock stands still or runs backwards.
\<close>

theorem reachable_log_increasing:
  assumes "stub_reachable s"
  shows "sorted_wrt (<) (map (\<lambda>m. out_Timestamp (snd m)) (s_log s))"
  using stub_reachable_inv [OF assms] by (simp add: stub_inv_def stamps_def)

theorem reachable_log_increasing_witness:
  "map (\<lambda>m. out_Timestamp (snd m)) (s_log demo_stub) = [2, 3] \<and> sorted_wrt (<) [2, 3 :: int]"
proof -
  have "map (\<lambda>m. out_Timestamp (snd m)) (s_log demo_stub) = [2, 3]" by code_simp
  with reachable_log_increasing [OF demo_reachable] show ?thesis by simp
qed

lemma sweep_blocked:
  "\<forall>r \<in> set rs. price_stops sd p (r_Price r) \<Longrightarrow> sweep sd True p rem rs = ([], rem, rs)"
  by (cases rs) auto

lemma fresh_id: "book_ok ob \<Longrightarrow> orders ob i = None \<Longrightarrow> r \<in> set (queue sd ob) \<Longrightarrow> r_OrderID r \<noteq> i"
  using find_queue [of ob i] by (cases sd) (auto simp: find_None_iff)

lemma cancel_spec_own:
  assumes "\<And>x r'. r' \<in> set (Q x) \<Longrightarrow> r_OrderID r' \<noteq> r_OrderID r"
    and Q1: "Q1 = Q(sd := insort_key k r (Q sd))"
  shows "cancel_spec (r_SessionID r) (r_OrderID r) Q1 = Inr Q"
proof -
  have "r \<in> set (Q1 Bids @ Q1 Asks)" by (cases sd) (simp_all add: Q1 set_insort_key)
  then obtain r' where f: "find (\<lambda>x. r_OrderID x = r_OrderID r) (Q1 Bids @ Q1 Asks) = Some r'"
    by (cases "find (\<lambda>x. r_OrderID x = r_OrderID r) (Q1 Bids @ Q1 Asks)") (auto simp: find_None_iff)
  have "r' = r" using find_SomeD [OF f] assms(1) by (cases sd) (auto simp: Q1 set_insort_key)
  moreover have "filter (\<lambda>x. r_OrderID x \<noteq> r_OrderID r) (Q1 x) = Q x" for x
    using assms(1) by (cases "x = sd") (auto simp: Q1 filter_insort_triv filter_id_conv)
  ultimately show ?thesis using f by (simp add: cancel_spec_def)
qed

text \<open>
  Round trip: a limit order that does not trade, cancelled by its session, leaves the queues
  as they were.
\<close>

theorem order_then_cancel:
  assumes v: "valid_order msg" and l: "i_OrderType msg = ''limit''" and new: "orders ob (i_OrderID msg) = None"
    and ok: "book_ok ob" and ahead: "clock_ahead ob clk"
    and stop: "\<forall>r \<in> set (queue (other (side_of (i_Side msg))) ob). price_stops (other (side_of (i_Side msg))) (i_Price msg) (r_Price r)"
    and h: "handleOrder sid msg ob clk = (out, ob1, clk1)" and c: "handleCancel sid msg ob1 clk1 = (out', ob2, clk2)"
  shows "book_queues ob2 = book_queues ob \<and>
    (\<exists>ts. out' = [CancelAck \<lparr>c_Type = ''cancel_ack'', c_OrderID = i_OrderID msg, c_Timestamp = ts\<rparr>])"
proof -
  let ?sd = "side_of (i_Side msg)" and ?r = "resting_of sid msg (fst (now clk))"
  have r: "r_Price ?r = i_Price msg" "r_Qty ?r = sint (i_Quantity msg)" "r_OrderID ?r = i_OrderID msg" "r_SessionID ?r = sid"
    by (simp_all add: resting_of_def)
  have "accept_order sid msg ob clk = (out, ob1, clk1)" using h v new by (auto simp: handleOrder_def valid_order_def)
  from accept_order_refines [OF this v ok ahead new]
  have k: "book_ok ob1" "clock_ahead ob1 clk1" and sub: "\<exists>ts rem. submit ?sd True ?r (book_queues ob) = (ts, rem, book_queues ob1)"
    using l by auto
  have "sweep (other ?sd) True (r_Price ?r) (r_Qty ?r) (book_queues ob (other ?sd)) = ([], r_Qty ?r, book_queues ob (other ?sd))"
    using sweep_blocked [OF stop] by (simp add: r book_queues_def)
  then have Q1: "book_queues ob1 = (book_queues ob)(?sd := insort_key (rprio ?sd) ?r (book_queues ob ?sd))"
    using sub v by (auto simp: submit_def r valid_order_def resting_of_def)
  have "cancel_spec sid (i_OrderID msg) (book_queues ob1) = Inr (book_queues ob)"
    using cancel_spec_own [of "book_queues ob" ?r, OF _ Q1] fresh_id [OF ok new] r by (simp add: book_queues_def)
  with handleCancel_refines [OF c k] show ?thesis by auto
qed

theorem order_then_cancel_witness:
  "\<exists>out ob1 clk1 out' ob2 clk2.
     handleOrder ''h/1'' (demo_msg ''c'' ''buy'' 98 6) (s_book demo_stub) (s_clock demo_stub) = (out, ob1, clk1) \<and>
     handleCancel ''h/1'' (demo_msg ''c'' ''buy'' 98 6) ob1 clk1 = (out', ob2, clk2) \<and>
     map r_OrderID (queue Bids ob1) = [''c''] \<and> book_queues ob2 = book_queues (s_book demo_stub)"
proof -
  let ?m = "demo_msg ''c'' ''buy'' 98 6" and ?s = demo_stub
  obtain out ob1 clk1 where h: "handleOrder ''h/1'' ?m (s_book ?s) (s_clock ?s) = (out, ob1, clk1)" by (metis prod_cases3)
  obtain out' ob2 clk2 where c: "handleCancel ''h/1'' ?m ob1 clk1 = (out', ob2, clk2)" by (metis prod_cases3)
  have f: "valid_order ?m" "i_OrderType ?m = ''limit''" "orders (s_book ?s) (i_OrderID ?m) = None" by code_simp+
  have st: "\<forall>r \<in> set (queue (other (side_of (i_Side ?m))) (s_book ?s)). price_stops (other (side_of (i_Side ?m))) (i_Price ?m) (r_Price r)"
    by code_simp
  have "map r_OrderID (queue Bids (fst (snd (handleOrder ''h/1'' ?m (s_book ?s) (s_clock ?s))))) = [''c'']" by code_simp
  with order_then_cancel [OF f demo_book_facts(1,2) st h c] h c show ?thesis by auto
qed

end
