(* ===== verification/Float64.thy ===== *)
theory Float64
  imports Prelude "HOL-Library.Log_Nat"
begin

text \<open>
  Go's \<open>float64\<close>: IEEE 754 binary64 values as rationals with the infinities and the not-a-number,
  and rounding to nearest, ties to even, as an executable function. Zero carries no sign, and a
  product is rounded before it is added (no fused multiply-add), as on amd64.
\<close>

section \<open>Rounding\<close>

text \<open>The nearest integer, ties to even.\<close>

definition rhe :: "rat \<Rightarrow> int" where
  "rhe x = (let f = \<lfloor>x\<rfloor>; d = x - of_int f
            in if d < 1 / 2 then f else if 1 / 2 < d then f + 1 else if even f then f else f + 1)"

text \<open>The exponent of the leading bit of a positive rational.\<close>

definition expo :: "rat \<Rightarrow> int" where
  "expo x = (let (n, d) = quotient_of x; k = bitlen n - bitlen d in if x < 2 powi k then k - 1 else k)"

definition quantum :: "rat \<Rightarrow> int" where
  "quantum x = max (- 1074) (expo x - 52)"

definition rnd_pos :: "rat \<Rightarrow> rat" where
  "rnd_pos x = (let q = 2 powi quantum x in of_int (rhe (x / q)) * q)"

definition rnd :: "rat \<Rightarrow> rat" where
  "rnd x = (if x = 0 then 0 else if 0 < x then rnd_pos x else - rnd_pos (- x))"

lemma rhe_bounds: "x - 1 / 2 \<le> of_int (rhe x)" "of_int (rhe x) \<le> x + 1 / 2"
  by (simp_all add: rhe_def Let_def) linarith+

lemma rhe_of_int [simp]: "rhe (of_int k) = k"
  by (simp add: rhe_def)

lemma rhe_mono:
  assumes "x \<le> y"
  shows "rhe x \<le> rhe y"
proof (cases "\<lfloor>x\<rfloor> = \<lfloor>y\<rfloor>")
  case True
  with assms show ?thesis by (auto simp: rhe_def Let_def)
next
  case False
  then have "\<lfloor>x\<rfloor> + 1 \<le> \<lfloor>y\<rfloor>" using floor_mono [OF assms] by simp
  moreover have "rhe x \<le> \<lfloor>x\<rfloor> + 1" "\<lfloor>y\<rfloor> \<le> rhe y" by (simp_all add: rhe_def Let_def)
  ultimately show ?thesis by linarith
qed

lemma expo_bounds:
  assumes "0 < x"
  shows "2 powi expo x \<le> x" "x < 2 powi (expo x + 1)"
proof -
  obtain n d where nd: "quotient_of x = (n, d)" by fastforce
  have d: "0 < d" by (rule quotient_of_denom_pos [OF nd])
  have x: "x = of_int n / of_int d" by (rule quotient_of_div [OF nd])
  then have n: "0 < n" using assms d by (simp add: zero_less_divide_iff)
  define k where "k = bitlen n - bitlen d"
  have pb: "(2::rat) powi (bitlen m - 1) \<le> of_int m" "of_int m < (2::rat) powi bitlen m" if m: "0 < m" for m
  proof -
    have b: "0 < bitlen m" using m bitlen_nonneg [of m] bitlen_eq_zero_iff [of m] by linarith
    have "(2::rat) powi (bitlen m - 1) = of_int (2 ^ nat (bitlen m - 1))"
      using b by (simp add: power_int_def)
    then show "(2::rat) powi (bitlen m - 1) \<le> of_int m"
      using bitlen_bounds [OF m] by (simp only: of_int_le_iff)
    have "(2::rat) powi bitlen m = of_int (2 ^ nat (bitlen m))"
      using b by (simp add: power_int_def)
    then show "of_int m < (2::rat) powi bitlen m"
      using bitlen_bounds [OF m] by (simp only: of_int_less_iff)
  qed
  have hi: "x < 2 powi (k + 1)"
  proof -
    have "x < 2 powi bitlen n / 2 powi (bitlen d - 1)"
      unfolding x using pb [OF n] pb [OF d] n by (intro frac_less) auto
    also have "\<dots> = 2 powi (k + 1)" by (simp add: k_def power_int_diff power_int_add)
    finally show ?thesis .
  qed
  have lo: "2 powi (k - 1) \<le> x"
  proof -
    have "2 powi (k - 1) = 2 powi (bitlen n - 1) / (2::rat) powi bitlen d" by (simp add: k_def power_int_diff)
    also have "\<dots> \<le> x" unfolding x using pb [OF n] pb [OF d] n d by (intro frac_le) auto
    finally show ?thesis .
  qed
  show "2 powi expo x \<le> x" "x < 2 powi (expo x + 1)"
    using hi lo by (auto simp: expo_def nd Let_def k_def)
qed

lemma expo_less_iff:
  assumes "0 < x" "x < 2 powi k"
  shows "expo x < k"
proof (rule ccontr)
  assume "\<not> expo x < k"
  then have "(2::rat) powi k \<le> 2 powi expo x" by (intro power_int_increasing) auto
  with assms expo_bounds(1) [OF assms(1)] show False by linarith
qed

lemma expo_mono:
  assumes "0 < x" "x \<le> y"
  shows "expo x \<le> expo y"
  using expo_less_iff [of x "expo y + 1"] expo_bounds(2) [of y] assms by simp

lemma quantum_mono: "0 < x \<Longrightarrow> x \<le> y \<Longrightarrow> quantum x \<le> quantum y"
  using expo_mono [of x y] by (auto simp: quantum_def)

lemma rnd_pos_nonneg: "0 < x \<Longrightarrow> 0 \<le> rnd_pos x"
  using rhe_mono [of 0 "x / 2 powi quantum x"] by (simp add: rnd_pos_def Let_def rhe_def)

lemma rnd_pos_le:
  assumes "0 < x"
  shows "rnd_pos x \<le> 2 powi (quantum x + 53)"
proof -
  have "expo x + 1 \<le> quantum x + 53" by (simp add: quantum_def)
  then have "(2::rat) powi (expo x + 1) \<le> 2 powi (quantum x + 53)" by (intro power_int_increasing) auto
  with expo_bounds(2) [OF assms] have "x \<le> 2 powi (quantum x + 53)" by linarith
  then have "x / 2 powi quantum x \<le> of_int (2 ^ 53)" by (simp add: divide_le_eq power_int_add)
  from rhe_mono [OF this] have "rhe (x / 2 powi quantum x) \<le> 2 ^ 53" by (simp only: rhe_of_int)
  then have "(of_int (rhe (x / 2 powi quantum x)) :: rat) \<le> of_int (2 ^ 53)" by (simp only: of_int_le_iff)
  then have "of_int (rhe (x / 2 powi quantum x)) * 2 powi quantum x \<le> (2 ^ 53) * (2::rat) powi quantum x"
    by (intro mult_right_mono) auto
  then show ?thesis by (simp add: rnd_pos_def Let_def power_int_add mult.commute)
qed

lemma rnd_pos_ge:
  assumes "0 < x" "- 1074 < quantum x"
  shows "2 powi (quantum x + 52) \<le> rnd_pos x"
proof -
  have "quantum x + 52 = expo x" using assms(2) by (auto simp: quantum_def)
  with expo_bounds(1) [OF assms(1)] have "2 powi (quantum x + 52) \<le> x" by simp
  then have "of_int (2 ^ 52) \<le> x / 2 powi quantum x" by (simp add: le_divide_eq power_int_add mult.commute)
  from rhe_mono [OF this] have "2 ^ 52 \<le> rhe (x / 2 powi quantum x)" by (simp only: rhe_of_int)
  then have "(of_int (2 ^ 52) :: rat) \<le> of_int (rhe (x / 2 powi quantum x))" by (simp only: of_int_le_iff)
  then have "(2 ^ 52) * (2::rat) powi quantum x \<le> of_int (rhe (x / 2 powi quantum x)) * 2 powi quantum x"
    by (intro mult_right_mono) auto
  then show ?thesis by (simp add: rnd_pos_def Let_def power_int_add mult.commute)
qed

lemma rnd_pos_mono:
  assumes "0 < x" "x \<le> y"
  shows "rnd_pos x \<le> rnd_pos y"
proof (cases "quantum x = quantum y")
  case True
  have "rhe (x / 2 powi quantum x) \<le> rhe (y / 2 powi quantum x)"
    using assms by (intro rhe_mono divide_right_mono) auto
  then show ?thesis using True by (simp add: rnd_pos_def Let_def)
next
  case False
  then have lt: "quantum x + 53 \<le> quantum y + 52" using quantum_mono [OF assms] by simp
  have "- 1074 \<le> quantum x" by (simp add: quantum_def)
  then have "rnd_pos y \<ge> 2 powi (quantum y + 52)" using lt assms by (intro rnd_pos_ge) auto
  moreover have "(2::rat) powi (quantum x + 53) \<le> 2 powi (quantum y + 52)" using lt by (intro power_int_increasing) auto
  ultimately show ?thesis using rnd_pos_le [OF assms(1)] by linarith
qed

lemma rnd_minus [simp]: "rnd (- x) = - rnd x"
  by (simp add: rnd_def)

lemma rnd_0 [simp]: "rnd 0 = 0"
  by (simp add: rnd_def)

lemma rnd_mono:
  assumes "x \<le> y"
  shows "rnd x \<le> rnd y"
proof -
  consider "0 < x" | "x \<le> 0" "0 \<le> y" | "y < 0" by linarith
  then show ?thesis
  proof cases
    case 1
    then show ?thesis using assms rnd_pos_mono [of x y] by (simp add: rnd_def)
  next
    case 2
    then show ?thesis using rnd_pos_nonneg [of y] rnd_pos_nonneg [of "- x"] by (auto simp: rnd_def)
  next
    case 3
    then show ?thesis using assms rnd_pos_mono [of "- y" "- x"] by (simp add: rnd_def)
  qed
qed

text \<open>Values of at most 53 significant bits are not changed.\<close>

lemma rnd_pos_exact:
  assumes "0 < m" "m < 2 ^ 53" "- 1074 \<le> e"
  shows "rnd_pos (of_int m * 2 powi e) = of_int m * 2 powi e"
proof -
  let ?x = "of_int m * (2::rat) powi e"
  have pos: "0 < ?x" using assms(1) by simp
  have "(of_int m :: rat) < of_int (2 ^ 53)" using assms(2) by (simp only: of_int_less_iff)
  then have "?x < 2 powi (53 + e)" by (simp add: power_int_add)
  then have "expo ?x < 53 + e" using pos by (intro expo_less_iff)
  then have "quantum ?x \<le> e" using assms(3) by (simp add: quantum_def)
  then obtain k where k: "e = quantum ?x + int k" by (metis nonneg_int_cases le_add_diff_inverse diff_ge_0_iff_ge add.commute diff_add_cancel)
  have "?x / 2 powi quantum ?x = of_int m * 2 powi (e - quantum ?x)" by (simp add: power_int_diff)
  also have "\<dots> = of_int (m * 2 ^ k)" using k by (metis add_diff_cancel_left' of_int_mult of_int_numeral of_int_power power_int_of_nat)
  finally have "?x / 2 powi quantum ?x = of_int (m * 2 ^ k)" .
  then have "rnd_pos ?x = (?x / 2 powi quantum ?x) * 2 powi quantum ?x"
    unfolding rnd_pos_def Let_def by (simp only: rhe_of_int)
  then show ?thesis by simp
qed

lemma rnd_of_int:
  assumes "\<bar>m\<bar> < 2 ^ 53"
  shows "rnd (of_int m) = of_int m"
  using rnd_pos_exact [of m 0] rnd_pos_exact [of "- m" 0] assms by (auto simp: rnd_def)

text \<open>Integers below \<open>2^53\<close> are evaluated without searching for their exponent.\<close>

lemma rnd_code [code]:
  "rnd x = (case quotient_of x of (n, d) \<Rightarrow>
     if d = 1 \<and> \<bar>n\<bar> < 9007199254740992 then x
     else if x = 0 then 0 else if 0 < x then rnd_pos x else - rnd_pos (- x))"
proof -
  obtain n d where nd: "quotient_of x = (n, d)" by fastforce
  have "rnd x = x" if "d = 1" "\<bar>n\<bar> < 9007199254740992"
  proof -
    have "x = of_int n" using quotient_of_div [OF nd] that(1) by simp
    then show ?thesis using rnd_of_int [of n] that(2) by simp
  qed
  then show ?thesis unfolding nd by (auto simp: rnd_def)
qed

section \<open>Values and operations\<close>

datatype float64 = Fin rat | Inf bool | NaN

text \<open>\<open>Inf True\<close> is the positive infinity. A result beyond the largest finite value overflows.\<close>

definition maxfloat :: rat where
  "maxfloat = of_int (2 ^ 53 - 1) * 2 ^ 971"

lemma maxfloat_code [code]:
  "maxfloat =
    179769313486231570814527423731704356798070567525844996598917476803157260780028538760589558632766878171540458953514382464234321326889464182768467546703537516986049910576551282076245490090389328944075868508455133942304583236903222948165808559332123348274797826204144723168738177180919299881250404026184124858368"
  by (simp add: maxfloat_def)

definition f64 :: "rat \<Rightarrow> float64" where
  "f64 x = (let r = rnd x in if maxfloat < r then Inf True else if r < - maxfloat then Inf False else Fin r)"

lemma f64_code [code]:
  "f64 x = (let r = rnd x in if \<bar>r\<bar> \<le> 9007199254740992 then Fin r
     else if maxfloat < r then Inf True else if r < - maxfloat then Inf False else Fin r)"
proof -
  have "(9007199254740992::rat) \<le> maxfloat" by (simp add: maxfloat_def)
  then show ?thesis by (auto simp: f64_def Let_def)
qed

definition f64_of_int64 :: "int64 \<Rightarrow> float64" where
  "f64_of_int64 n = f64 (of_int (sint n))"

fun f_neg :: "float64 \<Rightarrow> float64" where
  "f_neg (Fin x) = Fin (- x)"
| "f_neg (Inf b) = Inf (\<not> b)"
| "f_neg NaN = NaN"

fun f_add :: "float64 \<Rightarrow> float64 \<Rightarrow> float64" where
  "f_add (Fin x) (Fin y) = f64 (x + y)"
| "f_add (Fin x) (Inf b) = Inf b"
| "f_add (Inf b) (Fin x) = Inf b"
| "f_add (Inf b) (Inf c) = (if b = c then Inf b else NaN)"
| "f_add _ _ = NaN"

definition f_sub :: "float64 \<Rightarrow> float64 \<Rightarrow> float64" where
  "f_sub x y = f_add x (f_neg y)"

fun f_mul :: "float64 \<Rightarrow> float64 \<Rightarrow> float64" where
  "f_mul (Fin x) (Fin y) = f64 (x * y)"
| "f_mul (Fin x) (Inf b) = (if x = 0 then NaN else Inf (b = (0 < x)))"
| "f_mul (Inf b) (Fin x) = (if x = 0 then NaN else Inf (b = (0 < x)))"
| "f_mul (Inf b) (Inf c) = Inf (b = c)"
| "f_mul _ _ = NaN"

fun f_div :: "float64 \<Rightarrow> float64 \<Rightarrow> float64" where
  "f_div (Fin x) (Fin y) = (if y = 0 then (if x = 0 then NaN else Inf (0 < x)) else f64 (x / y))"
| "f_div (Fin x) (Inf b) = Fin 0"
| "f_div (Inf b) (Fin x) = Inf (b = (0 \<le> x))"
| "f_div (Inf b) (Inf c) = NaN"
| "f_div _ _ = NaN"

fun f_less :: "float64 \<Rightarrow> float64 \<Rightarrow> bool" where
  "f_less (Fin x) (Fin y) = (x < y)"
| "f_less (Fin x) (Inf b) = b"
| "f_less (Inf b) (Fin x) = (\<not> b)"
| "f_less (Inf b) (Inf c) = (\<not> b \<and> c)"
| "f_less _ _ = False"

fun f_le :: "float64 \<Rightarrow> float64 \<Rightarrow> bool" where
  "f_le NaN _ = False"
| "f_le _ NaN = False"
| "f_le x y = (\<not> f_less y x)"

text \<open>\<open>math.Max\<close> and \<open>math.Min\<close>: an infinity wins over a not-a-number, which wins over a number.\<close>

definition math_Max :: "float64 \<Rightarrow> float64 \<Rightarrow> float64" where
  "math_Max x y = (if x = Inf True \<or> y = Inf True then Inf True else if x = NaN \<or> y = NaN then NaN
     else if f_less y x then x else y)"

definition math_Min :: "float64 \<Rightarrow> float64 \<Rightarrow> float64" where
  "math_Min x y = (if x = Inf False \<or> y = Inf False then Inf False else if x = NaN \<or> y = NaN then NaN
     else if f_less x y then x else y)"

definition is_finite :: "float64 \<Rightarrow> bool" where
  "is_finite x = (case x of Fin _ \<Rightarrow> True | _ \<Rightarrow> False)"

text \<open>\<open>math.Max(0, math.Min(1, x))\<close>\<close>

definition clamp01 :: "float64 \<Rightarrow> float64" where
  "clamp01 x = math_Max (Fin 0) (math_Min (Fin 1) x)"

lemma clamp01_Fin [simp]: "clamp01 (Fin x) = Fin (max 0 (min 1 x))"
  by (auto simp: clamp01_def math_Max_def math_Min_def)

lemma clamp01_Inf [simp]: "clamp01 (Inf b) = Fin (if b then 1 else 0)"
  by (auto simp: clamp01_def math_Max_def math_Min_def)

lemma clamp01_NaN [simp]: "clamp01 NaN = NaN"
  by (auto simp: clamp01_def math_Max_def math_Min_def)

lemma clamp01_range: "x \<noteq> NaN \<Longrightarrow> \<exists>r. clamp01 x = Fin r \<and> 0 \<le> r \<and> r \<le> 1"
  by (cases x) auto

lemma rnd_pow2: "- 1074 \<le> k \<Longrightarrow> rnd (2 powi k) = 2 powi k"
  using rnd_pos_exact [of 1 k] by (simp add: rnd_def)

lemma pow2_le_maxfloat: "k \<le> 1023 \<Longrightarrow> (2::rat) ^ k \<le> maxfloat"
proof -
  assume "k \<le> 1023"
  then have "(2::rat) ^ k \<le> 2 ^ 1023" by (intro power_increasing) auto
  also have "(2::rat) ^ 1023 \<le> maxfloat" by (simp add: maxfloat_def)
  finally show ?thesis .
qed

lemma f64_finite:
  assumes "\<bar>x\<bar> \<le> 2 ^ k" "k \<le> 1023"
  shows "f64 x = Fin (rnd x)"
proof -
  have p: "rnd (2 ^ k) = 2 ^ k" using rnd_pow2 [of "int k"] by simp
  have "rnd x \<le> 2 ^ k" "- (2 ^ k) \<le> rnd x"
    using rnd_mono [of x "2 ^ k"] rnd_mono [of "- (2 ^ k)" x] assms(1) p by (simp_all add: abs_le_iff)
  then have "\<bar>rnd x\<bar> \<le> maxfloat" using pow2_le_maxfloat [OF assms(2)] by linarith
  then show ?thesis by (auto simp: f64_def Let_def abs_le_iff)
qed

lemma f64_of_small_int:
  assumes "\<bar>k\<bar> < 2 ^ 53"
  shows "f64 (of_int k) = Fin (of_int k)"
proof -
  have "\<bar>of_int k :: rat\<bar> \<le> of_int (2 ^ 53)" using assms by (simp only: of_int_abs [symmetric] of_int_le_iff)
  then show ?thesis using f64_finite [of "of_int k" 53] rnd_of_int [OF assms] by simp
qed

lemma f64_of_int64_finite: "f64_of_int64 n = Fin (rnd (of_int (sint n)))"
proof -
  have "\<bar>of_int (sint n) :: rat\<bar> \<le> of_int (2 ^ 63)"
    using sint64_bounds [of n] by (simp only: of_int_abs [symmetric] of_int_le_iff)
  then show ?thesis unfolding f64_of_int64_def by (intro f64_finite [of _ 63]) simp_all
qed

text \<open>Rounding, subtraction from one and clamping respect the order.\<close>

lemma f64_mono: "x \<le> y \<Longrightarrow> f_le (f64 x) (f64 y)"
  using rnd_mono [of x y] by (auto simp: f64_def Let_def maxfloat_def)

lemma f_sub_antimono: "f_le x y \<Longrightarrow> f_le (f_sub (Fin a) y) (f_sub (Fin a) x)"
  using f64_mono [of "a - u" "a - v" for u v]
  by (cases x; cases y) (auto simp: f_sub_def not_less f64_def Let_def split: if_splits)

lemma clamp01_mono:
  assumes "f_le x y"
  shows "\<exists>a b. clamp01 x = Fin a \<and> clamp01 y = Fin b \<and> 0 \<le> a \<and> a \<le> b \<and> b \<le> 1"
  using assms by (cases x; cases y) (auto simp: not_less)

lemma f64_not_NaN [simp]: "f64 x \<noteq> NaN"
  by (simp add: f64_def Let_def)

lemma rnd_bound: "\<bar>x\<bar> \<le> 2 ^ k \<Longrightarrow> \<bar>rnd x\<bar> \<le> 2 ^ k"
  using rnd_mono [of x "2 ^ k"] rnd_mono [of "- (2 ^ k)" x] rnd_pow2 [of "int k"] by (simp add: abs_le_iff)

lemma rnd_1 [simp]: "rnd 1 = 1"
  using rnd_of_int [of 1] by simp

section \<open>What clients of rounding rely on\<close>

text \<open>
  Bounds and monotonicity of a computed score need of rounding only that it is monotone and keeps
  zero; the facts are proved once for every such function.
\<close>

definition weigh3 :: "(rat \<Rightarrow> rat) \<Rightarrow> rat \<Rightarrow> rat \<Rightarrow> rat \<Rightarrow> rat \<Rightarrow> rat \<Rightarrow> rat \<Rightarrow> rat" where
  "weigh3 r w1 w2 w3 x y z = r (r (r (x * w1) + r (y * w2)) + r (z * w3))"

locale monotone_rounding =
  fixes r :: "rat \<Rightarrow> rat"
  assumes r_mono: "x \<le> y \<Longrightarrow> r x \<le> r y" and r_zero: "r 0 = 0"
begin

lemma weigh3_mono:
  assumes "0 \<le> w1" "0 \<le> w2" "0 \<le> w3" "x \<le> x'" "y \<le> y'" "z \<le> z'"
  shows "weigh3 r w1 w2 w3 x y z \<le> weigh3 r w1 w2 w3 x' y' z'"
  unfolding weigh3_def using assms by (intro r_mono add_mono mult_right_mono)

lemma weigh3_zero: "weigh3 r w1 w2 w3 0 0 0 = 0"
  by (simp add: weigh3_def r_zero)

lemma weigh3_range:
  assumes "0 \<le> w1" "0 \<le> w2" "0 \<le> w3" "x \<in> {0..1}" "y \<in> {0..1}" "z \<in> {0..1}"
  shows "weigh3 r w1 w2 w3 x y z \<in> {0 .. weigh3 r w1 w2 w3 1 1 1}"
  using weigh3_mono [of w1 w2 w3 0 x 0 y 0 z] weigh3_mono [of w1 w2 w3 x 1 y 1 z 1] assms weigh3_zero by simp

end

interpretation b64: monotone_rounding rnd
  by unfold_locales (simp_all add: rnd_mono)

lemma f_weigh3:
  assumes "\<bar>x\<bar> \<le> 2 ^ k" "\<bar>y\<bar> \<le> 2 ^ k" "\<bar>z\<bar> \<le> 2 ^ k" "\<bar>w1\<bar> \<le> 1" "\<bar>w2\<bar> \<le> 1" "\<bar>w3\<bar> \<le> 1" "k \<le> 1021"
  shows "f_add (f_add (f_mul (Fin x) (Fin w1)) (f_mul (Fin y) (Fin w2))) (f_mul (Fin z) (Fin w3)) = Fin (weigh3 rnd w1 w2 w3 x y z)"
proof -
  have m: "\<bar>u * w\<bar> \<le> 2 ^ k" if "\<bar>u\<bar> \<le> 2 ^ k" "\<bar>w\<bar> \<le> 1" for u w :: rat
    using mult_mono [OF that] by (simp add: abs_mult)
  note p = m [OF assms(1,4)] m [OF assms(2,5)] m [OF assms(3,6)]
  note q = p [THEN rnd_bound]
  have s: "\<bar>rnd (x * w1) + rnd (y * w2)\<bar> \<le> 2 ^ (k + 1)" using q(1,2) by simp
  have t: "\<bar>rnd (rnd (x * w1) + rnd (y * w2)) + rnd (z * w3)\<bar> \<le> 2 ^ (k + 2)"
    using rnd_bound [OF s] q(3) by simp
  show ?thesis
    using f64_finite [OF p(1)] f64_finite [OF p(2)] f64_finite [OF p(3)] f64_finite [OF s] f64_finite [OF t] assms(7)
    by (simp add: weigh3_def)
qed

end
