(* ===== verification/Sequences.thy ===== *)
theory Sequences
  imports Orderbook Float64
begin

text \<open>
  The order sequences of the bot runner (\<open>src/services/bot-runner/sequence.go\<close>): the load
  sequences of each bot, in its price band, and the correctness sequences with their expectations.
\<close>

section \<open>Steps\<close>

datatype StepKind = StepOrder | StepCancel

record Step =
  st_Kind :: StepKind
  st_Side :: string
  st_OrderType :: string
  st_Price :: price
  st_Quantity :: int64
  st_Tag :: string
  st_CancelTag :: string
  st_ExpectFill :: bool
  st_ExpectFillPrice :: price
  st_ExpectFillQty :: int64
  st_ExpectReject :: bool
  st_ExpectBookBids :: int
  st_ExpectBookAsks :: int

record Sequence =
  sq_Name :: string
  sq_Steps :: "Step list"

text \<open>The fields a composite literal leaves out have the zero value of their type.\<close>

definition zero_Step :: Step where
  "zero_Step = \<lparr>st_Kind = StepOrder, st_Side = [], st_OrderType = [], st_Price = 0, st_Quantity = 0, st_Tag = [],
     st_CancelTag = [], st_ExpectFill = False, st_ExpectFillPrice = 0, st_ExpectFillQty = 0, st_ExpectReject = False,
     st_ExpectBookBids = 0, st_ExpectBookAsks = 0\<rparr>"

definition limit_step :: "string \<Rightarrow> string \<Rightarrow> price \<Rightarrow> int64 \<Rightarrow> Step" where
  "limit_step tag side p q = zero_Step\<lparr>st_Kind := StepOrder, st_Tag := tag, st_Side := side,
     st_OrderType := ''limit'', st_Price := p, st_Quantity := q\<rparr>"

definition market_step :: "string \<Rightarrow> string \<Rightarrow> int64 \<Rightarrow> Step" where
  "market_step tag side q = zero_Step\<lparr>st_Kind := StepOrder, st_Tag := tag, st_Side := side,
     st_OrderType := ''market'', st_Quantity := q\<rparr>"

definition cancel_step :: "string \<Rightarrow> Step" where
  "cancel_step tag = zero_Step\<lparr>st_Kind := StepCancel, st_CancelTag := tag\<rparr>"

definition expect_book :: "int \<Rightarrow> int \<Rightarrow> Step \<Rightarrow> Step" where
  "expect_book b a st = st\<lparr>st_ExpectBookBids := b, st_ExpectBookAsks := a\<rparr>"

definition orderID :: "int \<Rightarrow> int \<Rightarrow> string \<Rightarrow> string" where
  "orderID botID iteration tag = ''b'' @ dec botID @ ''-i'' @ dec iteration @ ''-'' @ tag"

definition basePrice :: "int64 \<Rightarrow> price" where
  "basePrice botID = rnd (of_int (sint ((botID + 1) * 1000)))"

section \<open>Load sequences\<close>

definition basicMatch :: "int64 \<Rightarrow> Sequence" where
  "basicMatch botID =
     (let p = basePrice botID
      in \<lparr>sq_Name = ''basic_match'',
          sq_Steps = [limit_step ''bid1'' ''buy'' p 10, limit_step ''ask1'' ''sell'' p 10]\<rparr>)"

definition partialFillLadder :: "int64 \<Rightarrow> Sequence" where
  "partialFillLadder botID =
     (let p = basePrice botID
      in \<lparr>sq_Name = ''partial_fill_ladder'',
          sq_Steps = [limit_step ''bid-0'' ''buy'' p 5, limit_step ''bid-1'' ''buy'' (rnd (p - 1)) 5,
                      limit_step ''bid-2'' ''buy'' (rnd (p - 2)) 5, market_step ''sweep'' ''sell'' 15]\<rparr>)"

definition cancelCorrectness :: "int64 \<Rightarrow> Sequence" where
  "cancelCorrectness botID =
     (let p = basePrice botID
      in \<lparr>sq_Name = ''cancel_correctness'',
          sq_Steps = [limit_step ''resting'' ''buy'' p 10, cancel_step ''resting'',
                      limit_step ''probe'' ''sell'' p 10, cancel_step ''probe'']\<rparr>)"

definition sequences :: "int64 \<Rightarrow> Sequence list" where
  "sequences botID = [basicMatch botID, partialFillLadder botID, cancelCorrectness botID]"

section \<open>Correctness sequences\<close>

definition correctnessBasePrice :: price where
  "correctnessBasePrice = 500"

definition cxBasicMatch :: Sequence where
  "cxBasicMatch =
     (let p = correctnessBasePrice
      in \<lparr>sq_Name = ''cx_basic_match'',
          sq_Steps = [expect_book 1 (-1) (limit_step ''bid'' ''buy'' p 10),
            expect_book 0 0 ((limit_step ''ask'' ''sell'' p 10)
              \<lparr>st_ExpectFill := True, st_ExpectFillPrice := p, st_ExpectFillQty := 10\<rparr>)]\<rparr>)"

definition cxPriorityFill :: Sequence where
  "cxPriorityFill =
     (let p = correctnessBasePrice
      in \<lparr>sq_Name = ''cx_priority_fill'',
          sq_Steps = [expect_book 1 (-1) (limit_step ''bid-lo'' ''buy'' p 5),
            expect_book 2 (-1) (limit_step ''bid-hi'' ''buy'' (rnd (p + 1)) 5),
            expect_book 0 0 ((limit_step ''sell'' ''sell'' p 10)
              \<lparr>st_ExpectFill := True, st_ExpectFillPrice := rnd (p + 1)\<rparr>)]\<rparr>)"

definition cxPartialFill :: Sequence where
  "cxPartialFill =
     (let p = rnd (correctnessBasePrice + 10)
      in \<lparr>sq_Name = ''cx_partial_fill'',
          sq_Steps = [expect_book 1 (-1) (limit_step ''bid'' ''buy'' p 10),
            expect_book 1 0 ((limit_step ''ask'' ''sell'' p 3)
              \<lparr>st_ExpectFill := True, st_ExpectFillPrice := p, st_ExpectFillQty := 3\<rparr>),
            expect_book 0 0 (cancel_step ''bid'')]\<rparr>)"

definition cxCancel :: Sequence where
  "cxCancel =
     (let p = rnd (correctnessBasePrice + 20)
      in \<lparr>sq_Name = ''cx_cancel'',
          sq_Steps = [expect_book 1 (-1) (limit_step ''bid'' ''buy'' p 10),
            expect_book 0 0 (cancel_step ''bid''),
            expect_book 0 1 (limit_step ''ask'' ''sell'' p 10),
            expect_book 0 0 (cancel_step ''ask'')]\<rparr>)"

definition cxRejectMarketNoLiquidity :: Sequence where
  "cxRejectMarketNoLiquidity =
     \<lparr>sq_Name = ''cx_reject_market_no_liquidity'',
      sq_Steps = [expect_book 0 0 ((market_step ''mkt'' ''sell'' 10)\<lparr>st_ExpectReject := True\<rparr>)]\<rparr>"

definition CorrectnessSequences :: "Sequence list" where
  "CorrectnessSequences = [cxBasicMatch, cxPriorityFill, cxPartialFill, cxCancel, cxRejectMarketNoLiquidity]"

section \<open>Order ids and prices\<close>

lemma dec_inject: "0 \<le> a \<Longrightarrow> 0 \<le> b \<Longrightarrow> dec a = dec b \<longleftrightarrow> a = b"
  by (simp add: dec_def eq_nat_nat_iff)

lemma dec_nonneg_digits: "0 \<le> a \<Longrightarrow> c \<in> set (dec a) \<Longrightarrow> is_digit c"
  using dec_nat_digits by (simp add: dec_def)

lemma not_digit_dash: "\<not> is_digit (CHR ''-'')"
  by (simp add: is_digit_def byte_def)

lemma orderID_inject:
  assumes "0 \<le> b" "0 \<le> b'" "0 \<le> i" "0 \<le> i'"
  shows "orderID b i tag = orderID b' i' tag' \<longleftrightarrow> b = b' \<and> i = i' \<and> tag = tag'"
proof
  assume "orderID b i tag = orderID b' i' tag'"
  then have e: "dec b @ CHR ''-'' # (CHR ''i'' # dec i @ CHR ''-'' # tag) = dec b' @ CHR ''-'' # (CHR ''i'' # dec i' @ CHR ''-'' # tag')"
    by (simp add: orderID_def)
  have nd: "CHR ''-'' \<notin> set (dec x)" if "0 \<le> x" for x
    using dec_nonneg_digits [OF that] not_digit_dash by blast
  from append_sep_inject [OF e nd [OF assms(1)] nd [OF assms(2)]]
  have "dec b = dec b'" and e2: "dec i @ CHR ''-'' # tag = dec i' @ CHR ''-'' # tag'" by simp_all
  moreover from append_sep_inject [OF e2 nd [OF assms(3)] nd [OF assms(4)]]
  have "dec i = dec i'" "tag = tag'" by simp_all
  ultimately show "b = b' \<and> i = i' \<and> tag = tag'" using assms by (simp add: dec_inject)
qed simp

lemma basePrice_exact:
  assumes "0 \<le> sint b" "sint b < 2 ^ 40"
  shows "basePrice b = of_int ((sint b + 1) * 1000)"
proof -
  have "sint (b + 1) = sint b + 1" using assms by (subst sint64_add) simp_all
  moreover have "sint ((b + 1) * 1000) = sint (b + 1) * 1000"
    using assms calculation by (simp add: sint_word_ariths signed_take_bit_int_eq_self)
  ultimately show ?thesis
    unfolding basePrice_def using assms by (simp only:) (rule rnd_of_int, simp)
qed

end
