(* ===== verification/Load_Bot.thy ===== *)
theory Load_Bot
  imports Sequences Transition
begin

text \<open>
  The asynchronous load bot (\<open>src/services/bot-runner/bot.go\<close> and \<open>metrics.go\<close>): a writer that plays
  the bot's sequence over and over with at most a bounded number of orders in flight, a reader that
  accounts for the replies and a collector of stale orders. The three goroutines share the map of
  pending orders under a mutex; every critical section is one step. The latency histograms are a
  library: recording into one is a parameter.
\<close>

section \<open>Metrics\<close>

record 'h BotMetrics =
  ackLatency :: 'h
  fillLatency :: 'h
  ordersSent :: int
  acksRecv :: int
  fillsRecv :: int
  rejectsRecv :: int
  staleOrders :: int

definition NewBotMetrics :: "'h \<Rightarrow> 'h BotMetrics" where
  "NewBotMetrics h = \<lparr>ackLatency = h, fillLatency = h, ordersSent = 0, acksRecv = 0, fillsRecv = 0,
     rejectsRecv = 0, staleOrders = 0\<rparr>"

text \<open>Durations are nanoseconds; \<open>Microseconds\<close> truncates towards zero.\<close>

definition microseconds :: "int \<Rightarrow> int" where
  "microseconds d = (if 0 \<le> d then d div 1000 else - ((- d) div 1000))"

definition recordAck :: "(int \<Rightarrow> 'h \<Rightarrow> 'h) \<Rightarrow> int \<Rightarrow> 'h BotMetrics \<Rightarrow> 'h BotMetrics" where
  "recordAck RecordValue d m = m\<lparr>ackLatency := RecordValue (microseconds d) (ackLatency m), acksRecv := acksRecv m + 1\<rparr>"

definition recordFill :: "(int \<Rightarrow> 'h \<Rightarrow> 'h) \<Rightarrow> int \<Rightarrow> 'h BotMetrics \<Rightarrow> 'h BotMetrics" where
  "recordFill RecordValue d m = m\<lparr>fillLatency := RecordValue (microseconds d) (fillLatency m), fillsRecv := fillsRecv m + 1\<rparr>"

record 'h AggregateMetrics = "'h BotMetrics" +
  ackDropped :: int
  fillDropped :: int

text \<open>\<open>Merge\<close> of the histogram library gives the merged histogram and the number of dropped values.\<close>

definition merge_bot :: "('h \<Rightarrow> 'h \<Rightarrow> int \<times> 'h) \<Rightarrow> 'h BotMetrics \<Rightarrow> 'h AggregateMetrics \<Rightarrow> 'h AggregateMetrics" where
  "merge_bot Merge b agg =
     (let (da, ha) = Merge (ackLatency agg) (ackLatency b);
          (df, hf) = Merge (fillLatency agg) (fillLatency b)
      in agg\<lparr>ackLatency := ha, ackDropped := ackDropped agg + da, fillLatency := hf, fillDropped := fillDropped agg + df,
            ordersSent := ordersSent agg + ordersSent b, acksRecv := acksRecv agg + acksRecv b,
            fillsRecv := fillsRecv agg + fillsRecv b, rejectsRecv := rejectsRecv agg + rejectsRecv b,
            staleOrders := staleOrders agg + staleOrders b\<rparr>)"

definition merge :: "('h \<Rightarrow> 'h \<Rightarrow> int \<times> 'h) \<Rightarrow> 'h \<Rightarrow> 'h BotMetrics list \<Rightarrow> 'h AggregateMetrics" where
  "merge Merge h bots =
     fold (merge_bot Merge) bots
       \<lparr>ackLatency = h, fillLatency = h, ordersSent = 0, acksRecv = 0, fillsRecv = 0, rejectsRecv = 0, staleOrders = 0,
        ackDropped = 0, fillDropped = 0\<rparr>"

section \<open>Templates\<close>

text \<open>The \<open>%f\<close> verb: six decimals, correctly rounded.\<close>

definition pad6 :: "string \<Rightarrow> string" where
  "pad6 s = replicate (6 - length s) (CHR ''0'') @ s"

definition fmt_f :: "price \<Rightarrow> string" where
  "fmt_f p =
     (let n = rhe (\<bar>p\<bar> * 1000000)
      in (if p < 0 then ''-'' else '''') @ dec (n div 1000000) @ ''.'' @ pad6 (dec (n mod 1000000)))"

definition quoted :: "string \<Rightarrow> string" where
  "quoted s = [CHR 0x22] @ s @ [CHR 0x22]"

definition json_field :: "string \<Rightarrow> string \<Rightarrow> string" where
  "json_field key val = quoted key @ '':'' @ val"

definition order_text :: "string \<Rightarrow> Step \<Rightarrow> string" where
  "order_text oid step =
     ''{'' @ json_field ''type'' (quoted ''order'') @ '','' @ json_field ''order_id'' (quoted oid) @ '','' @
     json_field ''side'' (quoted (st_Side step)) @ '','' @ json_field ''order_type'' (quoted (st_OrderType step)) @ '','' @
     json_field ''price'' (fmt_f (st_Price step)) @ '','' @ json_field ''quantity'' (dec (sint (st_Quantity step))) @ ''}''"

definition cancel_text :: "string \<Rightarrow> string" where
  "cancel_text oid = ''{'' @ json_field ''type'' (quoted ''cancel'') @ '','' @ json_field ''order_id'' (quoted oid) @ ''}''"

record stepTemplate =
  tm_isCancel :: bool
  tm_payload :: string
  tm_tag :: string
  tm_cancelTag :: string

definition make_template :: "Step \<Rightarrow> stepTemplate" where
  "make_template step =
     (if st_Kind step = StepOrder
      then \<lparr>tm_isCancel = False, tm_payload = order_text ''%s'' step, tm_tag = st_Tag step, tm_cancelTag = ''''\<rparr>
      else \<lparr>tm_isCancel = True, tm_payload = cancel_text ''%s'', tm_tag = '''', tm_cancelTag = st_CancelTag step\<rparr>)"

text \<open>\<open>bytes.Replace(s, "%s", new, 1)\<close>: the first occurrence is replaced.\<close>

fun replace_first :: "string \<Rightarrow> string \<Rightarrow> string" where
  "replace_first new [] = []"
| "replace_first new [c] = [c]"
| "replace_first new (c # d # cs) =
     (if c = CHR ''%'' \<and> d = CHR ''s'' then new @ cs else c # replace_first new (d # cs))"

section \<open>The bot\<close>

text \<open>
  The state of a run: the pending orders with their sending times, the counter of orders in flight,
  the metrics, the writer's position (template index, iteration, ids by tag, a payload chosen and
  not yet written) and, for the statements below, the number of acks and fills matched.
\<close>

record 'h BotRun =
  pending :: "string \<rightharpoonup> int"
  inFlight :: int
  metrics :: "'h BotMetrics"
  w_index :: nat
  w_iteration :: int
  w_tagToID :: "string \<rightharpoonup> string"
  w_payload :: "string option"
  n_acks :: int
  n_fills :: int

definition bot_start :: "'h \<Rightarrow> 'h BotRun" where
  "bot_start h = \<lparr>pending = Map.empty, inFlight = 0, metrics = NewBotMetrics h, w_index = 0, w_iteration = 0,
     w_tagToID = Map.empty, w_payload = None, n_acks = 0, n_fills = 0\<rparr>"

text \<open>The reader's critical section for one decoded message, at time \<open>t\<close>.\<close>

definition bot_receive ::
    "(int \<Rightarrow> 'h \<Rightarrow> 'h) \<Rightarrow> int \<Rightarrow> string \<Rightarrow> string \<Rightarrow> int64 \<Rightarrow> 'h BotRun \<Rightarrow> 'h BotRun" where
  "bot_receive RecordValue t typ oid remaining s =
     (case pending s oid of
        None \<Rightarrow> s
      | Some sentAt \<Rightarrow>
          if typ = ''ack'' then
            (let m = recordAck RecordValue (t - sentAt) (metrics s)
             in s\<lparr>metrics := m\<lparr>acksRecv := acksRecv m + 1\<rparr>, n_acks := n_acks s + 1\<rparr>)
          else if typ = ''fill'' then
            (let m = recordFill RecordValue (t - sentAt) (metrics s);
                 s1 = s\<lparr>metrics := m\<lparr>fillsRecv := fillsRecv m + 1\<rparr>, n_fills := n_fills s + 1\<rparr>
             in if remaining = 0 then s1\<lparr>pending := (pending s1)(oid := None), inFlight := inFlight s1 - 1\<rparr> else s1)
          else if typ = ''reject'' then
            s\<lparr>metrics := (metrics s)\<lparr>rejectsRecv := rejectsRecv (metrics s) + 1\<rparr>,
              pending := (pending s)(oid := None), inFlight := inFlight s - 1\<rparr>
          else if typ = ''cancel_ack'' then
            s\<lparr>pending := (pending s)(oid := None), inFlight := inFlight s - 1\<rparr>
          else s)"

text \<open>One turn of the collector's loop over the map, and the whole pass; \<open>ids\<close> is the iteration order.\<close>

definition collect_one :: "int \<Rightarrow> string \<Rightarrow> 'h BotRun \<Rightarrow> 'h BotRun" where
  "collect_one t oid s =
     (case pending s oid of
        None \<Rightarrow> s
      | Some sentAt \<Rightarrow>
          if t - sentAt > 5000000000
          then s\<lparr>pending := (pending s)(oid := None), inFlight := inFlight s - 1,
                 metrics := (metrics s)\<lparr>staleOrders := staleOrders (metrics s) + 1\<rparr>\<rparr>
          else s)"

definition bot_collect :: "int \<Rightarrow> string list \<Rightarrow> 'h BotRun \<Rightarrow> 'h BotRun" where
  "bot_collect t ids s = fold (collect_one t) ids s"

text \<open>The writer at an order template: id and payload are chosen; then, once the backpressure loop has let it
  pass, the order is registered.\<close>

definition bot_choose_order :: "int \<Rightarrow> stepTemplate \<Rightarrow> 'h BotRun \<Rightarrow> string" where
  "bot_choose_order botID tmpl s = orderID botID (w_iteration s) (tm_tag tmpl)"

definition bot_register :: "int \<Rightarrow> int \<Rightarrow> stepTemplate \<Rightarrow> 'h BotRun \<Rightarrow> 'h BotRun" where
  "bot_register t botID tmpl s =
     (let oid = bot_choose_order botID tmpl s
      in s\<lparr>w_tagToID := (w_tagToID s)(tm_tag tmpl \<mapsto> oid), w_payload := Some (replace_first oid (tm_payload tmpl)),
           pending := (pending s)(oid \<mapsto> t), metrics := (metrics s)\<lparr>ordersSent := ordersSent (metrics s) + 1\<rparr>,
           inFlight := inFlight s + 1\<rparr>)"

text \<open>The writer at a cancel template: a tag without an id is skipped.\<close>

definition bot_choose_cancel :: "stepTemplate \<Rightarrow> 'h BotRun \<Rightarrow> 'h BotRun" where
  "bot_choose_cancel tmpl s =
     (case w_tagToID s (tm_cancelTag tmpl) of
        None \<Rightarrow> s\<lparr>w_index := Suc (w_index s)\<rparr>
      | Some targetID \<Rightarrow> s\<lparr>w_payload := Some (replace_first targetID (tm_payload tmpl))\<rparr>)"

text \<open>Writing the payload: on success the next template is due; an error ends the inner loop, and the outer
  loop reconnects and starts with the first template again, in the same iteration.\<close>

definition bot_written :: "'h BotRun \<Rightarrow> 'h BotRun" where
  "bot_written s = s\<lparr>w_payload := None, w_index := Suc (w_index s)\<rparr>"

definition bot_reconnect :: "'h BotRun \<Rightarrow> 'h BotRun" where
  "bot_reconnect s = s\<lparr>w_payload := None, w_index := 0,
     metrics := (metrics s)\<lparr>staleOrders := staleOrders (metrics s) + 1\<rparr>\<rparr>"

definition bot_next_iteration :: "'h BotRun \<Rightarrow> 'h BotRun" where
  "bot_next_iteration s = s\<lparr>w_index := 0, w_iteration := w_iteration s + 1\<rparr>"

inductive bot_step :: "(int \<Rightarrow> 'h \<Rightarrow> 'h) \<Rightarrow> int \<Rightarrow> stepTemplate list \<Rightarrow> 'h BotRun \<Rightarrow> 'h BotRun \<Rightarrow> bool"
  for RecordValue and botID and templates where
  receive: "bot_step RecordValue botID templates s (bot_receive RecordValue t typ oid remaining s)"
| collect: "distinct ids \<Longrightarrow> set ids = dom (pending s) \<Longrightarrow> bot_step RecordValue botID templates s (bot_collect t ids s)"
| register: "w_payload s = None \<Longrightarrow> w_index s < length templates \<Longrightarrow> \<not> tm_isCancel (templates ! w_index s) \<Longrightarrow>
     \<not> inFlight s > 20 \<Longrightarrow> bot_step RecordValue botID templates s (bot_register t botID (templates ! w_index s) s)"
| choose_cancel: "w_payload s = None \<Longrightarrow> w_index s < length templates \<Longrightarrow> tm_isCancel (templates ! w_index s) \<Longrightarrow>
     bot_step RecordValue botID templates s (bot_choose_cancel (templates ! w_index s) s)"
| written: "w_payload s \<noteq> None \<Longrightarrow> bot_step RecordValue botID templates s (bot_written s)"
| write_error: "w_payload s \<noteq> None \<Longrightarrow> bot_step RecordValue botID templates s (bot_reconnect s)"
| next_iteration: "w_payload s = None \<Longrightarrow> w_index s = length templates \<Longrightarrow>
     bot_step RecordValue botID templates s (bot_next_iteration s)"
| read_error: "w_payload s = None \<Longrightarrow> w_index s = 0 \<Longrightarrow> bot_step RecordValue botID templates s (bot_reconnect s)"

definition bot_initial :: "'h \<Rightarrow> 'h BotRun \<Rightarrow> bool" where
  "bot_initial h s \<longleftrightarrow> s = bot_start h"

abbreviation bot_reachable :: "(int \<Rightarrow> 'h \<Rightarrow> 'h) \<Rightarrow> 'h \<Rightarrow> int \<Rightarrow> stepTemplate list \<Rightarrow> 'h BotRun \<Rightarrow> bool" where
  "bot_reachable RecordValue h botID templates \<equiv> reach (bot_initial h) (bot_step RecordValue botID templates)"

lemma bot_reachable_start: "bot_reachable RecordValue h botID templates (bot_start h)"
  by (rule reach_init) (simp add: bot_initial_def)

lemma bot_reachable_step:
  "bot_reachable RecordValue h botID templates s \<Longrightarrow> bot_step RecordValue botID templates s s' \<Longrightarrow> bot_reachable RecordValue h botID templates s'"
  by (rule reach_step)

section \<open>Invariants\<close>

text \<open>The leak: orders counted as in flight that are no longer pending.\<close>

definition leak :: "'h BotRun \<Rightarrow> int" where
  "leak s = inFlight s - int (card (dom (pending s)))"

definition bot_inv :: "'h BotRun \<Rightarrow> bool" where
  "bot_inv s \<longleftrightarrow> finite (dom (pending s)) \<and> 0 \<le> leak s \<and> inFlight s \<le> 21 \<and>
     acksRecv (metrics s) = 2 * n_acks s \<and> fillsRecv (metrics s) = 2 * n_fills s"

lemmas bot_ops = bot_receive_def collect_one_def bot_register_def bot_choose_cancel_def bot_written_def
  bot_reconnect_def bot_next_iteration_def recordAck_def recordFill_def

lemma card_dom_delete:
  assumes "finite (dom m)" "m k = Some v"
  shows "int (card (dom (m(k := None)))) = int (card (dom m)) - 1"
proof -
  have "k \<in> dom m" using assms(2) by blast
  then have "0 < card (dom m)" using assms(1) card_gt_0_iff by blast
  then show ?thesis using \<open>k \<in> dom m\<close> assms(1) by (simp add: dom_fun_upd card_Diff_singleton)
qed

lemma card_dom_insert:
  assumes "finite (dom m)"
  shows "int (card (dom (m(k \<mapsto> v)))) \<le> int (card (dom m)) + 1"
  using assms by (simp add: card_insert_if)

lemma finite_dom_delete: "finite (dom m) \<Longrightarrow> finite (dom (m(k := None)))"
  by (simp add: dom_fun_upd)

lemma bot_receive_inv:
  assumes "bot_inv s"
  shows "bot_inv (bot_receive RecordValue t typ oid remaining s)" "leak (bot_receive RecordValue t typ oid remaining s) = leak s"
proof -
  have f: "finite (dom (pending s))" using assms by (simp add: bot_inv_def)
  have "bot_inv (bot_receive RecordValue t typ oid remaining s) \<and> leak (bot_receive RecordValue t typ oid remaining s) = leak s"
  proof (cases "pending s oid")
    case None
    then show ?thesis using assms by (simp add: bot_receive_def)
  next
    case (Some v)
    note c = card_dom_delete [OF f Some] finite_dom_delete [OF f, of oid]
    show ?thesis
      using assms Some c f
      by (auto simp: bot_ops Let_def bot_inv_def leak_def simp del: dom_fun_upd fun_upd_apply)
  qed
  then show "bot_inv (bot_receive RecordValue t typ oid remaining s)" "leak (bot_receive RecordValue t typ oid remaining s) = leak s"
    by blast+
qed

lemma collect_one_inv:
  assumes "bot_inv s"
  shows "bot_inv (collect_one t oid s) \<and> leak (collect_one t oid s) = leak s"
proof (cases "pending s oid")
  case None
  then show ?thesis using assms by (simp add: collect_one_def)
next
  case (Some v)
  have f: "finite (dom (pending s))" using assms by (simp add: bot_inv_def)
  show ?thesis
    using assms Some card_dom_delete [OF f Some] finite_dom_delete [OF f, of oid]
    by (auto simp: collect_one_def bot_inv_def leak_def simp del: dom_fun_upd fun_upd_apply)
qed

lemma bot_collect_inv: "bot_inv s \<Longrightarrow> bot_inv (bot_collect t ids s) \<and> leak (bot_collect t ids s) = leak s"
  unfolding bot_collect_def by (induction ids arbitrary: s) (simp_all add: collect_one_inv)

lemma bot_register_inv:
  assumes "bot_inv s" "\<not> inFlight s > 20"
  shows "bot_inv (bot_register t botID tmpl s) \<and> leak s \<le> leak (bot_register t botID tmpl s)"
proof -
  have f: "finite (dom (pending s))" using assms by (simp add: bot_inv_def)
  show ?thesis
    using assms f card_dom_insert [OF f, of "bot_choose_order botID tmpl s" t]
    by (auto simp: bot_register_def bot_inv_def leak_def Let_def simp del: fun_upd_apply)
qed

lemma bot_step_inv:
  assumes "bot_step RecordValue botID templates s s'" and inv: "bot_inv s"
  shows "bot_inv s' \<and> leak s \<le> leak s'"
  using assms(1)
proof cases
  case (receive t ty oid rm)
  then show ?thesis using bot_receive_inv [OF inv, of RecordValue t ty oid rm] by simp
next
  case (collect ids t)
  then show ?thesis using bot_collect_inv [OF inv, of t ids] by simp
next
  case (register t)
  then show ?thesis using bot_register_inv [OF inv] by simp
qed (use inv in \<open>auto simp: bot_choose_cancel_def bot_written_def bot_reconnect_def bot_next_iteration_def bot_inv_def leak_def split: option.splits\<close>)

interpretation botrun: system_invariant "bot_initial h" "bot_step RecordValue botID templates" bot_inv
  for h RecordValue botID templates
proof unfold_locales
  show "bot_inv s" if "bot_initial h s" for s :: "'a BotRun"
    using that by (simp add: bot_initial_def bot_inv_def leak_def bot_start_def NewBotMetrics_def)
  show "bot_inv s'" if "bot_inv s" "bot_step RecordValue botID templates s s'" for s s' :: "'a BotRun"
    using bot_step_inv that by blast
qed

lemmas bot_reachable_inv = botrun.inv_reach

text \<open>Orders are only counted as sent when one is registered.\<close>

lemma bot_step_ordersSent:
  assumes "bot_step RecordValue botID templates s s'" and inv: "bot_inv s" and "20 < leak s"
  shows "ordersSent (metrics s') = ordersSent (metrics s)"
  using assms(1)
proof cases
  case (receive t ty oid rm)
  then show ?thesis by (auto simp: bot_ops Let_def split: option.splits)
next
  case (collect ids t)
  have "ordersSent (metrics (fold (collect_one t) ids s)) = ordersSent (metrics s)" for s :: "'a BotRun"
    by (induction ids arbitrary: s) (auto simp: collect_one_def split: option.splits)
  then show ?thesis by (simp add: collect bot_collect_def)
next
  case (register t)
  have "leak s \<le> inFlight s" by (simp add: leak_def)
  with register assms(3) show ?thesis by simp
qed (auto simp: bot_choose_cancel_def bot_written_def bot_reconnect_def bot_next_iteration_def split: option.splits)

text \<open>What is lost stays lost, and a bot that has lost too much has sent its last order.\<close>

interpretation leaked: stable_fact "bot_initial h" "bot_step RecordValue botID templates" bot_inv "\<lambda>s. n \<le> leak s"
  for h RecordValue botID templates n
  by unfold_locales (use bot_step_inv order_trans in blast)

interpretation stalled: stable_fact "bot_initial h" "bot_step RecordValue botID templates" bot_inv
  "\<lambda>s. 20 < leak s \<and> ordersSent (metrics s) = n" for h RecordValue botID templates n
proof unfold_locales
  fix s s' :: "'a BotRun"
  assume "bot_inv s" "20 < leak s \<and> ordersSent (metrics s) = n" "bot_step RecordValue botID templates s s'"
  then show "20 < leak s' \<and> ordersSent (metrics s') = n" using bot_step_inv bot_step_ordersSent by fastforce
qed

section \<open>Templates\<close>

lemma replace_first_at:
  assumes "CHR ''%'' \<notin> set pre"
  shows "replace_first new (pre @ ''%s'' @ post) = pre @ new @ post"
  using assms
proof (induction pre)
  case (Cons c pre)
  then have "replace_first new (c # (pre @ ''%s'' @ post)) = c # replace_first new (pre @ ''%s'' @ post)"
    by (cases "pre @ ''%s'' @ post") auto
  with Cons show ?case by simp
qed simp

lemma replace_first_order: "replace_first new (order_text ''%s'' step) = order_text new step"
proof -
  let ?pre = "''{'' @ json_field ''type'' (quoted ''order'') @ '','' @ quoted ''order_id'' @ '':'' @ [CHR 0x22]"
  have e: "order_text oid step = ?pre @ oid @ ([CHR 0x22] @ '','' @
     json_field ''side'' (quoted (st_Side step)) @ '','' @ json_field ''order_type'' (quoted (st_OrderType step)) @ '','' @
     json_field ''price'' (fmt_f (st_Price step)) @ '','' @ json_field ''quantity'' (dec (sint (st_Quantity step))) @ ''}'')" for oid
    by (simp add: order_text_def json_field_def quoted_def)
  show ?thesis unfolding e by (rule replace_first_at) (simp add: json_field_def quoted_def)
qed

lemma replace_first_cancel: "replace_first new (cancel_text ''%s'') = cancel_text new"
proof -
  let ?pre = "''{'' @ json_field ''type'' (quoted ''cancel'') @ '','' @ quoted ''order_id'' @ '':'' @ [CHR 0x22]"
  have e: "cancel_text oid = ?pre @ oid @ ([CHR 0x22] @ ''}'')" for oid
    by (simp add: cancel_text_def json_field_def quoted_def)
  show ?thesis unfolding e by (rule replace_first_at) (simp add: json_field_def quoted_def)
qed

end
