(* ===== verification/Correctness_Bot.thy ===== *)
theory Correctness_Bot
  imports Sequences Stub_System
begin

text \<open>
  The synchronous correctness bot (\<open>src/services/bot-runner/correctness_bot.go\<close>): it plays each
  correctness sequence against an engine, one step at a time, and counts the assertions that hold.
  The engine under test and the network are a parameter, a \<open>Peer\<close>.
\<close>

section \<open>Messages and the connection\<close>

text \<open>The \<open>IncomingMessage\<close> of the bot runner: what an engine sends.\<close>

record BotMessage =
  bm_Type :: string
  bm_OrderID :: string
  bm_Reason :: string
  bm_FilledQty :: int64
  bm_FillPrice :: price
  bm_Remaining :: int64
  bm_Timestamp :: int

text \<open>What a read on the connection yields: a message, bytes that do not decode, or an error; the flag
  says that the context is over.\<close>

datatype rx = RxMsg BotMessage | RxGarbage | RxErr bool

datatype Failure =
    ConnectFailed
  | TagNotFound nat string
  | WriteFailed nat
  | ContextCancelled nat
  | NoCancelAck nat
  | FillPriceWrong nat price price
  | FillQtyWrong nat int64 int64
  | NoFill nat
  | NoReject nat
  | QueryFailed nat
  | BidLevelsWrong nat int int
  | AskLevelsWrong nat int int

text \<open>
  The operations the bot uses: dial a connection, write a message (\<open>None\<close> on an error), see what
  arrives before the deadline of the step, leave unread messages for later, ask for the number of
  bid and ask levels, close the connection.
\<close>

record 'e Peer =
  peer_dial :: "'e \<Rightarrow> 'e option"
  peer_write :: "IncomingMessage \<Rightarrow> 'e \<Rightarrow> 'e option"
  peer_pending :: "'e \<Rightarrow> rx list"
  peer_unread :: "rx list \<Rightarrow> 'e \<Rightarrow> 'e"
  peer_query :: "'e \<Rightarrow> (int \<times> int) option \<times> 'e"
  peer_close :: "'e \<Rightarrow> 'e"

section \<open>One step\<close>

text \<open>A price as the engine decodes it: printed with six decimals and parsed again.\<close>

definition wire_price :: "price \<Rightarrow> price" where
  "wire_price p = rnd (of_int (rhe (p * 1000000)) / 1000000)"

definition order_payload :: "string \<Rightarrow> Step \<Rightarrow> IncomingMessage" where
  "order_payload oid step = \<lparr>i_Type = ''order'', i_OrderID = oid, i_Side = st_Side step, i_OrderType = st_OrderType step,
     i_Price = wire_price (st_Price step), i_Quantity = st_Quantity step\<rparr>"

definition cancel_payload :: "string \<Rightarrow> IncomingMessage" where
  "cancel_payload oid = \<lparr>i_Type = ''cancel'', i_OrderID = oid, i_Side = [], i_OrderType = [], i_Price = 0, i_Quantity = 0\<rparr>"

definition cx_orderID :: "nat \<Rightarrow> string \<Rightarrow> string" where
  "cx_orderID i tag = ''cx-s'' @ dec (int i) @ ''-'' @ tag"

record Got =
  gotFill :: bool
  fillPrice :: price
  fillQty :: int64
  gotReject :: bool
  gotAck :: bool
  gotCancelAck :: bool

definition got_nothing :: Got where
  "got_nothing = \<lparr>gotFill = False, fillPrice = 0, fillQty = 0, gotReject = False, gotAck = False, gotCancelAck = False\<rparr>"

definition note_message :: "BotMessage \<Rightarrow> Got \<Rightarrow> Got" where
  "note_message msg g =
     (if bm_Type msg = ''ack'' then g\<lparr>gotAck := True\<rparr>
      else if bm_Type msg = ''fill'' then g\<lparr>gotFill := True, fillPrice := bm_FillPrice msg, fillQty := bm_FilledQty msg\<rparr>
      else if bm_Type msg = ''reject'' then g\<lparr>gotReject := True\<rparr>
      else if bm_Type msg = ''cancel_ack'' then g\<lparr>gotCancelAck := True\<rparr>
      else g)"

definition enough :: "Step \<Rightarrow> Got \<Rightarrow> bool" where
  "enough step g \<longleftrightarrow>
     st_Kind step = StepCancel \<and> gotCancelAck g \<or>
     st_ExpectReject step \<and> gotReject g \<or>
     st_ExpectFill step \<and> gotAck g \<and> gotFill g \<or>
     \<not> st_ExpectFill step \<and> \<not> st_ExpectReject step \<and> gotAck g"

text \<open>The read loop; the end of the list is the deadline. Gives what was seen, whether the context ended
  the loop, and what is left unread.\<close>

fun read_loop :: "Step \<Rightarrow> rx list \<Rightarrow> Got \<Rightarrow> Got \<times> bool \<times> rx list" where
  "read_loop step [] g = (g, False, [])"
| "read_loop step (RxErr ctx_over # rs) g = (g, ctx_over, rs)"
| "read_loop step (RxGarbage # rs) g = read_loop step rs g"
| "read_loop step (RxMsg msg # rs) g =
     (let g' = note_message msg g in if enough step g' then (g', False, rs) else read_loop step rs g')"

text \<open>The tolerance on a fill price, the literal 0.01.\<close>

definition price_tolerance :: price where
  "price_tolerance = rnd (1 / 100)"

lemma price_tolerance_code [code]: "price_tolerance = 5764607523034235 / 576460752303423488"
  unfolding price_tolerance_def by code_simp

text \<open>The assertions on the replies: the number that hold and the failures.\<close>

definition assert_replies :: "nat \<Rightarrow> Step \<Rightarrow> Got \<Rightarrow> nat \<times> Failure list" where
  "assert_replies i step g =
     (let (p1, f1) = (if st_Kind step = StepCancel
                      then (if gotCancelAck g then (1, []) else (0, [NoCancelAck i])) else (0, []));
          (p2, f2) = (if st_ExpectFill step
                      then (if gotFill g
                            then let (pp, fp) = (if 0 < st_ExpectFillPrice step \<and>
                                                    price_tolerance < \<bar>rnd (fillPrice g - st_ExpectFillPrice step)\<bar>
                                                 then (0, [FillPriceWrong i (st_ExpectFillPrice step) (fillPrice g)])
                                                 else if 0 < st_ExpectFillPrice step then (1, []) else (0, []));
                                     (pq, fq) = (if 0 < sint (st_ExpectFillQty step) \<and> fillQty g \<noteq> st_ExpectFillQty step
                                                 then (0, [FillQtyWrong i (st_ExpectFillQty step) (fillQty g)])
                                                 else if 0 < sint (st_ExpectFillQty step) then (1, []) else (0, []))
                                 in (1 + pp + pq, fp @ fq)
                            else (0, [NoFill i])) else (0, []));
          (p3, f3) = (if st_ExpectReject step
                      then (if gotReject g then (1, []) else (0, [NoReject i])) else (0, []))
      in (p1 + p2 + p3, f1 @ f2 @ f3))"

definition assert_book :: "nat \<Rightarrow> Step \<Rightarrow> (int \<times> int) option \<Rightarrow> nat \<times> Failure list" where
  "assert_book i step q =
     (case q of None \<Rightarrow> (0, [QueryFailed i])
      | Some (b, a) \<Rightarrow>
          let (p1, f1) = (if 0 \<le> st_ExpectBookBids step
                          then (if b = st_ExpectBookBids step then (1, []) else (0, [BidLevelsWrong i (st_ExpectBookBids step) b]))
                          else (0, []));
              (p2, f2) = (if 0 \<le> st_ExpectBookAsks step
                          then (if a = st_ExpectBookAsks step then (1, []) else (0, [AskLevelsWrong i (st_ExpectBookAsks step) a]))
                          else (0, []))
          in (p1 + p2, f1 @ f2))"

section \<open>Sequences and the whole run\<close>

fun run_steps :: "'e Peer \<Rightarrow> nat \<Rightarrow> Step list \<Rightarrow> (string \<rightharpoonup> string) \<Rightarrow> 'e \<Rightarrow> nat \<times> Failure list \<times> 'e" where
  "run_steps P i [] tagToID e = (0, [], e)"
| "run_steps P i (step # steps) tagToID e =
     (if st_Kind step = StepCancel \<and> tagToID (st_CancelTag step) = None
      then (case run_steps P (Suc i) steps tagToID e of
              (p, fs, e') \<Rightarrow> (p, TagNotFound i (st_CancelTag step) # fs, e'))
      else
        let oid = (if st_Kind step = StepCancel then the (tagToID (st_CancelTag step)) else cx_orderID i (st_Tag step));
            tagToID' = (if st_Kind step = StepCancel then tagToID else tagToID(st_Tag step \<mapsto> oid));
            payload = (if st_Kind step = StepCancel then cancel_payload oid else order_payload oid step)
        in case peer_write P payload e of
             None \<Rightarrow> (0, [WriteFailed i], e)
           | Some e1 \<Rightarrow>
               (case read_loop step (peer_pending P e1) got_nothing of
                  (g, ctx_over, unread) \<Rightarrow>
                    let e2 = peer_unread P unread e1
                    in if ctx_over then (0, [ContextCancelled i], e2)
                       else let (p1, f1) = assert_replies i step g;
                                (p2, f2, e3) =
                                  (if 0 \<le> st_ExpectBookBids step \<or> 0 \<le> st_ExpectBookAsks step
                                   then (case peer_query P e2 of (q, e3) \<Rightarrow>
                                           (case assert_book i step q of (p2, f2) \<Rightarrow> (p2, f2, e3)))
                                   else (0, [], e2));
                                (p, fs, e') = run_steps P (Suc i) steps tagToID' e3
                            in (p1 + p2 + p, f1 @ f2 @ fs, e')))"

definition runSequence :: "'e Peer \<Rightarrow> Sequence \<Rightarrow> 'e \<Rightarrow> nat \<times> Failure list \<times> 'e" where
  "runSequence P sq e =
     (case peer_dial P e of
        None \<Rightarrow> (0, [ConnectFailed], e)
      | Some e1 \<Rightarrow> (case run_steps P 0 (sq_Steps sq) Map.empty e1 of (p, fs, e2) \<Rightarrow> (p, fs, peer_close P e2)))"

record CorrectnessResult =
  cr_Score :: float64
  cr_Passed :: nat
  cr_Failed :: nat
  cr_TotalAssertions :: nat
  cr_FailureDetails :: "(string \<times> Failure) list"

fun run_sequences :: "'e Peer \<Rightarrow> Sequence list \<Rightarrow> 'e \<Rightarrow> nat \<times> (string \<times> Failure) list \<times> 'e" where
  "run_sequences P [] e = (0, [], e)"
| "run_sequences P (sq # sqs) e =
     (case runSequence P sq e of (p, fs, e1) \<Rightarrow>
        (case run_sequences P sqs e1 of (p', fs', e2) \<Rightarrow> (p + p', map (Pair (sq_Name sq)) fs @ fs', e2)))"

definition correctness_score :: "nat \<Rightarrow> nat \<Rightarrow> float64" where
  "correctness_score passed tot =
     (if tot = 0 then Fin 1
      else math_Max (Fin 0) (f_div (f64 (of_nat passed)) (f64 (of_nat tot))))"

definition CorrectnessBot_Run :: "'e Peer \<Rightarrow> 'e \<Rightarrow> CorrectnessResult \<times> 'e" where
  "CorrectnessBot_Run P e =
     (case run_sequences P CorrectnessSequences e of (passed, details, e') \<Rightarrow>
        let failed = length details; tot = passed + failed
        in (\<lparr>cr_Score = correctness_score passed tot, cr_Passed = passed, cr_Failed = failed,
             cr_TotalAssertions = tot, cr_FailureDetails = details\<rparr>, e'))"

section \<open>The stub as the engine under test\<close>

record StubPeer =
  sp_book :: Orderbook
  sp_clock :: Clock
  sp_sid :: string
  sp_inbox :: "rx list"

fun to_bot :: "OutMessage \<Rightarrow> BotMessage" where
  "to_bot (Ack m) = \<lparr>bm_Type = a_Type m, bm_OrderID = a_OrderID m, bm_Reason = [], bm_FilledQty = 0,
     bm_FillPrice = 0, bm_Remaining = 0, bm_Timestamp = a_Timestamp m\<rparr>"
| "to_bot (Fill m) = \<lparr>bm_Type = f_Type m, bm_OrderID = f_OrderID m, bm_Reason = [], bm_FilledQty = f_FilledQty m,
     bm_FillPrice = f_FillPrice m, bm_Remaining = f_Remaining m, bm_Timestamp = f_Timestamp m\<rparr>"
| "to_bot (CancelAck m) = \<lparr>bm_Type = c_Type m, bm_OrderID = c_OrderID m, bm_Reason = [], bm_FilledQty = 0,
     bm_FillPrice = 0, bm_Remaining = 0, bm_Timestamp = c_Timestamp m\<rparr>"
| "to_bot (Reject m) = \<lparr>bm_Type = j_Type m, bm_OrderID = j_OrderID m, bm_Reason = j_Reason m, bm_FilledQty = 0,
     bm_FillPrice = 0, bm_Remaining = 0, bm_Timestamp = j_Timestamp m\<rparr>"

definition side_prices :: "side \<Rightarrow> Orderbook \<Rightarrow> price list" where
  "side_prices sd ob = remdups (map (\<lambda>a. o_Price (mem ob a)) (side_arr sd ob))"

definition stub_peer :: "StubPeer Peer" where
  "stub_peer =
     \<lparr>peer_dial = (\<lambda>e. let (ts, clk) = now (sp_clock e)
                       in Some (e\<lparr>sp_clock := clk, sp_sid := session_id ''bot'' ts, sp_inbox := []\<rparr>)),
      peer_write = (\<lambda>msg e. let (out, ob, clk) = stream_message (sp_sid e) msg (sp_book e) (sp_clock e)
                            in Some (e\<lparr>sp_book := ob, sp_clock := clk,
                                      sp_inbox := sp_inbox e @ map (\<lambda>m. RxMsg (to_bot m)) out\<rparr>)),
      peer_pending = sp_inbox,
      peer_unread = (\<lambda>rs e. e\<lparr>sp_inbox := rs\<rparr>),
      peer_query = (\<lambda>e. let (snap, clk) = orderbookHandler (side_prices Bids (sp_book e)) (side_prices Asks (sp_book e))
                                            (sp_book e) (sp_clock e)
                         in (Some (int (length (snap_Bids snap)), int (length (snap_Asks snap))), e\<lparr>sp_clock := clk\<rparr>)),
      peer_close = (\<lambda>e. e\<lparr>sp_book := cancelSession (bids (sp_book e) @ asks (sp_book e)) (sp_sid e) (sp_book e)\<rparr>)\<rparr>"

definition stub_start :: "(nat \<Rightarrow> int) \<Rightarrow> StubPeer" where
  "stub_start wl = \<lparr>sp_book = NewOrderbook, sp_clock = \<lparr>lastTimestamp = 0, wall = wl, reads = 0\<rparr>, sp_sid = [], sp_inbox = []\<rparr>"

end
