(* ===== verification/Telemetry.thy ===== *)
theory Telemetry
  imports Float64
begin

text \<open>
  The telemetry ingester (\<open>src/services/telemetry-ingester\<close>): it turns the metrics of a test run
  into a score, keeps the leaderboard in Redis up to date and writes batches of events to the
  database. Redis is the sorted set, the detail hash and the published messages its script
  touches; the database is the two tables the batch writes, and how the driver executes a batch is
  a parameter.
\<close>

section \<open>Events and scores\<close>

record BotMetricsEvent =
  e_Event :: string
  e_TeamName :: string
  e_SubmissionID :: string
  e_TestRunID :: string
  e_DurationMS :: int64
  e_OrdersSent :: int64
  e_AcksRecv :: int64
  e_FillsRecv :: int64
  e_RejectsRecv :: int64
  e_StaleOrders :: int64
  e_AckP50US :: int64
  e_AckP90US :: int64
  e_AckP99US :: int64
  e_AckP999US :: int64
  e_AckMaxUS :: int64
  e_FillP50US :: int64
  e_FillP90US :: int64
  e_FillP99US :: int64
  e_FillP999US :: int64
  e_FillMaxUS :: int64
  e_TPS :: float64
  e_CorrectnessScore :: float64
  e_EmittedAt :: int64

record EventScorePair =
  p_Event :: BotMetricsEvent
  p_Score :: float64

definition weightedLatencyUS :: "BotMetricsEvent \<Rightarrow> float64" where
  "weightedLatencyUS event =
     f_add (f_add (f_mul (f64_of_int64 (e_AckP50US event)) (f64 (2 / 10)))
                  (f_mul (f64_of_int64 (e_AckP90US event)) (f64 (3 / 10))))
           (f_mul (f64_of_int64 (e_AckP99US event)) (f64 (5 / 10)))"

definition computeScore :: "float64 \<Rightarrow> float64 \<Rightarrow> BotMetricsEvent \<Rightarrow> float64" where
  "computeScore maxAcceptableLatencyUS maxAcceptableTPS event =
     (let latencyScore = clamp01 (f_sub (Fin 1) (f_div (weightedLatencyUS event) maxAcceptableLatencyUS));
          throughputScore = clamp01 (f_div (e_TPS event) maxAcceptableTPS);
          correctnessScore = clamp01 (e_CorrectnessScore event)
      in f_add (f_add (f_mul latencyScore (f64 (35 / 100))) (f_mul throughputScore (f64 (35 / 100))))
               (f_mul correctnessScore (f64 (30 / 100))))"

section \<open>The leaderboard in Redis\<close>

record leaderboardEntry =
  le_SubmissionID :: string
  le_TeamName :: string
  le_Score :: float64
  le_TPS :: float64
  le_AckP50US :: int64
  le_AckP90US :: int64
  le_AckP99US :: int64
  le_OrdersSent :: int64
  le_RejectsRecv :: int64
  le_Correctness :: float64
  le_DurationMS :: int64
  le_Timestamp :: string

text \<open>
  \<open>leaderboard\<close> (scores by member), \<open>leaderboard_details\<close> (payload by member) and the payloads
  published on \<open>leaderboard_updates\<close>, latest last. A payload is the JSON text of an entry, kept here
  as the entry.
\<close>

record Redis =
  leaderboard :: "string \<rightharpoonup> float64"
  leaderboard_details :: "string \<rightharpoonup> leaderboardEntry"
  leaderboard_updates :: "leaderboardEntry list"

datatype error = MarshalError | RedisError | ConfigError | BatchError nat | ContextDone

text \<open>\<open>json.Marshal\<close> refuses a number that is not finite.\<close>

definition json_Marshal_entry :: "leaderboardEntry \<Rightarrow> error + leaderboardEntry" where
  "json_Marshal_entry entry =
     (if is_finite (le_Score entry) \<and> is_finite (le_TPS entry) \<and> is_finite (le_Correctness entry)
      then Inr entry else Inl MarshalError)"

definition updateLeaderboardScript :: "float64 \<Rightarrow> string \<Rightarrow> leaderboardEntry \<Rightarrow> Redis \<Rightarrow> Redis" where
  "updateLeaderboardScript score member payload r =
     r\<lparr>leaderboard := (leaderboard r)(member \<mapsto> score),
       leaderboard_details := (leaderboard_details r)(member \<mapsto> payload),
       leaderboard_updates := leaderboard_updates r @ [payload]\<rparr>"

definition make_entry :: "string \<Rightarrow> BotMetricsEvent \<Rightarrow> float64 \<Rightarrow> leaderboardEntry" where
  "make_entry timestamp event score =
     \<lparr>le_SubmissionID = e_SubmissionID event, le_TeamName = e_TeamName event, le_Score = score,
      le_TPS = e_TPS event, le_AckP50US = e_AckP50US event, le_AckP90US = e_AckP90US event,
      le_AckP99US = e_AckP99US event, le_OrdersSent = e_OrdersSent event, le_RejectsRecv = e_RejectsRecv event,
      le_Correctness = clamp01 (e_CorrectnessScore event), le_DurationMS = e_DurationMS event,
      le_Timestamp = timestamp\<rparr>"

text \<open>\<open>up\<close> says whether Redis executes the script or the call fails.\<close>

definition updateLeaderboard :: "bool \<Rightarrow> string \<Rightarrow> BotMetricsEvent \<Rightarrow> float64 \<Rightarrow> Redis \<Rightarrow> error option \<times> Redis" where
  "updateLeaderboard up timestamp event score r =
     (case json_Marshal_entry (make_entry timestamp event score) of
        Inl e \<Rightarrow> (Some e, r)
      | Inr payload \<Rightarrow>
          if up then (None, updateLeaderboardScript (f_mul score (Fin 1000)) (e_SubmissionID event) payload r)
          else (Some RedisError, r))"

section \<open>The ingester\<close>

record Ingester =
  maxAcceptableLatencyUS :: float64
  maxAcceptableTPS :: float64
  eventBuffer :: "EventScorePair list"

text \<open>The part of \<open>NewIngester\<close> after the connections are made.\<close>

definition NewIngester :: "float64 \<Rightarrow> float64 \<Rightarrow> error + Ingester" where
  "NewIngester maxLatencyUS maxTPS =
     (let ingester = \<lparr>maxAcceptableLatencyUS = maxLatencyUS, maxAcceptableTPS = maxTPS, eventBuffer = []\<rparr>
      in if f_le (maxAcceptableLatencyUS ingester) (Fin 0) then Inl ConfigError else Inr ingester)"

definition Handle :: "bool \<Rightarrow> string \<Rightarrow> BotMetricsEvent \<Rightarrow> Ingester \<Rightarrow> Redis \<Rightarrow> Ingester \<times> Redis" where
  "Handle up timestamp event ing r =
     (let score = computeScore (maxAcceptableLatencyUS ing) (maxAcceptableTPS ing) event;
          ing' = ing\<lparr>eventBuffer := eventBuffer ing @ [\<lparr>p_Event = event, p_Score = score\<rparr>]\<rparr>;
          (err, r') = updateLeaderboard up timestamp event score r
      in (ing', r'))"

section \<open>Batches\<close>

record telemetry_row =
  t_time :: int64
  t_submission_id :: string
  t_bot_id :: string
  t_event_type :: string
  t_latency_us :: int64

record score_row =
  c_team_name :: string
  c_p50_us :: int64
  c_p90_us :: int64
  c_p99_us :: int64
  c_tps :: float64
  c_correctness :: float64
  c_composite :: float64
  c_scored_at :: int

record Database =
  telemetry_events :: "telemetry_row list"
  submission_scores :: "string \<rightharpoonup> score_row"

datatype query = InsertEvent telemetry_row | UpsertScore string score_row

text \<open>The effect of each statement; on a conflict every column but the team name is replaced.\<close>

fun apply_query :: "query \<Rightarrow> Database \<Rightarrow> Database" where
  "apply_query (InsertEvent row) db = db\<lparr>telemetry_events := telemetry_events db @ [row]\<rparr>"
| "apply_query (UpsertScore sid row) db =
     db\<lparr>submission_scores := (submission_scores db)(sid \<mapsto>
        (case submission_scores db sid of None \<Rightarrow> row | Some old \<Rightarrow> row\<lparr>c_team_name := c_team_name old\<rparr>))\<rparr>"

definition pair_queries :: "int \<Rightarrow> EventScorePair \<Rightarrow> query list" where
  "pair_queries tm p =
     [InsertEvent \<lparr>t_time = e_EmittedAt (p_Event p), t_submission_id = e_SubmissionID (p_Event p),
        t_bot_id = e_TestRunID (p_Event p), t_event_type = ''bot.metrics'', t_latency_us = e_AckP90US (p_Event p)\<rparr>,
      UpsertScore (e_SubmissionID (p_Event p))
        \<lparr>c_team_name = e_TeamName (p_Event p), c_p50_us = e_AckP50US (p_Event p), c_p90_us = e_AckP90US (p_Event p),
         c_p99_us = e_AckP99US (p_Event p), c_tps = e_TPS (p_Event p), c_correctness = e_CorrectnessScore (p_Event p),
         c_composite = p_Score p, c_scored_at = tm\<rparr>]"

text \<open>
  \<open>SendBatch\<close> runs the queued statements and yields one result per statement; \<open>True\<close> is success.
\<close>

type_synonym send_batch = "query list \<Rightarrow> Database \<Rightarrow> bool list \<times> Database"

definition writeBatch :: "send_batch \<Rightarrow> int \<Rightarrow> EventScorePair list \<Rightarrow> Database \<Rightarrow> error option \<times> Database" where
  "writeBatch send tm pairs db =
     (let batch = concat (map (pair_queries tm) pairs);
          (results, db') = send batch db;
          errs = filter (\<lambda>ok. \<not> ok) (take (length pairs * 2) results)
      in if 0 < length errs then (Some (BatchError (length errs)), db') else (None, db'))"

text \<open>
  What one attempt of \<open>flush\<close> meets: whether the context ends while it waits to retry, the driver
  and the time of the attempt.
\<close>

record attempt =
  w_ctx_done :: bool
  w_send :: send_batch
  w_time :: int

text \<open>The turns of the retry loop; \<open>k\<close> are left, \<open>n\<close> is the index of the next one.\<close>

fun flush_loop :: "nat \<Rightarrow> nat \<Rightarrow> (nat \<Rightarrow> attempt) \<Rightarrow> EventScorePair list \<Rightarrow> Database \<Rightarrow> Database" where
  "flush_loop 0 n ws pairs db = db"
| "flush_loop (Suc k) n ws pairs db =
     (if 0 < n \<and> w_ctx_done (ws n) then db
      else case writeBatch (w_send (ws n)) (w_time (ws n)) pairs db of
             (Some _, db') \<Rightarrow> flush_loop k (Suc n) ws pairs db'
           | (None, db') \<Rightarrow> db')"

definition flush :: "(nat \<Rightarrow> attempt) \<Rightarrow> Ingester \<Rightarrow> Database \<Rightarrow> Ingester \<times> Database" where
  "flush ws ing db =
     (if eventBuffer ing = [] then (ing, db)
      else (ing\<lparr>eventBuffer := []\<rparr>, flush_loop 3 0 ws (eventBuffer ing) db))"

section \<open>Connecting and consuming\<close>

text \<open>
  One turn of \<open>connectRedis\<close>: the ping succeeds, or it fails; then the context may be over already
  (\<open>ctx_err\<close>) or end during the wait (\<open>ctx_wait\<close>). The result of a finite run is the outcome, if
  the loop has left, and the waits in seconds.
\<close>

record connect_turn =
  ping_ok :: bool
  ctx_err :: bool
  ctx_wait :: bool

definition next_backoff :: "nat \<Rightarrow> nat" where
  "next_backoff b = (if b < 30 then b * 2 else b)"

fun connectRedis_loop :: "nat \<Rightarrow> connect_turn list \<Rightarrow> (error + unit) option \<times> nat list" where
  "connectRedis_loop backoff [] = (None, [])"
| "connectRedis_loop backoff (t # ts) =
     (if ping_ok t then (Some (Inr ()), [])
      else if ctx_err t then (Some (Inl ContextDone), [])
      else if ctx_wait t then (Some (Inl ContextDone), [backoff])
      else (case connectRedis_loop (next_backoff backoff) ts of (res, ws) \<Rightarrow> (res, backoff # ws)))"

definition connectRedis :: "connect_turn list \<Rightarrow> (error + unit) option \<times> nat list" where
  "connectRedis ts = connectRedis_loop 1 ts"

text \<open>\<open>connectPostgres\<close> creates the pool first; a pool that does not answer is closed again.\<close>

record pg_turn = connect_turn +
  pool_ok :: bool

fun connectPostgres_loop :: "nat \<Rightarrow> pg_turn list \<Rightarrow> (error + unit) option \<times> nat list" where
  "connectPostgres_loop backoff [] = (None, [])"
| "connectPostgres_loop backoff (t # ts) =
     (if pool_ok t \<and> ping_ok t then (Some (Inr ()), [])
      else if ctx_err t then (Some (Inl ContextDone), [])
      else if ctx_wait t then (Some (Inl ContextDone), [backoff])
      else (case connectPostgres_loop (next_backoff backoff) ts of (res, ws) \<Rightarrow> (res, backoff # ws)))"

definition connectPostgres :: "pg_turn list \<Rightarrow> (error + unit) option \<times> nat list" where
  "connectPostgres ts = connectPostgres_loop 1 ts"

text \<open>
  A poll of the consumer: the records fetched, a record being the decoded event or \<open>None\<close> when its
  value is not valid JSON, and whether the context is over when the poll returns.
\<close>

record poll =
  poll_ctx_done :: bool
  poll_records :: "BotMetricsEvent option list"

definition consume_record :: "(BotMetricsEvent \<Rightarrow> 's \<Rightarrow> 's) \<Rightarrow> BotMetricsEvent option \<Rightarrow> 's \<Rightarrow> 's" where
  "consume_record handler rc s =
     (case rc of None \<Rightarrow> s | Some event \<Rightarrow> if e_Event event \<noteq> ''bot.metrics'' then s else handler event s)"

fun Consumer_Run :: "(BotMetricsEvent \<Rightarrow> 's \<Rightarrow> 's) \<Rightarrow> poll list \<Rightarrow> 's \<Rightarrow> 's" where
  "Consumer_Run handler [] s = s"
| "Consumer_Run handler (p # ps) s =
     (if poll_ctx_done p then s
      else Consumer_Run handler ps (fold (consume_record handler) (poll_records p) s))"

section \<open>The score\<close>

lemma weights:
  "f64 (2 / 10) = Fin (rnd (2 / 10))" "f64 (3 / 10) = Fin (rnd (3 / 10))" "f64 (5 / 10) = Fin (rnd (5 / 10))"
  "f64 (35 / 100) = Fin (rnd (35 / 100))" "f64 (30 / 100) = Fin (rnd (30 / 100))"
  by (rule f64_finite [of _ 0], simp_all)+

lemma weight_range: "0 \<le> x \<Longrightarrow> 0 \<le> rnd x" "0 \<le> x \<Longrightarrow> x \<le> 1 \<Longrightarrow> \<bar>rnd x\<bar> \<le> 1"
  using rnd_mono [of 0 x] rnd_mono [of x 1] by simp_all

definition latency :: "BotMetricsEvent \<Rightarrow> rat" where
  "latency event = weigh3 rnd (rnd (2 / 10)) (rnd (3 / 10)) (rnd (5 / 10))
     (rnd (of_int (sint (e_AckP50US event)))) (rnd (of_int (sint (e_AckP90US event)))) (rnd (of_int (sint (e_AckP99US event))))"

lemma weightedLatencyUS_eq: "weightedLatencyUS event = Fin (latency event)"
proof -
  have b: "\<bar>rnd (of_int (sint (n::int64)))\<bar> \<le> 2 ^ 63" for n
  proof (rule rnd_bound)
    have "\<bar>of_int (sint n) :: rat\<bar> \<le> of_int (2 ^ 63)"
      using sint64_bounds [of n] by (simp only: of_int_abs [symmetric] of_int_le_iff)
    then show "\<bar>of_int (sint n) :: rat\<bar> \<le> 2 ^ 63" by simp
  qed
  show ?thesis
    unfolding weightedLatencyUS_def latency_def weights f64_of_int64_finite
    by (intro f_weigh3 [of _ 63] b weight_range) simp_all
qed

lemma latency_mono:
  assumes "sint (e_AckP50US x) \<le> sint (e_AckP50US y)" "sint (e_AckP90US x) \<le> sint (e_AckP90US y)"
    "sint (e_AckP99US x) \<le> sint (e_AckP99US y)"
  shows "latency x \<le> latency y"
  unfolding latency_def by (intro b64.weigh3_mono rnd_mono weight_range of_int_le_iff [THEN iffD2] assms) simp_all

text \<open>The three clamped components and their weighted sum.\<close>

definition mix :: "rat \<Rightarrow> rat \<Rightarrow> rat \<Rightarrow> rat" where
  "mix l t c = weigh3 rnd (rnd (35 / 100)) (rnd (35 / 100)) (rnd (30 / 100)) l t c"

lemma mix_eq:
  assumes "l \<in> {0..1}" "t \<in> {0..1}" "c \<in> {0..1}"
  shows "f_add (f_add (f_mul (Fin l) (f64 (35 / 100))) (f_mul (Fin t) (f64 (35 / 100)))) (f_mul (Fin c) (f64 (30 / 100))) = Fin (mix l t c)"
proof -
  have w: "\<bar>rnd (35 / 100)\<bar> \<le> 1" "\<bar>rnd (30 / 100)\<bar> \<le> 1" by (rule weight_range(2), simp, simp)+
  have b: "\<bar>l\<bar> \<le> 2 ^ 0" "\<bar>t\<bar> \<le> 2 ^ 0" "\<bar>c\<bar> \<le> 2 ^ 0" using assms by simp_all
  show ?thesis unfolding weights mix_def by (rule f_weigh3 [OF b w(1) w(1) w(2)]) simp
qed

lemma mix_one: "mix 1 1 1 = 1"
  by code_simp

lemma mix_mono: "l \<le> l' \<Longrightarrow> t \<le> t' \<Longrightarrow> c \<le> c' \<Longrightarrow> mix l t c \<le> mix l' t' c'"
  unfolding mix_def by (intro b64.weigh3_mono weight_range) simp_all

lemma mix_range: "l \<in> {0..1} \<Longrightarrow> t \<in> {0..1} \<Longrightarrow> c \<in> {0..1} \<Longrightarrow> mix l t c \<in> {0..1}"
  using b64.weigh3_range [of "rnd (35 / 100)" "rnd (35 / 100)" "rnd (30 / 100)" l t c] weight_range(1) mix_one
  by (simp add: mix_def)

text \<open>
  The score on the inputs a decoded event can have: finite numbers (a JSON number is finite), a
  positive finite latency ceiling and a throughput ceiling that is finite and not zero.
\<close>

lemma computeScore_eq:
  assumes "0 < L" and "T \<noteq> 0" and "e_TPS event = Fin tps" and "e_CorrectnessScore event = Fin cor"
  obtains l t where "clamp01 (f_sub (Fin 1) (f64 (latency event / L))) = Fin l" "clamp01 (f64 (tps / T)) = Fin t"
    "l \<in> {0..1}" "t \<in> {0..1}" "computeScore (Fin L) (Fin T) event = Fin (mix l t (max 0 (min 1 cor)))"
proof -
  have "f_sub (Fin 1) (f64 (latency event / L)) \<noteq> NaN"
    by (cases "f64 (latency event / L)") (simp_all add: f_sub_def)
  then obtain l where l: "clamp01 (f_sub (Fin 1) (f64 (latency event / L))) = Fin l" "0 \<le> l" "l \<le> 1"
    using clamp01_range by blast
  obtain t where t: "clamp01 (f64 (tps / T)) = Fin t" "0 \<le> t" "t \<le> 1" using clamp01_range [OF f64_not_NaN] by blast
  have z: "(L = 0) = False" "(T = 0) = False" using assms(1,2) by auto
  have "l \<in> {0..1}" "t \<in> {0..1}" "max 0 (min 1 cor) \<in> {0..1}" using l t by simp_all
  moreover from mix_eq [OF this] have "computeScore (Fin L) (Fin T) event = Fin (mix l t (max 0 (min 1 cor)))"
    by (simp only: computeScore_def Let_def weightedLatencyUS_eq f_div.simps z if_False assms(3,4) l(1) t(1) clamp01_Fin)
  ultimately show ?thesis by (intro that [OF l(1) t(1)])
qed

section \<open>The leaderboard\<close>

definition redis_empty :: Redis where
  "redis_empty = \<lparr>leaderboard = Map.empty, leaderboard_details = Map.empty, leaderboard_updates = []\<rparr>"

text \<open>The board and the details always agree: the same members, the score of each entry.\<close>

definition redis_ok :: "Redis \<Rightarrow> bool" where
  "redis_ok r \<longleftrightarrow> dom (leaderboard r) = dom (leaderboard_details r) \<and>
     (\<forall>sid e. leaderboard_details r sid = Some e \<longrightarrow>
        le_SubmissionID e = sid \<and> leaderboard r sid = Some (f_mul (le_Score e) (Fin 1000)) \<and> e \<in> set (leaderboard_updates r))"

lemma updateLeaderboard_cases:
  "snd (updateLeaderboard up tm event score r) =
     (if up \<and> is_finite score \<and> is_finite (e_TPS event) \<and> is_finite (clamp01 (e_CorrectnessScore event))
      then updateLeaderboardScript (f_mul score (Fin 1000)) (e_SubmissionID event) (make_entry tm event score) r else r)"
  by (simp add: updateLeaderboard_def json_Marshal_entry_def make_entry_def)

lemma script_ok:
  assumes "redis_ok r" and "le_SubmissionID e = sid" and "sc = f_mul (le_Score e) (Fin 1000)"
  shows "redis_ok (updateLeaderboardScript sc sid e r)"
proof -
  have "dom (leaderboard r) = dom (leaderboard_details r)" using assms(1) by (simp add: redis_ok_def)
  then show ?thesis
    using assms unfolding redis_ok_def updateLeaderboardScript_def by (simp add: dom_fun_upd)
qed

lemma updateLeaderboard_ok: "redis_ok r \<Longrightarrow> redis_ok (snd (updateLeaderboard up tm event score r))"
  by (simp add: updateLeaderboard_cases) (auto intro!: script_ok simp: make_entry_def)

lemma Handle_redis:
  "snd (Handle up tm event ing r) =
     snd (updateLeaderboard up tm event (computeScore (maxAcceptableLatencyUS ing) (maxAcceptableTPS ing) event) r)"
  by (simp add: Handle_def Let_def split_beta)

lemma Handle_config [simp]:
  "maxAcceptableLatencyUS (fst (Handle up tm event ing r)) = maxAcceptableLatencyUS ing"
  "maxAcceptableTPS (fst (Handle up tm event ing r)) = maxAcceptableTPS ing"
  "eventBuffer (fst (Handle up tm event ing r)) = eventBuffer ing @
     [\<lparr>p_Event = event, p_Score = computeScore (maxAcceptableLatencyUS ing) (maxAcceptableTPS ing) event\<rparr>]"
  by (simp_all add: Handle_def Let_def split_beta)

text \<open>Handling a sequence of deliveries; each says whether Redis is up, the time and the event.\<close>

definition handle_all :: "(bool \<times> string \<times> BotMetricsEvent) list \<Rightarrow> Ingester \<Rightarrow> Redis \<Rightarrow> Ingester \<times> Redis" where
  "handle_all ds ing r = fold (\<lambda>(up, tm, event) (ing, r). Handle up tm event ing r) ds (ing, r)"

lemma handle_all_snoc:
  "handle_all (ds @ [(up, tm, event)]) ing r = (case handle_all ds ing r of (ing', r') \<Rightarrow> Handle up tm event ing' r')"
  by (simp add: handle_all_def)

lemma handle_all_config:
  "maxAcceptableLatencyUS (fst (handle_all ds ing r)) = maxAcceptableLatencyUS ing \<and>
   maxAcceptableTPS (fst (handle_all ds ing r)) = maxAcceptableTPS ing"
proof (induction ds rule: rev_induct)
  case (snoc d ds)
  then show ?case by (cases d) (simp add: handle_all_snoc split_beta)
qed (simp add: handle_all_def)

lemma handle_all_redis_ok: "redis_ok r \<Longrightarrow> redis_ok (snd (handle_all ds ing r))"
proof (induction ds rule: rev_induct)
  case (snoc d ds)
  then show ?case
    by (cases d) (simp add: handle_all_snoc split_beta Handle_redis updateLeaderboard_ok)
qed (simp add: handle_all_def)

lemma handle_all_buffer:
  "eventBuffer (fst (handle_all ds ing r)) = eventBuffer ing @
     map (\<lambda>(up, tm, event). \<lparr>p_Event = event, p_Score = computeScore (maxAcceptableLatencyUS ing) (maxAcceptableTPS ing) event\<rparr>) ds"
proof (induction ds rule: rev_induct)
  case (snoc d ds)
  then show ?case using handle_all_config [of ds ing r] by (cases d) (simp add: handle_all_snoc split_beta)
qed (simp add: handle_all_def)

section \<open>Flushing\<close>

text \<open>
  What the batch protocol promises: one result per statement; all statements succeed and take
  effect in order, or none takes effect (a batch is one implicit transaction).
\<close>

definition atomic_driver :: "send_batch \<Rightarrow> bool" where
  "atomic_driver send \<longleftrightarrow> (\<forall>qs db. length (fst (send qs db)) = length qs \<and>
     (if list_all id (fst (send qs db)) then snd (send qs db) = fold apply_query qs db else snd (send qs db) = db))"

definition batch_of :: "int \<Rightarrow> EventScorePair list \<Rightarrow> query list" where
  "batch_of tm pairs = concat (map (pair_queries tm) pairs)"

lemma length_batch_of: "length (batch_of tm pairs) = length pairs * 2"
  by (induction pairs) (simp_all add: batch_of_def pair_queries_def)

lemma writeBatch_atomic:
  assumes "atomic_driver send"
  shows "writeBatch send tm pairs db =
    (let rs = fst (send (batch_of tm pairs) db)
     in if list_all id rs then (None, fold apply_query (batch_of tm pairs) db)
        else (Some (BatchError (length (filter (\<lambda>ok. \<not> ok) rs))), db))"
proof -
  let ?rs = "fst (send (batch_of tm pairs) db)"
  have l: "length ?rs = length pairs * 2" using assms by (simp add: atomic_driver_def length_batch_of)
  have "(filter (\<lambda>ok. \<not> ok) ?rs = []) = list_all id ?rs" by (auto simp: filter_empty_conv list_all_iff)
  then show ?thesis
    using assms l unfolding writeBatch_def batch_of_def [symmetric] Let_def atomic_driver_def
    by (auto simp: split_beta)
qed

text \<open>The attempt that decides the flush: the first one that succeeds, unless the context ends before it.\<close>

definition attempt_ok :: "attempt \<Rightarrow> EventScorePair list \<Rightarrow> Database \<Rightarrow> bool" where
  "attempt_ok w pairs db = list_all id (fst (w_send w (batch_of (w_time w) pairs) db))"

lemma flush_loop_result:
  assumes "\<And>n. atomic_driver (w_send (ws n))"
  shows "flush_loop k n ws pairs db =
    (case find (\<lambda>i. attempt_ok (ws i) pairs db \<or> 0 < i \<and> w_ctx_done (ws i)) [n..<n + k] of
       Some i \<Rightarrow> if 0 < i \<and> w_ctx_done (ws i) then db else fold apply_query (batch_of (w_time (ws i)) pairs) db
     | None \<Rightarrow> db)"
proof (induction k arbitrary: n)
  case (Suc k)
  have "[n..<n + Suc k] = n # [Suc n..<Suc n + k]" by (simp add: upt_conv_Cons del: upt_Suc)
  moreover have "flush_loop (Suc k) n ws pairs db =
    (if 0 < n \<and> w_ctx_done (ws n) then db
     else if attempt_ok (ws n) pairs db then fold apply_query (batch_of (w_time (ws n)) pairs) db
     else flush_loop k (Suc n) ws pairs db)"
    by (simp add: writeBatch_atomic [OF assms] attempt_ok_def Let_def)
  ultimately show ?case
    unfolding Suc.IH [of "Suc n"] by (simp del: upt_Suc add_Suc add_Suc_right flush_loop.simps)
qed simp

section \<open>Connection and consumption\<close>

text \<open>The waits are powers of two; once past 30 seconds they stay at 32.\<close>

definition backoff_at :: "nat \<Rightarrow> nat" where
  "backoff_at n = 2 ^ min n 5"

lemma next_backoff_at: "next_backoff (backoff_at n) = backoff_at (Suc n)"
proof (cases "n < 5")
  case True
  then consider "n = 0" | "n = 1" | "n = 2" | "n = 3" | "n = 4" by linarith
  then show ?thesis by cases (simp_all add: next_backoff_def backoff_at_def)
qed (simp add: next_backoff_def backoff_at_def)

lemma connectRedis_loop_waits:
  "connectRedis_loop (backoff_at n) ts = (res, ws) \<Longrightarrow> ws = map backoff_at [n..<n + length ws]"
proof (induction ts arbitrary: n ws)
  case (Cons t ts)
  show ?case
  proof (cases "ping_ok t \<or> ctx_err t \<or> ctx_wait t")
    case True
    with Cons.prems show ?thesis by (auto split: if_splits)
  next
    case False
    then obtain ws' where "connectRedis_loop (backoff_at (Suc n)) ts = (res, ws')" "ws = backoff_at n # ws'"
      using Cons.prems by (auto simp: next_backoff_at split: prod.splits)
    with Cons.IH [of "Suc n" ws'] show ?thesis by (simp add: upt_conv_Cons del: upt_Suc)
  qed
qed simp

lemma Consumer_Run_events:
  "Consumer_Run handler ps s =
   fold handler (filter (\<lambda>e. e_Event e = ''bot.metrics'')
     (somes (concat (map poll_records (takeWhile (\<lambda>p. \<not> poll_ctx_done p) ps))))) s"
proof (induction ps arbitrary: s)
  case (Cons p ps)
  have "fold (consume_record handler) rs s =
      fold handler (filter (\<lambda>e. e_Event e = ''bot.metrics'') (somes rs)) s" for rs s
    by (induction rs arbitrary: s rule: somes.induct) (simp_all add: consume_record_def)
  with Cons show ?case by simp
qed simp

end
