(* ===== verification/Bot_Runner.thy ===== *)
theory Bot_Runner
  imports Load_Bot Correctness_Bot Telemetry
begin

text \<open>
  The bot runner's main program and publisher (\<open>src/services/bot-runner/main.go\<close>, \<open>publisher.go\<close>):
  assignment of sequences to bots, the warm-up quorum, and the event published at the end of a run.
\<close>

section \<open>Bots and warm-up\<close>

definition assign_sequence :: "int64 \<Rightarrow> Sequence" where
  "assign_sequence i = (let seqs = sequences i in seqs ! nat (sint i mod int (length seqs)))"

definition assign_bots :: "nat \<Rightarrow> (int64 \<times> Sequence) list" where
  "assign_bots numBots = map (\<lambda>i. (word_of_nat i, assign_sequence (word_of_nat i))) [0..<numBots]"

text \<open>\<open>int(float64(numBots) * 0.8)\<close> truncates.\<close>

definition quorum :: "nat \<Rightarrow> int" where
  "quorum numBots = (case f_mul (f64 (of_nat numBots)) (f64 (8 / 10)) of Fin x \<Rightarrow> \<lfloor>x\<rfloor> | _ \<Rightarrow> 0)"

datatype warmup_event = Ready | WarmupTimeout | CtxDone

text \<open>The warm-up loop: at most \<open>numBots\<close> turns (\<open>k\<close> are left). Gives the number of ready bots when it ends;
  \<open>None\<close> when it still waits after the given events.\<close>

fun warmup_loop :: "nat \<Rightarrow> int \<Rightarrow> int \<Rightarrow> warmup_event list \<Rightarrow> int option" where
  "warmup_loop 0 q readyCount evs = Some readyCount"
| "warmup_loop (Suc k) q readyCount [] = None"
| "warmup_loop (Suc k) q readyCount (ev # evs) =
     (case ev of
        Ready \<Rightarrow> if q \<le> readyCount + 1 then Some (readyCount + 1) else warmup_loop k q (readyCount + 1) evs
      | WarmupTimeout \<Rightarrow> Some readyCount
      | CtxDone \<Rightarrow> Some readyCount)"

definition warmup :: "nat \<Rightarrow> warmup_event list \<Rightarrow> int option" where
  "warmup numBots evs = warmup_loop numBots (quorum numBots) 0 evs"

section \<open>Publishing\<close>

text \<open>\<open>Duration.Seconds\<close> of a duration in nanoseconds; the division truncates.\<close>

definition duration_Seconds :: "int64 \<Rightarrow> float64" where
  "duration_Seconds d =
     (let sec = f64 (of_int (sgn (sint d) * (\<bar>sint d\<bar> div 1000000000)));
          nsec = f64 (of_int (sgn (sint d) * (\<bar>sint d\<bar> mod 1000000000)))
      in f_add sec (f_div nsec (Fin 1000000000)))"

definition duration_Milliseconds :: "int64 \<Rightarrow> int64" where
  "duration_Milliseconds d = word_of_int (sgn (sint d) * (\<bar>sint d\<bar> div 1000000))"

text \<open>What the publisher reads from a histogram.\<close>

record 'h Histogram =
  ValueAtQuantile :: "rat \<Rightarrow> 'h \<Rightarrow> int64"
  Max_value :: "'h \<Rightarrow> int64"

definition metrics_event ::
    "'h Histogram \<Rightarrow> 'h AggregateMetrics \<Rightarrow> int64 \<Rightarrow> string \<Rightarrow> string \<Rightarrow> string \<Rightarrow> float64 \<Rightarrow> int64 \<Rightarrow> BotMetricsEvent" where
  "metrics_event H agg duration teamName submissionID testRunID correctnessScore emitted =
     (let tps = f_div (f64 (of_int (ordersSent agg))) (duration_Seconds duration)
      in \<lparr>e_Event = ''bot.metrics'', e_TeamName = teamName, e_SubmissionID = submissionID, e_TestRunID = testRunID,
          e_DurationMS = duration_Milliseconds duration, e_OrdersSent = word_of_int (ordersSent agg),
          e_AcksRecv = word_of_int (acksRecv agg), e_FillsRecv = word_of_int (fillsRecv agg),
          e_RejectsRecv = word_of_int (rejectsRecv agg), e_StaleOrders = word_of_int (staleOrders agg),
          e_AckP50US = ValueAtQuantile H 50 (ackLatency agg), e_AckP90US = ValueAtQuantile H 90 (ackLatency agg),
          e_AckP99US = ValueAtQuantile H 99 (ackLatency agg), e_AckP999US = ValueAtQuantile H (999 / 10) (ackLatency agg),
          e_AckMaxUS = Max_value H (ackLatency agg),
          e_FillP50US = ValueAtQuantile H 50 (fillLatency agg), e_FillP90US = ValueAtQuantile H 90 (fillLatency agg),
          e_FillP99US = ValueAtQuantile H 99 (fillLatency agg), e_FillP999US = ValueAtQuantile H (999 / 10) (fillLatency agg),
          e_FillMaxUS = Max_value H (fillLatency agg), e_TPS = tps, e_CorrectnessScore = correctnessScore,
          e_EmittedAt = emitted\<rparr>)"

text \<open>
  \<open>publishMetrics\<close>: without a client nothing is sent; an event with a number that is not finite cannot be
  encoded; the broker may refuse the record (\<open>broker_ok\<close>). Otherwise the record, keyed by the
  submission, is on the topic.
\<close>

datatype publish_error = MarshalFailed | ProduceFailed

definition publishMetrics :: "bool \<Rightarrow> bool \<Rightarrow> BotMetricsEvent \<Rightarrow> publish_error + (string \<times> BotMetricsEvent) list" where
  "publishMetrics has_client broker_ok event =
     (if \<not> has_client then Inr []
      else if \<not> (is_finite (e_TPS event) \<and> is_finite (e_CorrectnessScore event)) then Inl MarshalFailed
      else if \<not> broker_ok then Inl ProduceFailed
      else Inr [(e_SubmissionID event, event)])"

text \<open>
  The end of \<open>run\<close>, once the bots have stopped: a context that is over discards the measurements;
  otherwise they are merged and published, unless the run has no id. Gives what is on the topic.
\<close>

definition run_finish ::
    "bool \<Rightarrow> bool \<Rightarrow> bool \<Rightarrow> 'h Histogram \<Rightarrow> ('h \<Rightarrow> 'h \<Rightarrow> int \<times> 'h) \<Rightarrow> 'h \<Rightarrow> 'h BotMetrics list \<Rightarrow> int64 \<Rightarrow>
     string \<Rightarrow> string \<Rightarrow> float64 \<Rightarrow> int64 \<Rightarrow> (string \<times> BotMetricsEvent) list" where
  "run_finish ctx_over has_client broker_ok H Merge h bots elapsed teamName submissionID correctness emitted =
     (if ctx_over then []
      else let agg = merge Merge h bots
           in if submissionID \<noteq> '''' then
                (case publishMetrics has_client broker_ok
                        (metrics_event H agg elapsed teamName submissionID submissionID correctness emitted) of
                   Inl _ \<Rightarrow> [] | Inr recs \<Rightarrow> recs)
              else [])"

section \<open>Merging\<close>

lemma merge_bot_counts:
  "ordersSent (merge_bot Merge b agg) = ordersSent agg + ordersSent b"
  "acksRecv (merge_bot Merge b agg) = acksRecv agg + acksRecv b"
  "fillsRecv (merge_bot Merge b agg) = fillsRecv agg + fillsRecv b"
  "rejectsRecv (merge_bot Merge b agg) = rejectsRecv agg + rejectsRecv b"
  "staleOrders (merge_bot Merge b agg) = staleOrders agg + staleOrders b"
  by (simp_all add: merge_bot_def Let_def split_beta)

lemma fold_counter:
  fixes f :: "'h AggregateMetrics \<Rightarrow> int"
  assumes "\<And>b agg. f (merge_bot Merge b agg) = f agg + g b"
  shows "f (fold (merge_bot Merge) bots agg) = f agg + sum_list (map g bots)"
  by (induction bots arbitrary: agg) (simp_all add: assms)

end
