(* ===== verification/Bot_Props.thy ===== *)
theory Bot_Props
  imports Bot_Runner Stub_Props
begin

text \<open>The theorems about the bot runner.\<close>

section \<open>Counting assertions\<close>

lemma assert_replies_count: "assert_replies i step g = (p, fs) \<Longrightarrow> p + length fs \<le> 5"
  by (auto simp: assert_replies_def Let_def split: if_splits prod.splits)

lemma assert_book_count: "assert_book i step q = (p, fs) \<Longrightarrow> p + length fs \<le> 2"
  by (auto simp: assert_book_def Let_def split: if_splits prod.splits option.splits)

lemma run_steps_count: "run_steps P i steps tags e = (p, fs, e') \<Longrightarrow> p + length fs \<le> 7 * length steps"
proof (induction P i steps tags e arbitrary: p fs e' rule: run_steps.induct)
  case (2 P i step steps tags e)
  note prems = "2.prems" [simplified run_steps.simps]
  show ?case
  proof (cases "st_Kind step = StepCancel \<and> tags (st_CancelTag step) = None")
    case True
    then obtain fs' where "run_steps P (Suc i) steps tags e = (p, fs', e')" "fs = TagNotFound i (st_CancelTag step) # fs'"
      using prems by (auto split: prod.splits)
    then show ?thesis using "2.IH"(1) [OF True] by fastforce
  next
    case False
    let ?oid = "if st_Kind step = StepCancel then the (tags (st_CancelTag step)) else cx_orderID i (st_Tag step)"
    let ?tags = "if st_Kind step = StepCancel then tags else tags(st_Tag step \<mapsto> ?oid)"
    let ?payload = "if st_Kind step = StepCancel then cancel_payload ?oid else order_payload ?oid step"
    show ?thesis
    proof (cases "peer_write P ?payload e")
      case None
      then show ?thesis using prems False by (auto simp: Let_def)
    next
      case (Some e1)
      obtain g over unread where rl: "read_loop step (peer_pending P e1) got_nothing = (g, over, unread)" by (metis prod_cases3)
      obtain p1 f1 where a: "assert_replies i step g = (p1, f1)" by fastforce
      define e2 where "e2 = peer_unread P unread e1"
      obtain p2 f2 e3 where b: "(if 0 \<le> st_ExpectBookBids step \<or> 0 \<le> st_ExpectBookAsks step
          then (case peer_query P e2 of (q, e3) \<Rightarrow> (case assert_book i step q of (p2, f2) \<Rightarrow> (p2, f2, e3)))
          else (0, [], e2)) = (p2, f2, e3)" by (metis prod_cases3)
      obtain p3 f3 e4 where r: "run_steps P (Suc i) steps ?tags e3 = (p3, f3, e4)" by (metis prod_cases3)
      have "p2 + length f2 \<le> 2" using b assert_book_count by (auto split: if_splits prod.splits)
      moreover have "p1 + length f1 \<le> 5" by (rule assert_replies_count [OF a])
      moreover have "p3 + length f3 \<le> 7 * length steps" if "\<not> over"
        using "2.IH"(2) [OF False refl refl refl Some rl [symmetric] refl e2_def that a [symmetric] refl b [symmetric] refl refl r] .
      moreover have "(p, fs, e') = (if over then (0, [ContextCancelled i], e2) else (p1 + p2 + p3, f1 @ f2 @ f3, e4))"
        using prems False Some rl a b r by (simp add: Let_def e2_def split: if_splits)
      ultimately show ?thesis by (auto split: if_splits)
    qed
  qed
qed simp

lemma runSequence_count: "runSequence P sq e = (p, fs, e') \<Longrightarrow> p + length fs \<le> 7 * length (sq_Steps sq) + 1"
  using run_steps_count [of P 0 "sq_Steps sq"]
  by (fastforce simp: runSequence_def split: option.splits prod.splits)

lemma run_sequences_count:
  "run_sequences P sqs e = (p, fs, e') \<Longrightarrow> p + length fs \<le> (\<Sum>sq\<leftarrow>sqs. 7 * length (sq_Steps sq) + 1)"
proof (induction sqs arbitrary: e p fs e')
  case (Cons sq sqs)
  obtain p1 f1 e1 where 1: "runSequence P sq e = (p1, f1, e1)" by (metis prod_cases3)
  obtain p2 f2 e2 where 2: "run_sequences P sqs e1 = (p2, f2, e2)" by (metis prod_cases3)
  show ?case using Cons.prems Cons.IH [OF 2] runSequence_count [OF 1] 1 2 by auto
qed simp

section \<open>The score of the correctness run\<close>

lemma rnd_below_one:
  assumes "x \<le> 1 - 1 / 2 ^ 53"
  shows "rnd x < 1"
proof -
  have "rnd_pos (of_int (2 ^ 53 - 1) * 2 powi (- 53)) = of_int (2 ^ 53 - 1) * 2 powi (- 53)" by (rule rnd_pos_exact) auto
  moreover have "(of_int (2 ^ 53 - 1) * 2 powi (- 53) :: rat) = 1 - 1 / 2 ^ 53" by (simp add: power_int_def field_simps)
  ultimately have "rnd (1 - 1 / 2 ^ 53) = 1 - 1 / 2 ^ 53" by (simp add: rnd_def)
  then show ?thesis using rnd_mono [OF assms] by simp
qed

lemma correctness_score_eq:
  assumes "0 < p + f" "p + f < 2 ^ 52"
  shows "correctness_score p (p + f) = Fin (rnd (of_nat p / of_nat (p + f)))"
    and "0 \<le> rnd (of_nat p / of_nat (p + f))" "rnd (of_nat p / of_nat (p + f)) \<le> 1"
    and "rnd (of_nat p / of_nat (p + f)) = 1 \<longleftrightarrow> f = 0"
proof -
  let ?x = "of_nat p / of_nat (p + f) :: rat"
  have "(of_nat p :: rat) \<le> of_nat (p + f)" by simp
  then have x: "0 \<le> ?x" "?x \<le> 1" using assms(1) by (simp_all add: divide_le_eq_1 del: of_nat_add)
  show r: "0 \<le> rnd ?x" "rnd ?x \<le> 1" using rnd_mono [OF x(1)] rnd_mono [OF x(2)] by simp_all
  have i: "f64 (of_nat n) = Fin (of_nat n)" if "n < 2 ^ 52" for n
    using f64_of_small_int [of "int n"] that by simp
  have "f_div (f64 (of_nat p)) (f64 (of_nat (p + f))) = Fin (rnd ?x)"
    using i [of p] i [OF assms(2)] assms f64_finite [of ?x 0] x by (simp del: of_nat_add)
  then show "correctness_score p (p + f) = Fin (rnd ?x)"
    using assms(1) r(1) by (auto simp: correctness_score_def math_Max_def)
  show "rnd ?x = 1 \<longleftrightarrow> f = 0"
  proof
    assume one: "rnd ?x = 1"
    show "f = 0"
    proof (rule ccontr)
      assume "f \<noteq> 0"
      have "(of_nat (p + f) :: rat) \<le> 2 ^ 53" using assms(2) of_nat_mono [of "p + f" "2 ^ 53"] by simp
      then have "1 / 2 ^ 53 \<le> 1 / (of_nat (p + f) :: rat)" using assms(1) by (intro frac_le) (simp_all del: of_nat_add)
      also have "\<dots> \<le> of_nat f / of_nat (p + f)" using \<open>f \<noteq> 0\<close> by (intro divide_right_mono) simp_all
      also have "\<dots> = 1 - ?x"
      proof -
        have "(of_nat (p + f) :: rat) \<noteq> 0" using assms(1) by (simp del: of_nat_add)
        then have "1 - ?x = (of_nat (p + f) - of_nat p) / of_nat (p + f)" by (simp add: diff_divide_distrib del: of_nat_add)
        then show ?thesis by simp
      qed
      finally have "?x \<le> 1 - 1 / 2 ^ 53" by linarith
      with rnd_below_one [of ?x] one show False by simp
    qed
  qed (use assms in simp)
qed

section \<open>Properties of the correctness run\<close>


section \<open>Orders of the load bots\<close>

lemma length_dec_nat: "n < 10 ^ k \<Longrightarrow> 0 < k \<Longrightarrow> length (dec_nat n) \<le> k"
proof (induction k arbitrary: n)
  case (Suc k)
  show ?case
  proof (cases "n < 10")
    case True
    then show ?thesis by (subst dec_nat.simps) simp
  next
    case False
    then have "0 < k" using Suc.prems(1) by (cases k) auto
    moreover have "n div 10 < 10 ^ k" using Suc.prems(1) by (simp add: less_mult_imp_div_less mult.commute)
    ultimately have "length (dec_nat (n div 10)) \<le> k" using Suc.IH by blast
    with False show ?thesis by (subst dec_nat.simps) simp
  qed
qed simp

lemma wire_price_int: "\<bar>k\<bar> < 2 ^ 53 \<Longrightarrow> wire_price (of_int k) = of_int k"
proof -
  assume "\<bar>k\<bar> < 2 ^ 53"
  moreover have "(of_int k * 1000000 :: rat) = of_int (k * 1000000)" by simp
  then have "rhe (of_int k * 1000000) = k * 1000000" by (simp only: rhe_of_int)
  ultimately show ?thesis by (simp add: wire_price_def rnd_of_int)
qed

lemma orderID_accepted:
  assumes "0 \<le> b" "b < 10 ^ 12" "0 \<le> i" "i < 10 ^ 19" "length tag \<le> 20" "list_all orderID_char tag"
  shows "orderIDRegex_MatchString (orderID b i tag)" "length (orderID b i tag) \<le> 64" "orderID b i tag \<noteq> []"
proof -
  have d: "list_all orderID_char (dec x)" if "0 \<le> x" for x
    using dec_nonneg_digits [OF that] by (auto simp: list_all_iff orderID_char_def is_alnum_def)
  have l: "length (dec b) \<le> 12" "length (dec i) \<le> 19"
    using length_dec_nat [of "nat b" 12] length_dec_nat [of "nat i" 19] assms by (simp_all add: dec_def nat_less_iff)
  have c: "orderID_char (CHR ''b'')" "orderID_char (CHR ''i'')" "orderID_char (CHR ''-'')" by code_simp+
  show "orderIDRegex_MatchString (orderID b i tag)"
    using d assms c by (simp add: orderIDRegex_MatchString_def orderID_def)
  show "length (orderID b i tag) \<le> 64" "orderID b i tag \<noteq> []" using l assms(5) by (simp_all add: orderID_def)
qed

text \<open>The tags, sides, types, quantities and prices of the load sequences.\<close>

lemma sequences_steps:
  assumes "sq \<in> set (sequences b)" "step \<in> set (sq_Steps sq)" "st_Kind step = StepOrder"
    and b: "0 \<le> sint b" "sint b < 2 ^ 40"
  shows "length (st_Tag step) \<le> 20" "list_all orderID_char (st_Tag step)"
    and "st_Side step = ''buy'' \<or> st_Side step = ''sell''" "st_OrderType step = ''limit'' \<or> st_OrderType step = ''market''"
    and "0 < sint (st_Quantity step)"
    and "st_OrderType step = ''limit'' \<longrightarrow> (\<exists>k \<in> {0, 1, 2}. st_Price step = of_int ((sint b + 1) * 1000 - k))"
proof -
  let ?p = "(sint b + 1) * 1000"
  have p: "basePrice b = of_int ?p" by (rule basePrice_exact [OF b])
  have e: "rnd (of_int ?p - 1) = of_int (?p - 1)" "rnd (of_int ?p - 2) = of_int (?p - 2)"
    using rnd_of_int [of "?p - 1"] rnd_of_int [of "?p - 2"] b by simp_all
  have t: "list_all orderID_char ''bid1''" "list_all orderID_char ''ask1''" "list_all orderID_char ''bid-0''"
    "list_all orderID_char ''bid-1''" "list_all orderID_char ''bid-2''" "list_all orderID_char ''sweep''"
    "list_all orderID_char ''resting''" "list_all orderID_char ''probe''" by code_simp+
  have "step \<in> {limit_step ''bid1'' ''buy'' (of_int ?p) 10, limit_step ''ask1'' ''sell'' (of_int ?p) 10,
      limit_step ''bid-0'' ''buy'' (of_int ?p) 5, limit_step ''bid-1'' ''buy'' (of_int (?p - 1)) 5,
      limit_step ''bid-2'' ''buy'' (of_int (?p - 2)) 5, market_step ''sweep'' ''sell'' 15,
      limit_step ''resting'' ''buy'' (of_int ?p) 10, limit_step ''probe'' ''sell'' (of_int ?p) 10}"
    using assms(1-3) unfolding sequences_def basicMatch_def partialFillLadder_def cancelCorrectness_def Let_def p e
    by (auto simp: cancel_step_def)
  then have "length (st_Tag step) \<le> 20 \<and> list_all orderID_char (st_Tag step) \<and>
    (st_Side step = ''buy'' \<or> st_Side step = ''sell'') \<and> (st_OrderType step = ''limit'' \<or> st_OrderType step = ''market'') \<and>
    0 < sint (st_Quantity step) \<and> (st_OrderType step = ''limit'' \<longrightarrow> (\<exists>k \<in> {0, 1, 2}. st_Price step = of_int (?p - k)))"
    by (elim insertE emptyE) (simp_all add: t limit_step_def market_step_def zero_Step_def del: list.pred_inject of_int_add of_int_mult of_int_diff)
  then show "length (st_Tag step) \<le> 20" "list_all orderID_char (st_Tag step)"
    "st_Side step = ''buy'' \<or> st_Side step = ''sell''" "st_OrderType step = ''limit'' \<or> st_OrderType step = ''market''"
    "0 < sint (st_Quantity step)" "st_OrderType step = ''limit'' \<longrightarrow> (\<exists>k \<in> {0, 1, 2}. st_Price step = of_int ((sint b + 1) * 1000 - k))"
    by blast+
qed

section \<open>Properties of the load bots\<close>

text \<open>
  Order ids never collide: over all bots, iterations and tags, two orders have the same id only if
  they are the same order of the same bot in the same iteration.
\<close>

theorem orderID_unique:
  assumes "0 \<le> b" and "0 \<le> b'" and "0 \<le> i" and "0 \<le> i'"
  shows "orderID b i tag = orderID b' i' tag' \<longleftrightarrow> b = b' \<and> i = i' \<and> tag = tag'"
  by (rule orderID_inject [OF assms])

theorem orderID_unique_witness:
  "orderID 1 23 ''bid1'' \<noteq> orderID 12 3 ''bid1'' \<and> orderID 1 23 ''bid1'' = ''b1-i23-bid1''"
proof -
  have "orderID 1 23 ''bid1'' = ''b1-i23-bid1''" by code_simp
  with orderID_unique [of 1 12 23 3 "''bid1''" "''bid1''"] show ?thesis by simp
qed

text \<open>
  Every order a load bot sends is well formed for the engine: the order id matches the engine's
  pattern and length limit, side, type and quantity are valid, and the price of a limit order is
  positive, for every bot below \<open>2^39\<close> and every iteration an \<open>int64\<close> can count.
\<close>

theorem load_orders_valid:
  assumes "0 \<le> sint b" and "sint b < 2 ^ 39" and "0 \<le> i" and "i < 2 ^ 63"
    and "sq \<in> set (sequences b)" and "step \<in> set (sq_Steps sq)" and "st_Kind step = StepOrder"
  shows "valid_order (order_payload (orderID (sint b) i (st_Tag step)) step)"
proof -
  have b: "sint b < 2 ^ 40" using assms(2) by simp
  note q = sequences_steps [OF assms(5-7) assms(1) b]
  have id: "orderIDRegex_MatchString (orderID (sint b) i (st_Tag step))" "length (orderID (sint b) i (st_Tag step)) \<le> 64"
    "orderID (sint b) i (st_Tag step) \<noteq> []"
    using orderID_accepted [of "sint b" i "st_Tag step"] q(1,2) assms(1-4) by simp_all
  have "0 < wire_price (st_Price step)" if "st_OrderType step = ''limit''"
  proof -
    from q(6) that obtain k where k: "k \<in> {0, 1, 2}" "st_Price step = of_int ((sint b + 1) * 1000 - k)" by blast
    then have "\<bar>(sint b + 1) * 1000 - k\<bar> < 2 ^ 53" "0 < (sint b + 1) * 1000 - k" using assms(1) b by auto
    then show ?thesis unfolding k(2) by (subst wire_price_int) (simp_all only: of_int_0_less_iff)
  qed
  then show ?thesis
    using q(3-5) id by (auto simp: valid_order_def bad_fields_def order_payload_def)
qed

theorem load_orders_valid_witness:
  "valid_order (order_payload (orderID 3 7 ''bid1'') (limit_step ''bid1'' ''buy'' (basePrice 3) 10))"
proof -
  have s: "sint (3 :: int64) = 3" by code_simp
  have k: "st_Kind (limit_step ''bid1'' ''buy'' (basePrice 3) 10) = StepOrder"
    "st_Tag (limit_step ''bid1'' ''buy'' (basePrice 3) 10) = ''bid1''" by (simp_all add: limit_step_def)
  show ?thesis
    using load_orders_valid [of 3 7 "basicMatch 3" "limit_step ''bid1'' ''buy'' (basePrice 3) 10"] s k
    by (simp add: sequences_def basicMatch_def Let_def)
qed

text \<open>A bid of bot 1 rests in the book and an order of bot 0 comes in.\<close>

definition band_stub :: Stub where
  "band_stub = stub_receive ''h/1'' (demo_msg ''b1-i0-bid1'' ''buy'' (basePrice 1) 10) (stub_connect ''h'' (stub_init (\<lambda>n. 0)))"

definition band_book :: Orderbook where
  "band_book = snd (alloc (new_Order ''g/1'' (demo_msg ''b0-i0-ask1'' ''sell'' (basePrice 0) 10) 9) (s_book band_stub))"

lemma band_book_facts: "book_ok band_book" "free_order 1 band_book"
proof -
  have "''h/1'' \<in> set (s_live (stub_connect ''h'' (stub_init (\<lambda>n. 0))))" by code_simp
  then have "stub_reachable band_stub"
    unfolding band_stub_def by (intro stub_reachable_step [OF _ stub_step.receive] stub_reachable_step [OF _ stub_step.connect] stub_reachable_start)
  then have ok: "book_ok (s_book band_stub)" using stub_reachable_inv by (simp add: stub_inv_def)
  let ?o = "new_Order ''g/1'' (demo_msg ''b0-i0-ask1'' ''sell'' (basePrice 0) 10) 9"
  have al: "alloc ?o (s_book band_stub) = (1, band_book)"
  proof (rule prod_eqI)
    show "fst (alloc ?o (s_book band_stub)) = fst (1, band_book)" by code_simp
  qed (simp add: band_book_def)
  have new: "orders (s_book band_stub) (o_OrderID ?o) = None" by code_simp
  show "book_ok band_book" "free_order 1 band_book" by (rule alloc_effect [OF ok al new])+
qed

text \<open>
  The price bands of the bots do not keep them apart. When the best bid belongs to the band of a
  bot with a higher number, a limit sell order at the price of a lower band trades against it, at
  the price of the other band.
\<close>

theorem bands_do_not_isolate:
  assumes m: "match_order a ob clk = (fs, ob', clk')" and ok: "book_ok ob" and free: "free_order a ob"
    and side: "o_Side (mem ob a) = ''sell''" and price: "o_Price (mem ob a) = basePrice b" and pos: "0 < sint (o_Remaining (mem ob a))"
    and best: "queue Bids ob = r # rs" and rp: "r_Price r = basePrice b'"
    and bots: "0 \<le> sint b" "sint b < sint b'" "sint b' < 2 ^ 40"
  shows "\<exists>f fs'. fs = f # fs' \<and> f_OrderID f = o_OrderID (mem ob a) \<and> f_FillPrice f = basePrice b'"
proof -
  have p: "basePrice b = of_int ((sint b + 1) * 1000)" "basePrice b' = of_int ((sint b' + 1) * 1000)"
    using basePrice_exact [of b] basePrice_exact [of b'] bots by simp_all
  have "basePrice b < basePrice b'" unfolding p of_int_less_iff using bots(2) by simp
  then have go: "\<not> price_stops Bids (basePrice b) (r_Price r)" by (simp add: rp)
  have "loop_post Bids a ob clk fs ob' clk'" using match_order_post [OF m ok free, of Asks] side by simp
  then obtain ts where sw: "sweep Bids (o_OrderType (mem ob a) = ''limit'') (basePrice b) (sint (o_Remaining (mem ob a))) (r # rs) =
      (ts, sint (o_Remaining (mem ob' a)), queue Bids ob')" and fl: "fills_are (o_OrderID (mem ob a)) (sint (o_Remaining (mem ob a))) fs ts"
    unfolding loop_post_def price best by blast
  from sw go pos obtain q ts' where "ts = (q, r_Price r) # ts'" by (auto split: if_splits prod.splits)
  with fl rp show ?thesis by (cases fs) auto
qed

theorem bands_do_not_isolate_witness:
  "\<exists>fs ob' clk' f fs'. match_order 1 band_book (s_clock band_stub) = (fs, ob', clk') \<and> fs = f # fs' \<and>
     f_OrderID f = ''b0-i0-ask1'' \<and> f_FillPrice f = basePrice 1"
proof -
  obtain fs ob' clk' where m: "match_order 1 band_book (s_clock band_stub) = (fs, ob', clk')" by (metis prod_cases3)
  have o: "o_Side (mem band_book 1) = ''sell''" "o_Price (mem band_book 1) = basePrice 0" "0 < sint (o_Remaining (mem band_book 1))"
    "o_OrderID (mem band_book 1) = ''b0-i0-ask1''" by code_simp+
  have b: "0 \<le> sint (0 :: int64)" "sint (0 :: int64) < sint (1 :: int64)" "sint (1 :: int64) < 2 ^ 40" by code_simp+
  have "map r_Price (queue Bids band_book) = [basePrice 1]" by code_simp
  then obtain r where r: "queue Bids band_book = [r]" "r_Price r = basePrice 1" by (cases "queue Bids band_book") auto
  from bands_do_not_isolate [OF m band_book_facts o(1-3) r b] o(4) m show ?thesis by auto
qed

text \<open>
  C37. Backpressure: at any moment of any run at most 21 orders are in flight, and the counter is never
  below the number of pending orders.
\<close>

theorem bot_in_flight_bound:
  assumes "bot_reachable RecordValue h botID templates s"
  shows "0 \<le> inFlight s \<and> inFlight s \<le> 21 \<and> int (card (dom (pending s))) \<le> inFlight s"
  using bot_reachable_inv [OF assms] by (auto simp: bot_inv_def leak_def)

text \<open>A run of a bot with one order template: it sends and gets no answer.\<close>

definition demo_template :: stepTemplate where
  "demo_template = make_template (limit_step ''bid1'' ''buy'' (basePrice 0) 10)"

lemma demo_template_order: "\<not> tm_isCancel demo_template"
  by (simp add: demo_template_def make_template_def limit_step_def)

lemma unanswered_run:
  "n \<le> 21 \<Longrightarrow> \<exists>s. bot_reachable R h 0 [demo_template] s \<and> inFlight s = int n \<and> w_payload s = None \<and> w_index s = 0"
proof (induction n)
  case 0
  show ?case by (rule exI [of _ "bot_start h"]) (simp add: bot_reachable_start, simp add: bot_start_def)
next
  case (Suc n)
  then obtain s where s: "bot_reachable R h 0 [demo_template] s" "inFlight s = int n" "w_payload s = None" "w_index s = 0" by auto
  let ?s1 = "bot_register 0 0 demo_template s" let ?s2 = "bot_written ?s1" let ?s3 = "bot_next_iteration ?s2"
  have "bot_step R 0 [demo_template] s ?s1"
    using bot_step.register [of s "[demo_template]" R 0 0] s Suc.prems demo_template_order by simp
  then have "bot_reachable R h 0 [demo_template] ?s1" by (rule bot_reachable_step [OF s(1)])
  moreover have "bot_step R 0 [demo_template] ?s1 ?s2" by (rule bot_step.written) (simp add: bot_register_def Let_def)
  ultimately have r2: "bot_reachable R h 0 [demo_template] ?s2" by (rule bot_reachable_step)
  have "bot_step R 0 [demo_template] ?s2 ?s3"
    by (rule bot_step.next_iteration) (simp_all add: bot_written_def bot_register_def Let_def s(4))
  then have "bot_reachable R h 0 [demo_template] ?s3" by (rule bot_reachable_step [OF r2])
  then show ?case
    using s by (intro exI [of _ ?s3]) (simp add: bot_next_iteration_def bot_written_def bot_register_def Let_def)
qed

theorem bot_in_flight_bound_witness:
  "\<exists>s. bot_reachable (\<lambda>v (n::nat). Suc n) 0 0 [demo_template] s \<and> inFlight s = 21 \<and> int (card (dom (pending s))) \<le> 21"
proof -
  obtain s where s: "bot_reachable (\<lambda>v (n::nat). Suc n) 0 0 [demo_template] s" "inFlight s = int 21"
    using unanswered_run [where n = 21 and h = "0::nat" and R = "\<lambda>v n. Suc n"] by auto
  with bot_in_flight_bound [OF s(1)] show ?thesis by auto
qed

text \<open>
  Acknowledgements and fills are counted twice: in every run the counters hold exactly two for each
  ack and each fill that was matched to a pending order.
\<close>

theorem acks_counted_twice:
  assumes "bot_reachable RecordValue h botID templates s"
  shows "acksRecv (metrics s) = 2 * n_acks s \<and> fillsRecv (metrics s) = 2 * n_fills s"
  using bot_reachable_inv [OF assms] by (simp add: bot_inv_def)

theorem acks_counted_twice_witness:
  "\<exists>s. bot_reachable (\<lambda>v (n::nat). Suc n) 0 0 [demo_template] s \<and> n_acks s = 1 \<and> acksRecv (metrics s) = 2"
proof -
  let ?R = "\<lambda>v (n::nat). Suc n"
  let ?s1 = "bot_register 0 0 demo_template (bot_start 0)"
  let ?s2 = "bot_receive ?R 5 ''ack'' (orderID 0 0 ''bid1'') 0 ?s1"
  have "bot_step ?R 0 [demo_template] (bot_start 0) ?s1"
    using bot_step.register [of "bot_start 0" "[demo_template]" ?R 0 0] demo_template_order by (simp add: bot_start_def)
  then have "bot_reachable ?R 0 0 [demo_template] ?s1" by (rule bot_reachable_step [OF bot_reachable_start])
  then have r: "bot_reachable ?R 0 0 [demo_template] ?s2" by (rule bot_reachable_step) (rule bot_step.receive)
  have "n_acks ?s2 = 1" by code_simp
  with acks_counted_twice [OF r] r show ?thesis by auto
qed

text \<open>
  Lost orders are never forgotten: the number of orders counted as in flight that are no longer
  pending never decreases, and once it exceeds 20 the bot sends no order for the rest of the run.
  A write error makes it grow, because the orders of the broken iteration are sent again under the
  same ids.
\<close>

theorem leak_stalls_bot:
  assumes "bot_reachable RecordValue h botID templates s" and "(bot_step RecordValue botID templates)\<^sup>*\<^sup>* s s'"
  shows "leak s \<le> leak s' \<and> (20 < leak s \<longrightarrow> ordersSent (metrics s') = ordersSent (metrics s))"
  using leaked.fact_forever [OF assms(2,1), of "leak s"] stalled.fact_forever [OF assms(2,1), of "ordersSent (metrics s)"] by simp

theorem leak_stalls_bot_witness:
  "\<exists>s s'. bot_reachable (\<lambda>v (n::nat). Suc n) 0 0 [demo_template] s \<and> (bot_step (\<lambda>v (n::nat). Suc n) 0 [demo_template])\<^sup>*\<^sup>* s s' \<and>
     leak s = 0 \<and> leak s' = 1 \<and> leak s \<le> leak s'"
proof -
  let ?R = "\<lambda>v (n::nat). Suc n"
  let ?s1 = "bot_register 0 0 demo_template (bot_start 0)" let ?s2 = "bot_reconnect ?s1" let ?s3 = "bot_register 1 0 demo_template ?s2"
  have "bot_step ?R 0 [demo_template] (bot_start 0) ?s1"
    using bot_step.register [of "bot_start 0" "[demo_template]" ?R 0 0] demo_template_order by (simp add: bot_start_def)
  then have r1: "bot_reachable ?R 0 0 [demo_template] ?s1" by (rule bot_reachable_step [OF bot_reachable_start])
  have "bot_step ?R 0 [demo_template] ?s1 ?s2" by (rule bot_step.write_error) (simp add: bot_register_def Let_def)
  then have r2: "bot_reachable ?R 0 0 [demo_template] ?s2" by (rule bot_reachable_step [OF r1])
  have st: "bot_step ?R 0 [demo_template] ?s2 ?s3"
    using bot_step.register [of ?s2 "[demo_template]" ?R 0 1] demo_template_order
    by (simp add: bot_reconnect_def bot_register_def bot_start_def Let_def)
  have "leak ?s2 = 0" "leak ?s3 = 1"
    by (simp_all add: leak_def bot_reconnect_def bot_register_def bot_start_def bot_choose_order_def Let_def)
  with leak_stalls_bot [OF r2 r_into_rtranclp [of "bot_step ?R 0 [demo_template]", OF st]] r2 r_into_rtranclp [of "bot_step ?R 0 [demo_template]", OF st]
  show ?thesis by blast
qed

text \<open>
  Filling a template in gives the message that formatting the step directly would give: replacing the
  first \<open>%s\<close> of the template changes the order id and nothing else.
\<close>

theorem template_instance:
  "replace_first oid (tm_payload (make_template step)) =
     (if st_Kind step = StepOrder then order_text oid step else cancel_text oid)"
  by (simp add: make_template_def replace_first_order replace_first_cancel)

text \<open>
  The aggregate of a run adds up: every counter is the sum over the bots, whatever the histogram library
  does with the latencies.
\<close>

theorem merge_sums:
  "ordersSent (merge Merge h bots) = sum_list (map ordersSent bots) \<and>
   acksRecv (merge Merge h bots) = sum_list (map acksRecv bots) \<and>
   fillsRecv (merge Merge h bots) = sum_list (map fillsRecv bots) \<and>
   rejectsRecv (merge Merge h bots) = sum_list (map rejectsRecv bots) \<and>
   staleOrders (merge Merge h bots) = sum_list (map staleOrders bots)"
  unfolding merge_def
  by (simp add: fold_counter [of ordersSent, OF merge_bot_counts(1)] fold_counter [of acksRecv, OF merge_bot_counts(2)]
      fold_counter [of fillsRecv, OF merge_bot_counts(3)] fold_counter [of rejectsRecv, OF merge_bot_counts(4)]
      fold_counter [of staleOrders, OF merge_bot_counts(5)])

end
