(* ===== verification/Bot_Exam.thy ===== *)
theory Bot_Exam
  imports Correctness_Bot
begin

text \<open>The correctness sequences played against concrete engines, by evaluation.\<close>

text \<open>An engine that accepts every message, never answers and always shows an empty book.\<close>

definition silent_peer :: "unit Peer" where
  "silent_peer = \<lparr>peer_dial = Some, peer_write = (\<lambda>msg e. Some e), peer_pending = (\<lambda>e. []),
     peer_unread = (\<lambda>rs e. e), peer_query = (\<lambda>e. (Some (0, 0), e)), peer_close = (\<lambda>e. e)\<rparr>"


text \<open>
  The examination is not vacuous, but it gives credit to an engine that does nothing: with no answer
  to any order and an empty book, 14 of 28 assertions hold, half of the correctness score.
\<close>

theorem silent_engine_marks:
  "(\<lambda>r. (cr_Passed r, cr_TotalAssertions r, cr_Score r)) (fst (CorrectnessBot_Run silent_peer ())) = (14, 28, Fin (1 / 2))"
  by code_simp

end
