(* ===== verification/Telemetry_Props.thy ===== *)
theory Telemetry_Props
  imports Telemetry
begin

text \<open>The theorems about the telemetry ingester.\<close>

section \<open>Sample data\<close>

definition demo_event :: "string \<Rightarrow> int64 \<Rightarrow> rat \<Rightarrow> BotMetricsEvent" where
  "demo_event sid lat tps =
     \<lparr>e_Event = ''bot.metrics'', e_TeamName = ''team'', e_SubmissionID = sid, e_TestRunID = sid,
      e_DurationMS = 60000, e_OrdersSent = 10, e_AcksRecv = 20, e_FillsRecv = 0, e_RejectsRecv = 0, e_StaleOrders = 0,
      e_AckP50US = lat, e_AckP90US = lat, e_AckP99US = lat, e_AckP999US = lat, e_AckMaxUS = lat,
      e_FillP50US = 0, e_FillP90US = 0, e_FillP99US = 0, e_FillP999US = 0, e_FillMaxUS = 0,
      e_TPS = Fin tps, e_CorrectnessScore = Fin 1, e_EmittedAt = 7\<rparr>"

text \<open>A driver that runs every batch, and one whose context is cancelled.\<close>

definition running_driver :: send_batch where
  "running_driver qs db = (map (\<lambda>_. True) qs, fold apply_query qs db)"

definition cancelled_driver :: send_batch where
  "cancelled_driver qs db = (map (\<lambda>_. False) qs, db)"

definition demo_ingester :: Ingester where
  "demo_ingester = \<lparr>maxAcceptableLatencyUS = Fin 50000, maxAcceptableTPS = Fin 1000,
     eventBuffer = [\<lparr>p_Event = demo_event ''s'' 100 500, p_Score = Fin 1\<rparr>]\<rparr>"

definition demo_db :: Database where
  "demo_db = \<lparr>telemetry_events = [], submission_scores = Map.empty\<rparr>"

lemma running_driver_atomic: "atomic_driver running_driver"
  by (auto simp: atomic_driver_def running_driver_def list_all_iff)

lemma cancelled_driver_atomic: "atomic_driver cancelled_driver"
  by (auto simp: atomic_driver_def cancelled_driver_def list_all_iff)

section \<open>Properties\<close>

text \<open>
  C23. The composite score is a number in [0, 1] for every event with finite measurements, whatever
  the latencies (also negative ones), as long as the latency ceiling is positive and the throughput
  ceiling is not zero: none of the rounded intermediate results leaves the range, and neither an
  overflow nor a not-a-number gets through the clamps.
\<close>

theorem computeScore_in_range:
  assumes "0 < L" and "T \<noteq> 0" and "e_TPS event = Fin tps" and "e_CorrectnessScore event = Fin cor"
  shows "\<exists>s. computeScore (Fin L) (Fin T) event = Fin s \<and> 0 \<le> s \<and> s \<le> 1"
proof (rule computeScore_eq [OF assms])
  fix l t assume "l \<in> {0..1}" "t \<in> {0..1}" and e: "computeScore (Fin L) (Fin T) event = Fin (mix l t (max 0 (min 1 cor)))"
  then have "mix l t (max 0 (min 1 cor)) \<in> {0..1}" by (intro mix_range) simp_all
  with e show ?thesis by auto
qed

theorem computeScore_in_range_witness:
  "\<exists>s. computeScore (Fin 50000) (Fin 1000) (demo_event ''s'' 100 500) = Fin s \<and> 0 \<le> s \<and> s \<le> 1"
  by (rule computeScore_in_range) (simp_all add: demo_event_def)

text \<open>
  The score rewards improvement: an event with latencies that are not higher and throughput and
  correctness that are not lower never scores less, rounding included.
\<close>

theorem computeScore_monotone:
  assumes "0 < L" and "0 < T"
    and "e_TPS x = Fin tx" and "e_TPS y = Fin ty" and "tx \<le> ty"
    and "e_CorrectnessScore x = Fin cx" and "e_CorrectnessScore y = Fin cy" and "cx \<le> cy"
    and "sint (e_AckP50US y) \<le> sint (e_AckP50US x)" and "sint (e_AckP90US y) \<le> sint (e_AckP90US x)"
    and "sint (e_AckP99US y) \<le> sint (e_AckP99US x)"
  shows "f_le (computeScore (Fin L) (Fin T) x) (computeScore (Fin L) (Fin T) y)"
proof -
  have T: "T \<noteq> 0" using assms(2) by simp
  have "f_le (f64 (latency y / L)) (f64 (latency x / L))"
    using latency_mono [of y x] assms(1,9-11) by (intro f64_mono divide_right_mono) auto
  from clamp01_mono [OF f_sub_antimono [OF this, of 1]]
  obtain lx ly where l: "clamp01 (f_sub (Fin 1) (f64 (latency x / L))) = Fin lx"
    "clamp01 (f_sub (Fin 1) (f64 (latency y / L))) = Fin ly" "lx \<le> ly" by blast
  have "f_le (f64 (tx / T)) (f64 (ty / T))" using assms(2,5) by (intro f64_mono divide_right_mono) auto
  from clamp01_mono [OF this] obtain ux uy where t: "clamp01 (f64 (tx / T)) = Fin ux" "clamp01 (f64 (ty / T)) = Fin uy" "ux \<le> uy"
    by blast
  have "computeScore (Fin L) (Fin T) x = Fin (mix lx ux (max 0 (min 1 cx)))"
    by (rule computeScore_eq [OF assms(1) T assms(3,6)]) (use l t in simp)
  moreover have "computeScore (Fin L) (Fin T) y = Fin (mix ly uy (max 0 (min 1 cy)))"
    by (rule computeScore_eq [OF assms(1) T assms(4,7)]) (use l t in simp)
  moreover have "mix lx ux (max 0 (min 1 cx)) \<le> mix ly uy (max 0 (min 1 cy))"
    using l(3) t(3) assms(8) by (intro mix_mono) auto
  ultimately show ?thesis by simp
qed

theorem computeScore_monotone_witness:
  "f_le (computeScore (Fin 50000) (Fin 1000) (demo_event ''s'' 200 400)) (computeScore (Fin 50000) (Fin 1000) (demo_event ''s'' 100 500))"
  by (rule computeScore_monotone [where tx = 400 and ty = 500 and cx = 1 and cy = 1]) (simp_all add: demo_event_def)

text \<open>
  An ingester with a throughput ceiling of zero is accepted, and then a run without orders has no
  number for a score: the entry cannot be encoded, the leaderboard is not updated, and the event is
  buffered with a score that is not a number.
\<close>

theorem zero_ceiling_score_undefined:
  assumes "0 < L" and "e_TPS event = Fin 0"
  shows "NewIngester (Fin L) (Fin 0) = Inr \<lparr>maxAcceptableLatencyUS = Fin L, maxAcceptableTPS = Fin 0, eventBuffer = []\<rparr> \<and>
    Handle up tm event \<lparr>maxAcceptableLatencyUS = Fin L, maxAcceptableTPS = Fin 0, eventBuffer = []\<rparr> r =
      (\<lparr>maxAcceptableLatencyUS = Fin L, maxAcceptableTPS = Fin 0, eventBuffer = [\<lparr>p_Event = event, p_Score = NaN\<rparr>]\<rparr>, r)"
proof -
  have a: "f_add NaN z = NaN" "f_add z NaN = NaN" "f_mul NaN z = NaN" for z by (cases z; simp)+
  have "computeScore (Fin L) (Fin 0) event = NaN" using assms(2) by (simp add: computeScore_def a)
  then show ?thesis
    using assms(1) by (simp add: NewIngester_def Handle_def updateLeaderboard_def json_Marshal_entry_def make_entry_def is_finite_def)
qed

theorem zero_ceiling_score_undefined_witness:
  "eventBuffer (fst (Handle True [] (demo_event ''s'' 100 0)
     \<lparr>maxAcceptableLatencyUS = Fin 50000, maxAcceptableTPS = Fin 0, eventBuffer = []\<rparr> redis_empty)) =
   [\<lparr>p_Event = demo_event ''s'' 100 0, p_Score = NaN\<rparr>]"
  using zero_ceiling_score_undefined [of 50000 "demo_event ''s'' 100 0" True "[]" redis_empty]
  by (simp add: demo_event_def)

text \<open>
  C24. The board in Redis is consistent after any sequence of deliveries, some of which Redis may
  refuse: the sorted set and the detail hash have the same members, each member's score is a
  thousand times the score of its detail entry, and every entry was published.
\<close>

theorem leaderboard_consistent:
  assumes "handle_all ds ing redis_empty = (ing', r)"
  shows "dom (leaderboard r) = dom (leaderboard_details r) \<and>
    (\<forall>sid e. leaderboard_details r sid = Some e \<longrightarrow>
       le_SubmissionID e = sid \<and> leaderboard r sid = Some (f_mul (le_Score e) (Fin 1000)) \<and> e \<in> set (leaderboard_updates r))"
proof -
  have "redis_ok redis_empty" by (simp add: redis_ok_def redis_empty_def)
  from handle_all_redis_ok [OF this, of ds ing] assms show ?thesis by (simp add: redis_ok_def)
qed

theorem leaderboard_consistent_witness:
  "\<exists>ing' r. handle_all [(True, ''t'', demo_event ''s'' 100 500), (False, ''u'', demo_event ''q'' 100 500)] demo_ingester redis_empty = (ing', r) \<and>
     dom (leaderboard r) = {''s''} \<and> dom (leaderboard_details r) = {''s''}"
proof -
  let ?ds = "[(True, ''t'', demo_event ''s'' 100 500), (False, ''u'', demo_event ''q'' 100 500)]"
  obtain ing' r where h: "handle_all ?ds demo_ingester redis_empty = (ing', r)" by fastforce
  obtain s where "computeScore (Fin 50000) (Fin 1000) (demo_event ''s'' 100 500) = Fin s"
    by (rule computeScore_eq [of 50000 1000 "demo_event ''s'' 100 500" 500 1]) (simp_all add: demo_event_def)
  then have "leaderboard_details r = [''s'' \<mapsto> make_entry ''t'' (demo_event ''s'' 100 500) (Fin s)]"
    using h by (auto simp: handle_all_def Handle_def updateLeaderboard_def json_Marshal_entry_def make_entry_def is_finite_def
      demo_ingester_def redis_empty_def updateLeaderboardScript_def demo_event_def split_beta Let_def split: if_splits)
  with leaderboard_consistent [OF h] h show ?thesis by simp
qed

text \<open>
  Last write wins: after an event that Redis accepts, the board and the details show this event
  for its submission, whatever was delivered before, and nothing changes for the other submissions.
\<close>

theorem leaderboard_last_write:
  assumes "0 < L" and "T \<noteq> 0" and "e_TPS event = Fin tps" and "e_CorrectnessScore event = Fin cor"
    and "maxAcceptableLatencyUS ing = Fin L" and "maxAcceptableTPS ing = Fin T"
    and "handle_all (ds @ [(True, tm, event)]) ing r = (ing2, r2)" and "handle_all ds ing r = (ing1, r1)"
  shows "leaderboard_details r2 = (leaderboard_details r1)(e_SubmissionID event \<mapsto>
      make_entry tm event (computeScore (Fin L) (Fin T) event)) \<and>
    leaderboard r2 = (leaderboard r1)(e_SubmissionID event \<mapsto> f_mul (computeScore (Fin L) (Fin T) event) (Fin 1000))"
proof -
  obtain s where s: "computeScore (Fin L) (Fin T) event = Fin s" by (rule computeScore_eq [OF assms(1-4)])
  have "r2 = snd (Handle True tm event ing1 r1)" using assms(7,8) by (simp add: handle_all_snoc)
  moreover have "maxAcceptableLatencyUS ing1 = Fin L" "maxAcceptableTPS ing1 = Fin T"
    using handle_all_config [of ds ing r] assms(5,6,8) by simp_all
  ultimately show ?thesis
    by (simp add: Handle_redis updateLeaderboard_cases s is_finite_def assms(3,4) updateLeaderboardScript_def)
qed

theorem leaderboard_last_write_witness:
  "\<exists>ing2 r2. handle_all ([(True, ''t'', demo_event ''s'' 900 1)] @ [(True, ''u'', demo_event ''s'' 100 500)]) demo_ingester redis_empty = (ing2, r2) \<and>
     map_option le_AckP50US (leaderboard_details r2 ''s'') = Some 100 \<and> map_option le_Timestamp (leaderboard_details r2 ''s'') = Some ''u''"
proof -
  obtain ing1 r1 where h1: "handle_all [(True, ''t'', demo_event ''s'' 900 1)] demo_ingester redis_empty = (ing1, r1)" by fastforce
  obtain ing2 r2 where h2: "handle_all ([(True, ''t'', demo_event ''s'' 900 1)] @ [(True, ''u'', demo_event ''s'' 100 500)]) demo_ingester redis_empty = (ing2, r2)"
    by fastforce
  have "leaderboard_details r2 = (leaderboard_details r1)(e_SubmissionID (demo_event ''s'' 100 500) \<mapsto>
      make_entry ''u'' (demo_event ''s'' 100 500) (computeScore (Fin 50000) (Fin 1000) (demo_event ''s'' 100 500)))"
    using leaderboard_last_write [OF _ _ _ _ _ _ h2 h1, of 50000 1000 500 1] by (simp add: demo_event_def demo_ingester_def)
  then show ?thesis using h2 by (simp add: demo_event_def make_entry_def)
qed

text \<open>
  A flush empties the buffer and writes its events at most once. With a driver that runs a batch as
  one transaction, the database afterwards holds either all buffered events, written in order by
  the first attempt that succeeds, or none of them, when the context ends before a retry or all
  three attempts fail.
\<close>

theorem flush_at_most_once:
  assumes "\<And>n. atomic_driver (w_send (ws n))" and "eventBuffer ing \<noteq> []" and "flush ws ing db = (ing', db')"
  shows "eventBuffer ing' = [] \<and>
    db' = (case find (\<lambda>i. attempt_ok (ws i) (eventBuffer ing) db \<or> 0 < i \<and> w_ctx_done (ws i)) [0, 1, 2] of
             Some i \<Rightarrow> if 0 < i \<and> w_ctx_done (ws i) then db
                       else fold apply_query (batch_of (w_time (ws i)) (eventBuffer ing)) db
           | None \<Rightarrow> db)"
proof -
  have "[0..<0 + 3] = [0, 1, 2 :: nat]" by code_simp
  then show ?thesis
    using flush_loop_result [where ws = ws and k = 3 and n = 0, OF assms(1)] assms(2,3) by (auto simp: flush_def)
qed

theorem flush_at_most_once_witness:
  "\<exists>ing' db'. flush (\<lambda>n. \<lparr>w_ctx_done = False, w_send = (if n = 0 then cancelled_driver else running_driver), w_time = 1\<rparr>)
      demo_ingester demo_db = (ing', db') \<and> eventBuffer ing' = [] \<and>
     db' = fold apply_query (batch_of 1 (eventBuffer demo_ingester)) demo_db \<and> length (telemetry_events db') = 1"
proof -
  let ?ws = "\<lambda>n::nat. \<lparr>w_ctx_done = False, w_send = (if n = 0 then cancelled_driver else running_driver), w_time = 1\<rparr>"
  obtain ing' db' where f: "flush ?ws demo_ingester demo_db = (ing', db')" by fastforce
  have d: "\<And>n. atomic_driver (w_send (?ws n))" by (simp add: running_driver_atomic cancelled_driver_atomic)
  have a: "\<not> attempt_ok (?ws 0) (eventBuffer demo_ingester) demo_db" "attempt_ok (?ws 1) (eventBuffer demo_ingester) demo_db"
    by (simp_all add: attempt_ok_def running_driver_def cancelled_driver_def batch_of_def pair_queries_def demo_ingester_def)
  have "eventBuffer demo_ingester \<noteq> []" by (simp add: demo_ingester_def)
  from flush_at_most_once [OF d this f] a
  have r: "eventBuffer ing' = []" "db' = fold apply_query (batch_of 1 (eventBuffer demo_ingester)) demo_db" by auto
  moreover have "length (telemetry_events db') = 1"
    unfolding r(2) by (simp add: batch_of_def pair_queries_def demo_ingester_def demo_db_def)
  ultimately show ?thesis using f by blast
qed

text \<open>
  The final flush of \<open>Close\<close> loses the buffer. \<open>Close\<close> runs after the consumer has returned, which it
  does only when the lifecycle context is cancelled; the flush derives its context from that one,
  so the driver refuses every statement, the first retry finds the context done, and no buffered
  event reaches the database.
\<close>

theorem close_flush_loses_buffer:
  assumes "\<And>n qs db. w_send (ws n) qs db = (map (\<lambda>_. False) qs, db)" and "w_ctx_done (ws 1)"
    and "flush ws ing db = (ing', db')"
  shows "eventBuffer ing' = [] \<and> db' = db"
proof (cases "eventBuffer ing = []")
  case False
  have d: "atomic_driver (w_send (ws n))" for n
  proof -
    have "w_send (ws n) = cancelled_driver" using assms(1) by (auto simp: cancelled_driver_def fun_eq_iff)
    then show ?thesis by (simp add: cancelled_driver_atomic)
  qed
  have "\<not> attempt_ok (ws 0) (eventBuffer ing) db"
    using False by (cases "eventBuffer ing") (auto simp: attempt_ok_def assms(1) batch_of_def pair_queries_def)
  then show ?thesis
    using flush_loop_result [where ws = ws and k = 3 and n = 0, OF d] assms(2,3) False
    by (auto simp: flush_def numeral_3_eq_3 upt_conv_Cons)
qed (use assms(3) in \<open>simp add: flush_def\<close>)

theorem close_flush_loses_buffer_witness:
  "\<exists>ing'. flush (\<lambda>n. \<lparr>w_ctx_done = True, w_send = cancelled_driver, w_time = 1\<rparr>) demo_ingester demo_db = (ing', demo_db) \<and>
     eventBuffer demo_ingester \<noteq> [] \<and> eventBuffer ing' = []"
proof -
  let ?ws = "\<lambda>n::nat. \<lparr>w_ctx_done = True, w_send = cancelled_driver, w_time = 1\<rparr>"
  obtain ing' db' where f: "flush ?ws demo_ingester demo_db = (ing', db')" by fastforce
  have "eventBuffer ing' = [] \<and> db' = demo_db"
    by (rule close_flush_loses_buffer [OF _ _ f]) (simp_all add: cancelled_driver_def)
  then show ?thesis using f by (simp add: demo_ingester_def)
qed

text \<open>
  The connection loop backs off exponentially and boundedly: the waits are 1, 2, 4, 8, 16 seconds
  and then 32 seconds each, never more; the loop returns a connection exactly when a ping succeeds
  before the context ends.
\<close>

theorem connectRedis_backoff:
  assumes "connectRedis ts = (res, ws)"
  shows "ws = map (\<lambda>n. 2 ^ min n 5) [0..<length ws] \<and>
    (res = Some (Inr ()) \<longleftrightarrow> (\<exists>n < length ts. ping_ok (ts ! n) \<and> (\<forall>m < n. \<not> ping_ok (ts ! m) \<and> \<not> ctx_err (ts ! m) \<and> \<not> ctx_wait (ts ! m))))"
proof
  have "connectRedis_loop (backoff_at 0) ts = (res, ws)" using assms by (simp add: connectRedis_def backoff_at_def)
  moreover have "backoff_at = (\<lambda>n. 2 ^ min n 5)" by (simp add: backoff_at_def fun_eq_iff)
  ultimately show "ws = map (\<lambda>n. 2 ^ min n 5) [0..<length ws]" using connectRedis_loop_waits [of 0 ts res ws] by simp
  have "fst (connectRedis_loop b ts) = Some (Inr ()) \<longleftrightarrow>
    (\<exists>n < length ts. ping_ok (ts ! n) \<and> (\<forall>m < n. \<not> ping_ok (ts ! m) \<and> \<not> ctx_err (ts ! m) \<and> \<not> ctx_wait (ts ! m)))" for b
  proof (induction ts arbitrary: b)
    case (Cons t ts)
    have "(\<exists>n < length (t # ts). P n) \<longleftrightarrow> P 0 \<or> (\<exists>n < length ts. P (Suc n))" for P
      by (auto simp: less_Suc_eq_0_disj)
    moreover have "fst (connectRedis_loop b (t # ts)) = Some (Inr ()) \<longleftrightarrow>
        ping_ok t \<or> \<not> ctx_err t \<and> \<not> ctx_wait t \<and> fst (connectRedis_loop (next_backoff b) ts) = Some (Inr ())"
      by (auto split: prod.splits)
    ultimately show ?case by (auto simp: Cons.IH [of "next_backoff b"] All_less_Suc2)
  qed simp
  then show "res = Some (Inr ()) \<longleftrightarrow>
    (\<exists>n < length ts. ping_ok (ts ! n) \<and> (\<forall>m < n. \<not> ping_ok (ts ! m) \<and> \<not> ctx_err (ts ! m) \<and> \<not> ctx_wait (ts ! m)))"
    using assms by (metis connectRedis_def fst_conv)
qed

theorem connectRedis_backoff_witness:
  "\<exists>res ws. connectRedis (replicate 7 \<lparr>ping_ok = False, ctx_err = False, ctx_wait = False\<rparr> @
     [\<lparr>ping_ok = True, ctx_err = False, ctx_wait = False\<rparr>]) = (res, ws) \<and>
     ws = [1, 2, 4, 8, 16, 32, 32] \<and> ws = map (\<lambda>n. 2 ^ min n 5) [0..<length ws]"
proof -
  let ?ts = "replicate 7 \<lparr>ping_ok = False, ctx_err = False, ctx_wait = False\<rparr> @ [\<lparr>ping_ok = True, ctx_err = False, ctx_wait = False\<rparr>]"
  obtain res ws where c: "connectRedis ?ts = (res, ws)" by fastforce
  have "snd (connectRedis ?ts) = [1, 2, 4, 8, 16, 32, 32]" by code_simp
  with connectRedis_backoff [OF c] c show ?thesis by simp
qed

text \<open>
  The consumer hands over every well formed \<open>bot.metrics\<close> event once and in order. It handles
  the events of all polls up to the one at which the context is over, skipping records that do not
  decode and events of another kind; so the events buffered by the ingester are exactly those.
\<close>

theorem consumer_buffers_all:
  "eventBuffer (fst (Consumer_Run (\<lambda>event (ing, r). Handle up tm event ing r) ps (ing, r))) =
   eventBuffer ing @ map (\<lambda>event. \<lparr>p_Event = event, p_Score = computeScore (maxAcceptableLatencyUS ing) (maxAcceptableTPS ing) event\<rparr>)
     (filter (\<lambda>e. e_Event e = ''bot.metrics'')
       (somes (concat (map poll_records (takeWhile (\<lambda>p. \<not> poll_ctx_done p) ps)))))"
proof -
  let ?h = "\<lambda>event (ing, r). Handle up tm event ing r"
  have "fold ?h es (ing, r) = handle_all (map (\<lambda>e. (up, tm, e)) es) ing r" for es
    by (simp add: handle_all_def fold_map o_def)
  then show ?thesis
    unfolding Consumer_Run_events by (simp add: handle_all_buffer o_def)
qed

end
