(* ===== verification/Ingester_System.thy ===== *)
theory Ingester_System
  imports Telemetry_Props Transition
begin

text \<open>
  The telemetry ingester as a whole: the consumer delivers events to \<open>Handle\<close> while \<open>flushLoop\<close> empties
  the buffer on every tick of its timer and once more when the ingester is closed. A flush takes the
  buffer under the mutex and writes it without holding it, so deliveries come between the two.
\<close>

section \<open>States and steps\<close>

record IngesterSystem =
  y_ingester :: Ingester
  y_redis :: Redis
  y_db :: Database
  y_flushing :: "EventScorePair list option"
  y_closing :: bool
  y_closed :: bool
  y_delivered :: "BotMetricsEvent list"

definition sys_deliver :: "bool \<Rightarrow> string \<Rightarrow> BotMetricsEvent \<Rightarrow> IngesterSystem \<Rightarrow> IngesterSystem" where
  "sys_deliver up tm event y =
     (case Handle up tm event (y_ingester y) (y_redis y) of (ing, r) \<Rightarrow>
        y\<lparr>y_ingester := ing, y_redis := r, y_delivered := y_delivered y @ [event]\<rparr>)"

definition sys_take :: "IngesterSystem \<Rightarrow> IngesterSystem" where
  "sys_take y = y\<lparr>y_flushing := Some (eventBuffer (y_ingester y)), y_ingester := (y_ingester y)\<lparr>eventBuffer := []\<rparr>\<rparr>"

text \<open>An empty buffer is not written; after the flush that follows the close signal the loop ends.\<close>

definition sys_write :: "(nat \<Rightarrow> attempt) \<Rightarrow> IngesterSystem \<Rightarrow> IngesterSystem" where
  "sys_write ws y =
     (case y_flushing y of None \<Rightarrow> y
      | Some pairs \<Rightarrow> y\<lparr>y_flushing := None, y_closed := y_closing y,
          y_db := (if pairs = [] then y_db y else flush_loop 3 0 ws pairs (y_db y))\<rparr>)"

inductive ingester_step :: "IngesterSystem \<Rightarrow> IngesterSystem \<Rightarrow> bool" where
  y_deliver: "ingester_step y (sys_deliver up tm event y)"
| y_tick: "y_flushing y = None \<Longrightarrow> \<not> y_closing y \<Longrightarrow> ingester_step y (sys_take y)"
| y_close: "y_flushing y = None \<Longrightarrow> \<not> y_closing y \<Longrightarrow> ingester_step y (sys_take (y\<lparr>y_closing := True\<rparr>))"
| y_write: "y_flushing y \<noteq> None \<Longrightarrow> (\<And>n. atomic_driver (w_send (ws n))) \<Longrightarrow> ingester_step y (sys_write ws y)"

definition ingester_initial :: "float64 \<Rightarrow> float64 \<Rightarrow> IngesterSystem \<Rightarrow> bool" where
  "ingester_initial L T y \<longleftrightarrow> NewIngester L T = Inr (y_ingester y) \<and> y_redis y = redis_empty \<and>
     telemetry_events (y_db y) = [] \<and> y_flushing y = None \<and> \<not> y_closing y \<and> \<not> y_closed y \<and> y_delivered y = []"

text \<open>With no delivery in between, taking the buffer and writing it is \<open>flush\<close>.\<close>

lemma sys_flush:
  "(y_ingester (sys_write ws (sys_take y)), y_db (sys_write ws (sys_take y))) = flush ws (y_ingester y) (y_db y)"
  by (simp add: sys_write_def sys_take_def flush_def)

section \<open>Every event at most once and in order\<close>

definition event_row :: "BotMetricsEvent \<Rightarrow> telemetry_row" where
  "event_row e = \<lparr>t_time = e_EmittedAt e, t_submission_id = e_SubmissionID e, t_bot_id = e_TestRunID e,
     t_event_type = ''bot.metrics'', t_latency_us = e_AckP90US e\<rparr>"

definition scored :: "float64 \<Rightarrow> float64 \<Rightarrow> BotMetricsEvent \<Rightarrow> EventScorePair" where
  "scored L T e = \<lparr>p_Event = e, p_Score = computeScore L T e\<rparr>"

definition in_flush :: "IngesterSystem \<Rightarrow> EventScorePair list" where
  "in_flush y = (case y_flushing y of None \<Rightarrow> [] | Some pairs \<Rightarrow> pairs)"

text \<open>The delivered events split into those flushed, those being written and those in the buffer.\<close>

definition ingester_inv :: "float64 \<Rightarrow> float64 \<Rightarrow> IngesterSystem \<Rightarrow> bool" where
  "ingester_inv L T y \<longleftrightarrow> maxAcceptableLatencyUS (y_ingester y) = L \<and> maxAcceptableTPS (y_ingester y) = T \<and> redis_ok (y_redis y) \<and>
     (\<exists>gone. map (scored L T) (y_delivered y) = gone @ in_flush y @ eventBuffer (y_ingester y) \<and>
        subseq (telemetry_events (y_db y)) (map (event_row \<circ> p_Event) gone))"

lemma batch_rows: "telemetry_events (fold apply_query (batch_of tm pairs) db) = telemetry_events db @ map (event_row \<circ> p_Event) pairs"
  by (induction pairs arbitrary: db) (simp_all add: batch_of_def pair_queries_def event_row_def)

lemma flush_loop_rows:
  assumes "\<And>n. atomic_driver (w_send (ws n))"
  shows "telemetry_events (flush_loop k n ws pairs db) \<in>
    {telemetry_events db, telemetry_events db @ map (event_row \<circ> p_Event) pairs}"
  unfolding flush_loop_result [where ws = ws, OF assms] by (simp add: batch_rows split: option.splits)

lemma sys_deliver_fields [simp]:
  "y_ingester (sys_deliver up tm event y) = fst (Handle up tm event (y_ingester y) (y_redis y))"
  "y_redis (sys_deliver up tm event y) = snd (Handle up tm event (y_ingester y) (y_redis y))"
  "y_db (sys_deliver up tm event y) = y_db y"
  "y_flushing (sys_deliver up tm event y) = y_flushing y"
  "y_delivered (sys_deliver up tm event y) = y_delivered y @ [event]"
  by (simp_all add: sys_deliver_def split_beta)

lemma sys_deliver_inv [keeps]: "ingester_inv L T y \<Longrightarrow> ingester_inv L T (sys_deliver up tm event y)"
  unfolding ingester_inv_def in_flush_def by (auto simp: scored_def Handle_redis updateLeaderboard_ok)

lemma sys_take_inv [keeps]: "ingester_inv L T y \<Longrightarrow> y_flushing y = None \<Longrightarrow> ingester_inv L T (sys_take y)"
  by (auto simp: ingester_inv_def sys_take_def in_flush_def)

lemma sys_write_inv:
  assumes inv: "ingester_inv L T y" and d: "\<And>n. atomic_driver (w_send (ws n))"
  shows "ingester_inv L T (sys_write ws y)"
proof (cases "y_flushing y")
  case (Some pairs)
  from inv Some obtain gone where g: "map (scored L T) (y_delivered y) = gone @ pairs @ eventBuffer (y_ingester y)"
    "subseq (telemetry_events (y_db y)) (map (event_row \<circ> p_Event) gone)" by (auto simp: ingester_inv_def in_flush_def)
  have "subseq (telemetry_events (y_db (sys_write ws y))) (map (event_row \<circ> p_Event) (gone @ pairs))"
    using flush_loop_rows [where ws = ws, OF d, of 3 0 pairs "y_db y"] g(2)
    by (auto simp: sys_write_def Some list_emb_append_mono intro: list_emb_append2 subseq_order.trans)
  with inv Some g(1) show ?thesis by (auto simp: ingester_inv_def sys_write_def in_flush_def)
qed (use inv in \<open>simp add: sys_write_def\<close>)

interpretation ingester: system_invariant "ingester_initial L T" ingester_step "ingester_inv L T" for L T
proof unfold_locales
  show "ingester_inv L T y" if "ingester_initial L T y" for y
    using that by (cases "y_ingester y")
      (auto simp: ingester_initial_def ingester_inv_def NewIngester_def redis_ok_def redis_empty_def in_flush_def Let_def split: if_splits)
  show "ingester_inv L T y'" if "ingester_inv L T y" "ingester_step y y'" for y y'
    using that(2,1)
  proof cases
    case y_close
    have "ingester_inv L T (y\<lparr>y_closing := True\<rparr>)" using that(1) by (simp add: ingester_inv_def in_flush_def)
    with y_close show ?thesis by (simp add: keeps)
  qed (simp_all add: keeps sys_write_inv)
qed

lemma ingester_split:
  assumes "ingester_inv L T y"
  shows "\<exists>gone writing waiting. y_delivered y = gone @ writing @ waiting \<and>
    in_flush y = map (scored L T) writing \<and> eventBuffer (y_ingester y) = map (scored L T) waiting \<and>
    subseq (telemetry_events (y_db y)) (map event_row gone)"
proof -
  have inj: "map p_Event (map (scored L T) es) = es" for es by (simp add: scored_def map_idI)
  from assms obtain gone where g: "map (scored L T) (y_delivered y) = gone @ in_flush y @ eventBuffer (y_ingester y)"
    "subseq (telemetry_events (y_db y)) (map (event_row \<circ> p_Event) gone)" by (auto simp: ingester_inv_def)
  from iffD1 [OF map_eq_append_conv g(1)] obtain a bc where a: "y_delivered y = a @ bc" "map (scored L T) a = gone"
    and bc: "map (scored L T) bc = in_flush y @ eventBuffer (y_ingester y)" by metis
  from bc obtain b c where "bc = b @ c" "map (scored L T) b = in_flush y" "map (scored L T) c = eventBuffer (y_ingester y)"
    by (auto simp: map_eq_append_conv)
  with a have "y_delivered y = a @ b @ c" "map (scored L T) a = gone" "map (scored L T) b = in_flush y"
    "map (scored L T) c = eventBuffer (y_ingester y)" by simp_all
  moreover from this have "map (event_row \<circ> p_Event) gone = map event_row a" using inj [of a] by (metis map_map)
  ultimately show ?thesis using g(2) by metis
qed

definition demo_system :: IngesterSystem where
  "demo_system = \<lparr>y_ingester = \<lparr>maxAcceptableLatencyUS = Fin 50000, maxAcceptableTPS = Fin 1000, eventBuffer = []\<rparr>,
     y_redis = redis_empty, y_db = demo_db, y_flushing = None, y_closing = False, y_closed = False, y_delivered = []\<rparr>"

definition demo_run :: IngesterSystem where
  "demo_run = sys_write (\<lambda>n. \<lparr>w_ctx_done = False, w_send = running_driver, w_time = 1\<rparr>)
     (sys_deliver True ''u'' (demo_event ''b'' 100 500) (sys_take (sys_deliver True ''t'' (demo_event ''a'' 100 500) demo_system)))"

lemma demo_run_reachable: "reach (ingester_initial (Fin 50000) (Fin 1000)) ingester_step demo_run" (is "?R demo_run")
proof -
  let ?y1 = "sys_deliver True ''t'' (demo_event ''a'' 100 500) demo_system"
  let ?y3 = "sys_deliver True ''u'' (demo_event ''b'' 100 500) (sys_take ?y1)"
  have "?R demo_system"
    by (rule reach_init) (simp add: ingester_initial_def demo_system_def NewIngester_def demo_db_def Let_def)
  then have "?R ?y1" by (rule reach_step) (rule y_deliver)
  then have "?R (sys_take ?y1)"
    by (rule reach_step) (rule y_tick; simp add: demo_system_def sys_deliver_def split_beta)
  then have "?R ?y3" by (rule reach_step) (rule y_deliver)
  then show ?thesis unfolding demo_run_def
    by (rule reach_step) (rule y_write; simp add: sys_take_def running_driver_atomic)
qed



end
