(* ===== verification/Hub.thy ===== *)
theory Hub
  imports Transition
begin

text \<open>
  The hub of the leaderboard service (\<open>src/services/leaderboard-ws/hub.go\<close>): the event loop that keeps
  the set of connected browsers and fans every published update out to them, and the handler, writer
  and reader of each connection. All of them run concurrently; each atomic action is one step.
  Channels are lists with the oldest element first; a send on a closed channel or a second close is
  a panic. \<open>fanned\<close> and \<open>published\<close> record the history of the loop and of \<open>broadcast\<close>.
\<close>

section \<open>State\<close>

datatype 'm frame = Snap 'm | Live 'm

text \<open>Where the handler of a connection stands.\<close>

datatype phase = Accepted | Enrolled | Serving | Returned

record 'm client =
  send :: "'m frame list"
  send_closed :: bool
  ctx_live :: bool
  c_phase :: phase
  writing :: bool
  wire :: "'m frame list"

type_synonym client_ref = nat

record 'm Hub =
  clients :: "client_ref set"
  regCh :: "client_ref list"
  unregCh :: "client_ref list"
  msgCh :: "'m list"
  quitCh :: bool
  looping :: bool
  conns :: "client_ref \<rightharpoonup> 'm client"
  panicked :: bool
  fanned :: "'m list"
  published :: "'m list"

definition newHub :: "'m Hub" where
  "newHub = \<lparr>clients = {}, regCh = [], unregCh = [], msgCh = [], quitCh = False, looping = True,
     conns = Map.empty, panicked = False, fanned = [], published = []\<rparr>"

text \<open>A send that does not wait: the element is dropped when the buffer is full.\<close>

definition try_send :: "nat \<Rightarrow> 'a \<Rightarrow> 'a list \<Rightarrow> 'a list" where
  "try_send cap x ch = (if length ch < cap then ch @ [x] else ch)"

definition offer :: "'m frame \<Rightarrow> 'm client \<Rightarrow> 'm client" where
  "offer m k = k\<lparr>send := try_send 256 m (send k)\<rparr>"

definition is_closed :: "'m Hub \<Rightarrow> client_ref \<Rightarrow> bool" where
  "is_closed h c = (case conns h c of None \<Rightarrow> False | Some k \<Rightarrow> send_closed k)"

definition on_client :: "client_ref \<Rightarrow> ('m client \<Rightarrow> 'm client) \<Rightarrow> 'm Hub \<Rightarrow> 'm Hub" where
  "on_client c f h = h\<lparr>conns := (conns h)(c := map_option f (conns h c))\<rparr>"

section \<open>The event loop\<close>

definition run_register :: "'m Hub \<Rightarrow> 'm Hub" where
  "run_register h = (case regCh h of [] \<Rightarrow> h | c # cs \<Rightarrow> h\<lparr>regCh := cs, clients := insert c (clients h)\<rparr>)"

definition run_unregister :: "'m Hub \<Rightarrow> 'm Hub" where
  "run_unregister h = (case unregCh h of [] \<Rightarrow> h
     | c # cs \<Rightarrow>
        if c \<in> clients h then
          on_client c (\<lambda>k. k\<lparr>send_closed := True\<rparr>)
            (h\<lparr>unregCh := cs, clients := clients h - {c}, panicked := panicked h \<or> is_closed h c\<rparr>)
        else h\<lparr>unregCh := cs\<rparr>)"

definition run_fanout :: "'m Hub \<Rightarrow> 'm Hub" where
  "run_fanout h = (case msgCh h of [] \<Rightarrow> h
     | m # ms \<Rightarrow>
        h\<lparr>msgCh := ms, fanned := fanned h @ [m],
          panicked := panicked h \<or> (\<exists>c \<in> clients h. is_closed h c),
          conns := (\<lambda>c. if c \<in> clients h then map_option (offer (Live m)) (conns h c) else conns h c)\<rparr>)"

text \<open>One turn of \<open>run\<close>: \<open>select\<close> takes any case that is ready.\<close>

inductive run_turn :: "'m Hub \<Rightarrow> 'm Hub \<Rightarrow> bool" where
  turn_register: "looping h \<Longrightarrow> regCh h \<noteq> [] \<Longrightarrow> run_turn h (run_register h)"
| turn_unregister: "looping h \<Longrightarrow> unregCh h \<noteq> [] \<Longrightarrow> run_turn h (run_unregister h)"
| turn_fanout: "looping h \<Longrightarrow> msgCh h \<noteq> [] \<Longrightarrow> run_turn h (run_fanout h)"

definition run_quit :: "'m Hub \<Rightarrow> 'm Hub" where
  "run_quit h = h\<lparr>looping := False\<rparr>"

definition broadcast :: "'m \<Rightarrow> 'm Hub \<Rightarrow> 'm Hub" where
  "broadcast m h = h\<lparr>msgCh := try_send 256 m (msgCh h), published := published h @ [m]\<rparr>"

text \<open>The subscription hands every payload of the Redis channel to \<open>broadcast\<close>, in order.\<close>

definition subscribeRedis :: "'m list \<Rightarrow> 'm Hub \<Rightarrow> 'm Hub" where
  "subscribeRedis payloads h = fold broadcast payloads h"

section \<open>A connection\<close>

definition ws_accept :: "client_ref \<Rightarrow> 'm Hub \<Rightarrow> 'm Hub" where
  "ws_accept c h = h\<lparr>conns := (conns h)(c \<mapsto>
     \<lparr>send = [], send_closed = False, ctx_live = True, c_phase = Accepted, writing = False, wire = []\<rparr>)\<rparr>"

text \<open>The deferred function of the handler: it cancels the context and tries to unregister.\<close>

definition ws_return :: "client_ref \<Rightarrow> 'm Hub \<Rightarrow> 'm Hub" where
  "ws_return c h = on_client c (\<lambda>k. k\<lparr>ctx_live := False, c_phase := Returned\<rparr>)
     (h\<lparr>unregCh := try_send 64 c (unregCh h)\<rparr>)"

definition ws_enroll :: "client_ref \<Rightarrow> 'm Hub \<Rightarrow> 'm Hub" where
  "ws_enroll c h =
     (if length (regCh h) < 64 then on_client c (\<lambda>k. k\<lparr>c_phase := Enrolled\<rparr>) (h\<lparr>regCh := regCh h @ [c]\<rparr>)
      else ws_return c h)"

text \<open>The snapshot, when it could be built, is offered and the writer is started.\<close>

definition ws_snapshot :: "client_ref \<Rightarrow> 'm option \<Rightarrow> 'm Hub \<Rightarrow> 'm Hub" where
  "ws_snapshot c snapshot h =
     on_client c (\<lambda>k. (case snapshot of None \<Rightarrow> k | Some m \<Rightarrow> offer (Snap m) k)\<lparr>c_phase := Serving, writing := True\<rparr>)
       (h\<lparr>panicked := panicked h \<or> snapshot \<noteq> None \<and> is_closed h c\<rparr>)"

definition ws_write :: "client_ref \<Rightarrow> 'm Hub \<Rightarrow> 'm Hub" where
  "ws_write c h = on_client c (\<lambda>k. k\<lparr>send := tl (send k), wire := wire k @ take 1 (send k)\<rparr>) h"

text \<open>A frame that cannot be written is lost; the writer cancels the context and ends.\<close>

definition ws_write_fails :: "client_ref \<Rightarrow> 'm Hub \<Rightarrow> 'm Hub" where
  "ws_write_fails c h = on_client c (\<lambda>k. k\<lparr>send := tl (send k), ctx_live := False, writing := False\<rparr>) h"

definition ws_ping_fails :: "client_ref \<Rightarrow> 'm Hub \<Rightarrow> 'm Hub" where
  "ws_ping_fails c h = on_client c (\<lambda>k. k\<lparr>ctx_live := False, writing := False\<rparr>) h"

definition ws_writer_ends :: "client_ref \<Rightarrow> 'm Hub \<Rightarrow> 'm Hub" where
  "ws_writer_ends c h = on_client c (\<lambda>k. k\<lparr>writing := False\<rparr>) h"

inductive hub_step :: "'m Hub \<Rightarrow> 'm Hub \<Rightarrow> bool" where
  hub_turn: "run_turn h h' \<Longrightarrow> hub_step h h'"
| hub_quit: "looping h \<Longrightarrow> quitCh h \<Longrightarrow> hub_step h (run_quit h)"
| hub_shutdown: "hub_step h (h\<lparr>quitCh := True\<rparr>)"
| hub_broadcast: "hub_step h (broadcast m h)"
| hub_accept: "conns h c = None \<Longrightarrow> hub_step h (ws_accept c h)"
| hub_enroll: "conns h c = Some k \<Longrightarrow> c_phase k = Accepted \<Longrightarrow> hub_step h (ws_enroll c h)"
| hub_snapshot: "conns h c = Some k \<Longrightarrow> c_phase k = Enrolled \<Longrightarrow> hub_step h (ws_snapshot c snapshot h)"
| hub_return: "conns h c = Some k \<Longrightarrow> c_phase k = Serving \<Longrightarrow> hub_step h (ws_return c h)"
| hub_write: "conns h c = Some k \<Longrightarrow> writing k \<Longrightarrow> send k \<noteq> [] \<Longrightarrow> ctx_live k \<Longrightarrow> hub_step h (ws_write c h)"
| hub_write_fails: "conns h c = Some k \<Longrightarrow> writing k \<Longrightarrow> send k \<noteq> [] \<Longrightarrow> hub_step h (ws_write_fails c h)"
| hub_ping_fails: "conns h c = Some k \<Longrightarrow> writing k \<Longrightarrow> hub_step h (ws_ping_fails c h)"
| hub_writer_ends: "conns h c = Some k \<Longrightarrow> writing k \<Longrightarrow> \<not> ctx_live k \<or> send_closed k \<and> send k = [] \<Longrightarrow>
     hub_step h (ws_writer_ends c h)"

definition hub_init :: "'m Hub \<Rightarrow> bool" where
  "hub_init h \<longleftrightarrow> h = newHub"

abbreviation hub_reachable :: "'m Hub \<Rightarrow> bool" where
  "hub_reachable \<equiv> reach hub_init hub_step"

inductive_cases run_turnE: "run_turn h h'"
inductive_cases hub_stepE: "hub_step h h'"

section \<open>Invariant\<close>

fun lives :: "'m frame list \<Rightarrow> 'm list" where
  "lives [] = []"
| "lives (Snap m # fs) = lives fs"
| "lives (Live m # fs) = m # lives fs"

fun snaps :: "'m frame list \<Rightarrow> 'm list" where
  "snaps [] = []"
| "snaps (Live m # fs) = snaps fs"
| "snaps (Snap m # fs) = m # snaps fs"

lemma lives_append [simp]: "lives (xs @ ys) = lives xs @ lives ys"
  by (induction xs rule: lives.induct) simp_all

lemma snaps_append [simp]: "snaps (xs @ ys) = snaps xs @ snaps ys"
  by (induction xs rule: snaps.induct) simp_all

text \<open>One connection: its buffer is bounded, its frames come from the history in order.\<close>

definition client_ok :: "'m list \<Rightarrow> 'm client \<Rightarrow> bool" where
  "client_ok hist k \<longleftrightarrow> length (send k) \<le> 256 \<and> subseq (lives (wire k @ send k)) hist \<and>
     length (snaps (wire k @ send k)) \<le> (if c_phase k = Accepted \<or> c_phase k = Enrolled then 0 else 1) \<and>
     (send_closed k \<longrightarrow> c_phase k = Returned)"

definition hub_inv :: "'m Hub \<Rightarrow> bool" where
  "hub_inv h \<longleftrightarrow> \<not> panicked h \<and> distinct (regCh h) \<and> set (regCh h) \<inter> clients h = {} \<and>
     (\<forall>c \<in> clients h \<union> set (regCh h). \<exists>k. conns h c = Some k \<and> \<not> send_closed k \<and> c_phase k \<noteq> Accepted) \<and>
     (\<forall>c \<in> set (unregCh h). \<exists>k. conns h c = Some k \<and> c_phase k = Returned) \<and>
     (\<forall>c k. conns h c = Some k \<longrightarrow> client_ok (fanned h) k) \<and>
     length (regCh h) \<le> 64 \<and> length (unregCh h) \<le> 64 \<and> length (msgCh h) \<le> 256 \<and>
     subseq (fanned h @ msgCh h) (published h)"

lemma length_try_send: "length ch \<le> cap \<Longrightarrow> length (try_send cap x ch) \<le> cap"
  by (simp add: try_send_def)

lemma set_try_send: "set (try_send cap x ch) \<subseteq> insert x (set ch)"
  by (auto simp: try_send_def)

lemma subseq_snoc: "subseq xs ys \<Longrightarrow> subseq (xs @ [x]) (ys @ [x])" "subseq xs ys \<Longrightarrow> subseq xs (ys @ [x])"
  by (auto intro: list_emb_append2)

lemma client_ok_later: "client_ok hist k \<Longrightarrow> client_ok (hist @ [m]) k"
  by (auto simp: client_ok_def intro: subseq_snoc)

lemma client_ok_live:
  assumes "client_ok hist k"
  shows "client_ok (hist @ [m]) (offer (Live m) k)"
proof -
  have "subseq (lives (wire k @ send k)) hist" using assms by (simp add: client_ok_def)
  from subseq_snoc [OF this, of m]
  have "subseq (lives (wire k) @ lives (send k) @ [m]) (hist @ [m])" "subseq (lives (wire k) @ lives (send k)) (hist @ [m])"
    by (simp_all only: lives_append append_assoc)
  then show ?thesis using assms by (auto simp: client_ok_def offer_def try_send_def split: if_splits)
qed

lemma client_ok_snap:
  assumes "client_ok hist k" and "c_phase k = Enrolled"
  shows "client_ok hist ((case snapshot of None \<Rightarrow> k | Some m \<Rightarrow> offer (Snap m) k)\<lparr>c_phase := Serving, writing := True\<rparr>)"
  using assms by (auto simp: client_ok_def offer_def try_send_def split: option.splits)

lemma client_ok_write:
  assumes "client_ok hist k"
  shows "client_ok hist (k\<lparr>send := tl (send k), wire := wire k @ take 1 (send k)\<rparr>)"
  using assms by (cases "send k") (auto simp: client_ok_def)

lemma subseq_prefix: "subseq xs (xs @ ys)"
  using list_emb_append_mono [of "(=)" xs xs "[]" ys] by simp

lemma subseq_drop_mid: "subseq (xs @ y # ys) zs \<Longrightarrow> subseq (xs @ ys) zs"
proof -
  assume "subseq (xs @ y # ys) zs"
  moreover have "subseq (xs @ ys) (xs @ y # ys)" by (intro list_emb_append_mono list_emb_Cons) simp_all
  ultimately show ?thesis by (rule subseq_order.trans [rotated])
qed

lemma client_ok_lose:
  assumes "client_ok hist k"
  shows "client_ok hist (k\<lparr>send := tl (send k), ctx_live := False, writing := False\<rparr>)"
proof (cases "send k")
  case (Cons f fs)
  then show ?thesis using assms by (cases f) (auto simp: client_ok_def dest: subseq_drop_mid)
qed (use assms in \<open>simp add: client_ok_def\<close>)

lemma client_ok_context:
  assumes "client_ok hist k"
  shows "client_ok hist (k\<lparr>ctx_live := b, writing := w\<rparr>)" "client_ok hist (k\<lparr>writing := w\<rparr>)"
    "client_ok hist (k\<lparr>ctx_live := b, c_phase := Returned\<rparr>)"
    "c_phase k = Accepted \<Longrightarrow> client_ok hist (k\<lparr>c_phase := Enrolled\<rparr>)"
    "c_phase k = Returned \<Longrightarrow> client_ok hist (k\<lparr>send_closed := True\<rparr>)"
  using assms by (auto simp: client_ok_def split: if_splits)

lemmas client_keeps = client_ok_later client_ok_live client_ok_snap client_ok_write client_ok_lose client_ok_context

lemma hub_inv_client:
  assumes "hub_inv h" and "conns h c = Some k"
  shows "client_ok (fanned h) k" and "c \<in> clients h \<Longrightarrow> \<not> send_closed k \<and> c_phase k \<noteq> Accepted \<and> c \<notin> set (regCh h)"
    and "c \<in> set (regCh h) \<Longrightarrow> \<not> send_closed k \<and> c_phase k \<noteq> Accepted \<and> c \<notin> clients h"
    and "c \<in> set (unregCh h) \<Longrightarrow> c_phase k = Returned"
proof -
  have a: "\<forall>c \<in> clients h \<union> set (regCh h). \<exists>k. conns h c = Some k \<and> \<not> send_closed k \<and> c_phase k \<noteq> Accepted"
    "\<forall>c \<in> set (unregCh h). \<exists>k. conns h c = Some k \<and> c_phase k = Returned" "set (regCh h) \<inter> clients h = {}"
    using assms(1) by (simp_all add: hub_inv_def)
  show "client_ok (fanned h) k" using assms by (simp add: hub_inv_def)
  show "\<not> send_closed k \<and> c_phase k \<noteq> Accepted \<and> c \<notin> set (regCh h)" if "c \<in> clients h"
    using bspec [OF a(1), of c] a(3) that assms(2) by auto
  show "\<not> send_closed k \<and> c_phase k \<noteq> Accepted \<and> c \<notin> clients h" if "c \<in> set (regCh h)"
    using bspec [OF a(1), of c] a(3) that assms(2) by auto
  show "c_phase k = Returned" if "c \<in> set (unregCh h)"
    using bspec [OF a(2), of c] that assms(2) by auto
qed

text \<open>An action on one connection that keeps it well formed, where it stands and whether it is open.\<close>

lemma on_client_inv:
  assumes inv: "hub_inv h" and k: "conns h c = Some k" and "client_ok (fanned h) (f k)"
    and "send_closed (f k) = send_closed k" and "c_phase k \<noteq> Accepted \<Longrightarrow> c_phase (f k) \<noteq> Accepted"
    and "c_phase k = Returned \<Longrightarrow> c_phase (f k) = Returned"
  shows "hub_inv (on_client c f h)"
  using hub_inv_client [OF inv k] assms unfolding hub_inv_def on_client_def by simp


text \<open>Every action keeps the invariant.\<close>

lemma run_register_inv [keeps]: "hub_inv h \<Longrightarrow> hub_inv (run_register h)"
  by (auto simp: hub_inv_def run_register_def split: list.splits)

lemma run_unregister_inv [keeps]:
  assumes inv: "hub_inv h"
  shows "hub_inv (run_unregister h)"
proof (cases "unregCh h")
  case (Cons c cs)
  then obtain k where k: "conns h c = Some k" "c_phase k = Returned" using inv by (auto simp: hub_inv_def)
  have "\<not> is_closed h c" if "c \<in> clients h" using hub_inv_client(2) [OF inv k(1) that] k(1) by (simp add: is_closed_def)
  with hub_inv_client [OF inv k(1)] k Cons inv show ?thesis
    by (auto simp: hub_inv_def run_unregister_def on_client_def intro: client_keeps)
qed (use inv in \<open>simp add: run_unregister_def\<close>)

lemma run_fanout_inv [keeps]:
  assumes inv: "hub_inv h"
  shows "hub_inv (run_fanout h)"
proof (cases "msgCh h")
  case (Cons m ms)
  let ?h = "run_fanout h"
  have same: "clients ?h = clients h" "regCh ?h = regCh h" "unregCh ?h = unregCh h" "msgCh ?h = ms" "fanned ?h = fanned h @ [m]"
    "published ?h = published h" by (simp_all add: run_fanout_def Cons)
  have sent: "conns ?h c = map_option (if c \<in> clients h then offer (Live m) else id) (conns h c)" for c
    by (simp add: run_fanout_def Cons map_option.id)
  have shape: "send_closed (offer f k) = send_closed k" "c_phase (offer f k) = c_phase k" for f and k :: "'a client"
    by (simp_all add: offer_def)
  have "\<not> is_closed h c" if "c \<in> clients h" for c
    using hub_inv_client(2) [OF inv _ that] by (auto simp: is_closed_def split: option.splits)
  then have "\<not> panicked ?h" using inv by (simp add: run_fanout_def Cons hub_inv_def)
  moreover have members: "\<And>c. c \<in> clients h \<union> set (regCh h) \<Longrightarrow> \<exists>k. conns h c = Some k \<and> \<not> send_closed k \<and> c_phase k \<noteq> Accepted"
    "\<And>c. c \<in> set (unregCh h) \<Longrightarrow> \<exists>k. conns h c = Some k \<and> c_phase k = Returned" using inv by (simp_all add: hub_inv_def)
  moreover have "\<exists>k. conns ?h c = Some k \<and> \<not> send_closed k \<and> c_phase k \<noteq> Accepted" if "c \<in> clients h \<union> set (regCh h)" for c
    using members(1) [OF that] by (auto simp: sent shape)
  moreover have "\<exists>k. conns ?h c = Some k \<and> c_phase k = Returned" if "c \<in> set (unregCh h)" for c
    using members(2) [OF that] by (auto simp: sent shape)
  moreover have "client_ok (fanned h @ [m]) k" if "conns ?h c = Some k" for c k
    using hub_inv_client(1) [OF inv] that unfolding sent by (auto intro: client_keeps split: if_splits)
  ultimately show ?thesis using inv Cons unfolding hub_inv_def same by simp
qed (use inv in \<open>simp add: run_fanout_def\<close>)

lemma broadcast_inv [keeps]:
  assumes "hub_inv h"
  shows "hub_inv (broadcast m h)"
proof -
  have "subseq (fanned h @ try_send 256 m (msgCh h)) (published h @ [m])"
    using assms subseq_snoc [of "fanned h @ msgCh h" "published h" m] by (simp add: hub_inv_def try_send_def)
  then show ?thesis using assms by (simp add: hub_inv_def broadcast_def length_try_send)
qed

lemma ws_accept_inv [keeps]:
  assumes "hub_inv h" and "conns h c = None"
  shows "hub_inv (ws_accept c h)"
proof -
  have "c \<notin> clients h \<and> c \<notin> set (regCh h) \<and> c \<notin> set (unregCh h)"
    using assms unfolding hub_inv_def by (metis UnCI option.distinct(1))
  then show ?thesis using assms by (simp add: hub_inv_def ws_accept_def) (auto simp: client_ok_def)
qed

lemma ws_return_inv [keeps]:
  assumes inv: "hub_inv h" and k: "conns h c = Some k"
  shows "hub_inv (ws_return c h)"
proof -
  have "client_ok (fanned h) (k\<lparr>ctx_live := False, c_phase := Returned\<rparr>)" by (intro client_keeps hub_inv_client [OF inv k])
  moreover have "set (try_send 64 c (unregCh h)) \<subseteq> insert c (set (unregCh h))" by (rule set_try_send)
  ultimately show ?thesis using inv k hub_inv_client [OF inv k] unfolding hub_inv_def ws_return_def on_client_def
    by (auto simp: length_try_send)
qed

lemma ws_enroll_inv [keeps]:
  assumes inv: "hub_inv h" and k: "conns h c = Some k" "c_phase k = Accepted"
  shows "hub_inv (ws_enroll c h)"
proof (cases "length (regCh h) < 64")
  case True
  have "client_ok (fanned h) (k\<lparr>c_phase := Enrolled\<rparr>)" by (intro client_keeps hub_inv_client [OF inv k(1)] k)
  with True show ?thesis using inv k hub_inv_client [OF inv k(1)] unfolding hub_inv_def ws_enroll_def on_client_def
    by (auto simp: client_ok_def)
qed (use assms in \<open>simp add: ws_enroll_def ws_return_inv\<close>)

lemma ws_snapshot_inv [keeps]:
  assumes inv: "hub_inv h" and k: "conns h c = Some k" "c_phase k = Enrolled"
  shows "hub_inv (ws_snapshot c snapshot h)"
proof -
  have "\<not> is_closed h c" using hub_inv_client(1) [OF inv k(1)] k by (auto simp: is_closed_def client_ok_def)
  then have "h\<lparr>panicked := panicked h \<or> snapshot \<noteq> None \<and> is_closed h c\<rparr> = h" by simp
  then show ?thesis using inv k
    unfolding ws_snapshot_def by simp (intro on_client_inv [OF inv k(1)] client_keeps hub_inv_client [OF inv k(1)] k;
      simp add: offer_def split: option.splits)
qed

lemma ws_writer_inv [keeps]:
  assumes inv: "hub_inv h" and k: "conns h c = Some k"
  shows "hub_inv (ws_write c h)" "hub_inv (ws_write_fails c h)" "hub_inv (ws_ping_fails c h)" "hub_inv (ws_writer_ends c h)"
  unfolding ws_write_def ws_write_fails_def ws_ping_fails_def ws_writer_ends_def
  by (rule on_client_inv [OF inv k]; (intro client_keeps hub_inv_client [OF inv k])?; simp)+

lemma hub_step_inv: "hub_step h h' \<Longrightarrow> hub_inv h \<Longrightarrow> hub_inv h'"
  by (erule hub_stepE; (erule run_turnE)?; simp add: keeps; simp add: run_quit_def hub_inv_def)

interpretation hub: system_invariant hub_init hub_step hub_inv
proof unfold_locales
  show "hub_inv h" if "hub_init h" for h :: "'a Hub"
    using that by (simp add: hub_init_def newHub_def hub_inv_def)
qed (rule hub_step_inv)

section \<open>The subscription\<close>

lemma subscribeRedis_steps: "hub_step\<^sup>*\<^sup>* h (subscribeRedis ms h)"
proof (induction ms arbitrary: h)
  case (Cons m ms)
  have "hub_step\<^sup>*\<^sup>* h (broadcast m h)" by (blast intro: hub_broadcast)
  then show ?case using Cons [of "broadcast m h"] by (auto simp: subscribeRedis_def)
qed (simp add: subscribeRedis_def)

text \<open>
  While the loop does not run, what is published fills the free places of the channel in order and
  the rest is dropped.
\<close>

lemma subscribeRedis_queue:
  "msgCh (subscribeRedis ms h) = msgCh h @ take (256 - length (msgCh h)) ms"
  "published (subscribeRedis ms h) = published h @ ms"
proof (induction ms arbitrary: h)
  case (Cons m ms)
  { case 1
    show ?case using Cons(1) [of "broadcast m h"]
      by (auto simp: subscribeRedis_def broadcast_def try_send_def take_Cons' Suc_diff_Suc)
  next
    case 2
    show ?case using Cons(2) [of "broadcast m h"] by (simp add: subscribeRedis_def broadcast_def) }
qed (simp_all add: subscribeRedis_def)

section \<open>Ghost clients\<close>

text \<open>A client whose handler is gone and whose unregistration has been consumed, or was never sent.\<close>

definition ghost :: "client_ref \<Rightarrow> 'm Hub \<Rightarrow> bool" where
  "ghost c h \<longleftrightarrow> c \<in> clients h \<and> c \<notin> set (unregCh h) \<and> (\<exists>k. conns h c = Some k \<and> c_phase k = Returned)"

lemma ghost_on_client:
  assumes "ghost c h" and "\<And>k. c_phase k = Returned \<Longrightarrow> c_phase (f k) = Returned"
  shows "ghost c (on_client d f h)"
  using assms by (auto simp: ghost_def on_client_def)

lemma ghost_other_return:
  assumes "ghost c h" and "conns h d = Some k" and "c_phase k \<noteq> Returned"
  shows "ghost c (ws_return d h)"
  using assms set_try_send [of 64 d "unregCh h"] by (auto simp: ghost_def ws_return_def on_client_def)

lemma ghost_turn:
  assumes "ghost c h" and "run_turn h h'"
  shows "ghost c h'"
  using assms(2)
proof cases
  case turn_fanout
  with assms(1) show ?thesis by (auto simp: ghost_def run_fanout_def offer_def split: list.splits)
qed (use assms(1) in \<open>auto simp: ghost_def run_register_def run_unregister_def on_client_def split: list.splits\<close>)

lemma ghost_step:
  assumes "ghost c h" and "hub_step h h'"
  shows "ghost c h'"
  using assms(2)
proof cases
  case hub_turn
  with assms(1) show ?thesis by (rule ghost_turn)
next
  case (hub_enroll d k)
  have "ghost c (h\<lparr>regCh := regCh h @ [d]\<rparr>)" using assms(1) by (simp add: ghost_def)
  then show ?thesis using hub_enroll assms(1) ghost_other_return [OF assms(1) hub_enroll(2)]
    by (auto simp: ws_enroll_def ghost_def on_client_def)
next
  case (hub_return d k)
  with assms(1) show ?thesis by (auto intro: ghost_other_return)
next
  case (hub_snapshot d k snapshot)
  with assms(1) show ?thesis by (auto simp: ghost_def ws_snapshot_def on_client_def)
qed (use assms(1) in \<open>auto simp: ghost_def run_quit_def broadcast_def ws_accept_def on_client_def
  ws_write_def ws_write_fails_def ws_ping_fails_def ws_writer_ends_def\<close>)

interpretation ghost: stable_fact hub_init hub_step hub_inv "ghost c" for c
  by unfold_locales (rule ghost_step)

section \<open>The life of a connection\<close>

text \<open>The phases of a handler in the order in which it goes through them.\<close>

primrec phase_no :: "phase \<Rightarrow> nat" where
  "phase_no Accepted = 0"
| "phase_no Enrolled = 1"
| "phase_no Serving = 2"
| "phase_no Returned = 3"

instantiation phase :: linorder
begin

definition less_eq_phase :: "phase \<Rightarrow> phase \<Rightarrow> bool" where
  "less_eq_phase p q \<longleftrightarrow> phase_no p \<le> phase_no q"

definition less_phase :: "phase \<Rightarrow> phase \<Rightarrow> bool" where
  "less_phase p q \<longleftrightarrow> phase_no p < phase_no q"

instance
proof
  show "p = q" if "p \<le> q" "q \<le> p" for p q :: phase
    using that by (cases p; cases q) (simp_all add: less_eq_phase_def)
qed (auto simp: less_eq_phase_def less_phase_def)

end

lemma phase_order [simp]: "Accepted \<le> p" "p \<le> Returned" "Enrolled \<le> Serving"
  by (cases p; simp add: less_eq_phase_def)+

text \<open>A connection that has come as far as a phase never falls behind it: it is served once.\<close>

definition come_to :: "client_ref \<Rightarrow> phase \<Rightarrow> 'm Hub \<Rightarrow> bool" where
  "come_to c p h \<longleftrightarrow> (\<exists>k. conns h c = Some k \<and> p \<le> c_phase k)"

lemma come_to_on_client:
  assumes "come_to c p h" and "\<And>k. conns h d = Some k \<Longrightarrow> c_phase k \<le> c_phase (f k)"
  shows "come_to c p (on_client d f h)"
  using assms by (auto simp: come_to_def on_client_def intro: order_trans)

lemma come_to_frame [simp]:
  "come_to c p (h\<lparr>regCh := cs\<rparr>) = come_to c p h" "come_to c p (h\<lparr>unregCh := cs\<rparr>) = come_to c p h"
  "come_to c p (h\<lparr>panicked := b\<rparr>) = come_to c p h"
  by (simp_all add: come_to_def)

lemma come_to_return: "come_to c p h \<Longrightarrow> come_to c p (ws_return d h)"
  unfolding ws_return_def by (rule come_to_on_client) simp_all

lemma come_to_turn: "run_turn h h' \<Longrightarrow> come_to c p h \<Longrightarrow> come_to c p h'"
  by (erule run_turnE)
    (auto simp: come_to_def run_register_def run_unregister_def run_fanout_def on_client_def offer_def split: list.splits)

lemma come_to_step:
  assumes "come_to c p h" and "hub_step h h'"
  shows "come_to c p h'"
  using assms(2)
proof cases
  case hub_turn
  then show ?thesis using assms(1) by (rule come_to_turn)
next
  case (hub_enroll d k)
  show ?thesis unfolding hub_enroll(1) ws_enroll_def
    using assms(1) hub_enroll by (auto intro!: come_to_return come_to_on_client)
next
  case (hub_snapshot d k snapshot)
  show ?thesis unfolding hub_snapshot(1) ws_snapshot_def
    using assms(1) hub_snapshot by (auto intro!: come_to_on_client)
next
  case (hub_return d k)
  with assms(1) show ?thesis by (auto intro: come_to_return)
qed (use assms(1) in \<open>auto simp: come_to_def run_quit_def broadcast_def ws_accept_def on_client_def
  ws_write_def ws_write_fails_def ws_ping_fails_def ws_writer_ends_def\<close>)

interpretation come: stable_fact hub_init hub_step hub_inv "come_to c p" for c p
  by unfold_locales (rule come_to_step)

lemma returned_stays:
  assumes "hub_step\<^sup>*\<^sup>* h h'" and "reach hub_init hub_step h" and "conns h c = Some k" and "c_phase k = Returned"
  shows "\<exists>k'. conns h' c = Some k' \<and> c_phase k' = Returned"
  using come.fact_forever [OF assms(1,2), of c Returned] assms(3,4) by (auto simp: come_to_def antisym [OF phase_order(2)])

section \<open>The loop does its work\<close>

definition queued :: "'m Hub \<Rightarrow> nat" where
  "queued h = length (regCh h) + length (unregCh h) + length (msgCh h)"

lemma run_turn_queued: "run_turn h h' \<Longrightarrow> queued h = Suc (queued h') \<and> looping h'"
  by (erule run_turnE; cases "regCh h"; cases "unregCh h"; cases "msgCh h")
    (auto simp: queued_def run_register_def run_unregister_def run_fanout_def on_client_def)

interpretation hub_loop: working_loop run_turn queued looping
proof unfold_locales
  fix h :: "'a Hub" assume "looping h" "0 < queued h"
  then have "regCh h \<noteq> [] \<or> unregCh h \<noteq> [] \<or> msgCh h \<noteq> []" by (auto simp: queued_def)
  with \<open>looping h\<close> show "\<exists>h'. run_turn h h'" by (blast intro: run_turn.intros)
qed (use run_turn_queued in blast)+

end
