(* ===== verification/Leaderboard.thy ===== *)
theory Leaderboard
  imports Telemetry Hub
begin

text \<open>
  The two views of the leaderboard (\<open>src/services/leaderboard-ws\<close>): the HTTP handler, which asks
  Redis for one entry after the other, and the snapshot a browser gets over its websocket, which
  asks for all entries in one pipeline. What Redis answers is an argument.
\<close>

section \<open>Entries\<close>

record boardEntry = leaderboardEntry +
  le_Rank :: nat

text \<open>A member of the sorted set as the client library delivers it, and the answer to an \<open>HGET\<close>.\<close>

datatype zmember = ZString string | ZOther

datatype hget_reply = HMissing | HGarbage | HBlob leaderboardEntry

definition SplitN2 :: "string \<Rightarrow> string list" where
  "SplitN2 s =
     (if CHR '':'' \<in> set s
      then [takeWhile (\<lambda>c. c \<noteq> CHR '':'') s, tl (dropWhile (\<lambda>c. c \<noteq> CHR '':'') s)]
      else [s])"

definition minimal_entry :: "string \<Rightarrow> float64 \<Rightarrow> nat \<Rightarrow> boardEntry" where
  "minimal_entry memberStr score rank =
     (let parts = SplitN2 memberStr
      in \<lparr>le_SubmissionID = parts ! 0, le_TeamName = (if length parts = 2 then parts ! 1 else []),
          le_Score = f_div score (Fin 1000), le_TPS = Fin 0, le_AckP50US = 0, le_AckP90US = 0, le_AckP99US = 0,
          le_OrdersSent = 0, le_RejectsRecv = 0, le_Correctness = Fin 0, le_DurationMS = 0, le_Timestamp = [],
          le_Rank = rank\<rparr>)"

text \<open>An entry read back from its JSON text: the fields the ingester wrote, and the rank.\<close>

definition ranked_entry :: "leaderboardEntry \<Rightarrow> nat \<Rightarrow> boardEntry" where
  "ranked_entry e rank = leaderboardEntry.extend e \<lparr>le_Rank = rank\<rparr>"

text \<open>What is appended for one member: at most one entry.\<close>

definition entry_of :: "string \<Rightarrow> float64 \<Rightarrow> nat \<Rightarrow> hget_reply \<Rightarrow> boardEntry list" where
  "entry_of memberStr score rank reply =
     (case reply of HMissing \<Rightarrow> [minimal_entry memberStr score rank] | HGarbage \<Rightarrow> []
      | HBlob e \<Rightarrow> [ranked_entry e rank])"

section \<open>The HTTP handler\<close>

fun handler_loop :: "(nat \<Rightarrow> string \<Rightarrow> hget_reply) \<Rightarrow> nat \<Rightarrow> (zmember \<times> float64) list \<Rightarrow> boardEntry list" where
  "handler_loop hget i [] = []"
| "handler_loop hget i ((ZOther, score) # zs) = handler_loop hget (Suc i) zs"
| "handler_loop hget i ((ZString memberStr, score) # zs) =
     entry_of memberStr score (i + 1) (hget i (SplitN2 memberStr ! 0)) @ handler_loop hget (Suc i) zs"

datatype http_reply = InternalServerError | OK "boardEntry list option"

definition json_entries :: "boardEntry list \<Rightarrow> error + boardEntry list" where
  "json_entries es =
     (if \<forall>e \<in> set es. is_finite (le_Score e) \<and> is_finite (le_TPS e) \<and> is_finite (le_Correctness e)
      then Inr es else Inl MarshalError)"

text \<open>An entry that cannot be encoded leaves the body empty.\<close>

definition leaderboardHandler ::
    "(error + (zmember \<times> float64) list) \<Rightarrow> (nat \<Rightarrow> string \<Rightarrow> hget_reply) \<Rightarrow> http_reply" where
  "leaderboardHandler zrev hget =
     (case zrev of Inl _ \<Rightarrow> InternalServerError
      | Inr members \<Rightarrow>
          (case json_entries (handler_loop hget 0 members) of Inl _ \<Rightarrow> OK None | Inr es \<Rightarrow> OK (Some es)))"

section \<open>The snapshot\<close>

text \<open>The commands of the pipeline, one per member that is a string, and their answers.\<close>

definition pipe_cmds :: "(zmember \<times> float64) list \<Rightarrow> string option list" where
  "pipe_cmds members = map (\<lambda>(z, _). case z of ZString memberStr \<Rightarrow> Some (SplitN2 memberStr ! 0) | ZOther \<Rightarrow> None) members"

definition pipe_exec :: "(nat \<Rightarrow> string \<Rightarrow> hget_reply) \<Rightarrow> string option list \<Rightarrow> hget_reply option list" where
  "pipe_exec hget cmds = map (\<lambda>(i, cmd). map_option (hget i) cmd) (zip [0..<length cmds] cmds)"

definition snapshot_entry :: "nat \<times> (zmember \<times> float64) \<times> hget_reply option \<Rightarrow> boardEntry list" where
  "snapshot_entry x =
     (case x of (i, (ZString memberStr, score), Some reply) \<Rightarrow> entry_of memberStr score (i + 1) reply | _ \<Rightarrow> [])"

record snapshotMsg =
  sm_Type :: string
  sm_Entries :: "boardEntry list"

definition buildSnapshot ::
    "(error + (zmember \<times> float64) list) \<Rightarrow> (nat \<Rightarrow> string \<Rightarrow> hget_reply) \<Rightarrow> error + snapshotMsg" where
  "buildSnapshot zrev hget =
     (case zrev of Inl e \<Rightarrow> Inl e
      | Inr members \<Rightarrow>
          if members = [] then Inr \<lparr>sm_Type = ''snapshot'', sm_Entries = []\<rparr>
          else let replies = pipe_exec hget (pipe_cmds members);
                   entries = concat (map snapshot_entry (zip [0..<length members] (zip members replies)))
               in (case json_entries entries of Inl e \<Rightarrow> Inl e
                   | Inr es \<Rightarrow> Inr \<lparr>sm_Type = ''snapshot'', sm_Entries = es\<rparr>))"

section \<open>Both views list the same entries\<close>

lemma pipe_exec_nth:
  "i < length zs \<Longrightarrow> pipe_exec hget (pipe_cmds zs) ! i =
     (case fst (zs ! i) of ZString s \<Rightarrow> Some (hget i (SplitN2 s ! 0)) | ZOther \<Rightarrow> None)"
  by (auto simp: pipe_exec_def pipe_cmds_def split_beta split: zmember.splits)

lemma length_pipe_exec [simp]: "length (pipe_exec hget (pipe_cmds zs)) = length zs"
  by (simp add: pipe_exec_def pipe_cmds_def)

text \<open>The entry the handler appends for the member at an index.\<close>

definition entry_at :: "(nat \<Rightarrow> string \<Rightarrow> hget_reply) \<Rightarrow> (zmember \<times> float64) list \<Rightarrow> nat \<Rightarrow> boardEntry list" where
  "entry_at hget zs i =
     (case fst (zs ! i) of ZString s \<Rightarrow> entry_of s (snd (zs ! i)) (i + 1) (hget i (SplitN2 s ! 0)) | ZOther \<Rightarrow> [])"

lemma handler_loop_entries:
  "i \<le> length zs \<Longrightarrow> handler_loop hget i (drop i zs) = concat (map (entry_at hget zs) [i..<length zs])"
proof (induction "length zs - i" arbitrary: i)
  case (Suc n)
  then have "drop i zs = zs ! i # drop (Suc i) zs" by (simp add: Cons_nth_drop_Suc)
  moreover have "handler_loop hget (Suc i) (drop (Suc i) zs) = concat (map (entry_at hget zs) [Suc i..<length zs])"
    using Suc by (intro Suc.hyps) simp_all
  moreover have "[i..<length zs] = i # [Suc i..<length zs]" using Suc by (simp add: upt_conv_Cons)
  ultimately show ?case by (cases "zs ! i"; cases "fst (zs ! i)") (simp_all add: entry_at_def)
qed simp

lemma snapshot_entries:
  "map snapshot_entry (zip [0..<length zs] (zip zs (pipe_exec hget (pipe_cmds zs)))) = map (entry_at hget zs) [0..<length zs]"
proof (rule nth_equalityI)
  fix i assume "i < length (map snapshot_entry (zip [0..<length zs] (zip zs (pipe_exec hget (pipe_cmds zs)))))"
  then have "i < length zs" by simp
  then show "map snapshot_entry (zip [0..<length zs] (zip zs (pipe_exec hget (pipe_cmds zs)))) ! i =
      map (entry_at hget zs) [0..<length zs] ! i"
    by (cases "zs ! i"; cases "fst (zs ! i)") (simp_all add: pipe_exec_nth snapshot_entry_def entry_at_def)
qed simp

section \<open>Redis\<close>

text \<open>
  The documented answers of Redis in a state: \<open>ZREVRANGE\<close> lists every member of the sorted set once, by
  descending score; \<open>HGET\<close> gives the value stored under the key.
\<close>

definition zrev_of :: "Redis \<Rightarrow> (string \<times> float64) list \<Rightarrow> bool" where
  "zrev_of r zs \<longleftrightarrow> distinct (map fst zs) \<and> map_of zs = leaderboard r \<and> sorted_wrt (\<lambda>a b. f_le (snd b) (snd a)) zs"

definition hget_of :: "Redis \<Rightarrow> string \<Rightarrow> hget_reply" where
  "hget_of r key = (case leaderboard_details r key of None \<Rightarrow> HMissing | Some e \<Rightarrow> HBlob e)"

lemma SplitN2_no_colon [simp]: "CHR '':'' \<notin> set s \<Longrightarrow> SplitN2 s = [s]"
  by (simp add: SplitN2_def)

lemma entry_at_stored:
  assumes "i < length zs" and "CHR '':'' \<notin> set (fst (zs ! i))" and "leaderboard_details r (fst (zs ! i)) = Some e"
  shows "entry_at (\<lambda>_. hget_of r) (map (apfst ZString) zs) i = [ranked_entry e (i + 1)]"
  using assms by (simp add: entry_at_def entry_of_def hget_of_def)

text \<open>Behind every listed member there is its entry, and its score is a thousand times the score of the entry.\<close>

lemma zrev_stored:
  assumes "redis_ok r" and "zrev_of r zs" and "i < length zs"
  obtains e where "leaderboard_details r (fst (zs ! i)) = Some e" "le_SubmissionID e = fst (zs ! i)"
    "snd (zs ! i) = f_mul (le_Score e) (Fin 1000)" "fst (zs ! i) \<in> dom (leaderboard r)"
proof -
  have l: "leaderboard r (fst (zs ! i)) = Some (snd (zs ! i))"
    using assms(2,3) unfolding zrev_of_def by (metis map_of_is_SomeI nth_mem prod.collapse)
  then have d: "fst (zs ! i) \<in> dom (leaderboard r)" by blast
  with assms(1) obtain e where e: "leaderboard_details r (fst (zs ! i)) = Some e" by (auto simp: redis_ok_def)
  with assms(1) l have "le_SubmissionID e = fst (zs ! i)" "snd (zs ! i) = f_mul (le_Score e) (Fin 1000)" by (auto simp: redis_ok_def)
  with e d that show thesis by blast
qed

lemma board_of_redis:
  assumes ok: "redis_ok r" and zs: "zrev_of r zs" and colon: "\<And>sid. sid \<in> dom (leaderboard r) \<Longrightarrow> CHR '':'' \<notin> set sid"
  shows "handler_loop (\<lambda>_. hget_of r) 0 (map (apfst ZString) zs) =
    map (\<lambda>i. ranked_entry (the (leaderboard_details r (fst (zs ! i)))) (i + 1)) [0..<length zs]"
proof -
  have "entry_at (\<lambda>_. hget_of r) (map (apfst ZString) zs) i = [ranked_entry (the (leaderboard_details r (fst (zs ! i)))) (i + 1)]"
    if "i < length zs" for i
    by (rule zrev_stored [OF ok zs that]) (use entry_at_stored [OF that colon] in simp)
  then have "map (entry_at (\<lambda>_. hget_of r) (map (apfst ZString) zs)) [0..<length zs] =
      map (\<lambda>i. [ranked_entry (the (leaderboard_details r (fst (zs ! i)))) (i + 1)]) [0..<length zs]"
    by simp
  with handler_loop_entries [of 0 "map (apfst ZString) zs" "\<lambda>_. hget_of r"] show ?thesis
    by (simp add: concat_map_singleton del: upt_Suc)
qed

text \<open>Only entries that could be encoded are stored, so they can be encoded again.\<close>

definition entries_finite :: "Redis \<Rightarrow> bool" where
  "entries_finite r \<longleftrightarrow> (\<forall>sid e. leaderboard_details r sid = Some e \<longrightarrow>
     is_finite (le_Score e) \<and> is_finite (le_TPS e) \<and> is_finite (le_Correctness e))"

lemma updateLeaderboard_finite: "entries_finite r \<Longrightarrow> entries_finite (snd (updateLeaderboard up tm event score r))"
  by (auto simp: updateLeaderboard_cases entries_finite_def updateLeaderboardScript_def make_entry_def)

lemma handle_all_finite: "entries_finite r \<Longrightarrow> entries_finite (snd (handle_all ds ing r))"
proof (induction ds rule: rev_induct)
  case (snoc d ds)
  then show ?case
    by (cases d) (simp add: handle_all_snoc split_beta Handle_redis updateLeaderboard_finite)
qed (simp add: handle_all_def)

lemma handle_all_ids:
  "dom (leaderboard (snd (handle_all ds ing r))) \<subseteq> dom (leaderboard r) \<union> (\<lambda>(up, tm, event). e_SubmissionID event) ` set ds"
proof (induction ds rule: rev_induct)
  case (snoc d ds)
  have "dom (leaderboard (snd (updateLeaderboard up tm event score r'))) \<subseteq> insert (e_SubmissionID event) (dom (leaderboard r'))"
    for up tm event score r' by (auto simp: updateLeaderboard_cases updateLeaderboardScript_def split: if_splits)
  with snoc show ?case by (cases d) (force simp: handle_all_snoc split_beta Handle_redis)
qed (simp add: handle_all_def)

end
