(* ===== verification/Leaderboard_Props.thy ===== *)
theory Leaderboard_Props
  imports Leaderboard
begin

text \<open>The theorems about the leaderboard service.\<close>

section \<open>Runs of the hub\<close>

text \<open>
  A client connects, is served and leaves before the loop has looked at any channel; the loop then
  takes the unregistration first.
\<close>

definition ghost_run :: "nat Hub list" where
  "ghost_run =
     (let h1 = ws_accept 0 newHub; h2 = ws_enroll 0 h1; h3 = ws_snapshot 0 (Some 7) h2; h4 = ws_return 0 h3;
          h5 = run_unregister h4; h6 = run_register h5
      in [newHub, h1, h2, h3, h4, h5, h6])"

lemmas hub_ops = newHub_def ws_accept_def ws_enroll_def ws_snapshot_def ws_return_def on_client_def try_send_def offer_def
  run_register_def run_unregister_def run_fanout_def broadcast_def is_closed_def ws_write_def

lemma newHub_reachable: "hub_reachable newHub"
  by (rule reach_init) (simp add: hub_init_def)

lemma hub_reachable_step: "hub_reachable h \<Longrightarrow> hub_step h h' \<Longrightarrow> hub_reachable h'"
  by (rule reach_step)

lemma ghost_run_reachable: "hub_reachable (last ghost_run)"
proof -
  have "hub_reachable (ws_accept 0 (newHub :: nat Hub))"
    by (rule hub_reachable_step [OF newHub_reachable], rule hub_accept) (simp add: newHub_def)
  then have "hub_reachable (ws_enroll 0 (ws_accept 0 (newHub :: nat Hub)))"
    by - (rule hub_reachable_step, assumption, rule hub_enroll, (simp add: hub_ops)+)
  then have "hub_reachable (ws_snapshot 0 (Some 7) (ws_enroll 0 (ws_accept 0 (newHub :: nat Hub))))"
    by - (rule hub_reachable_step, assumption, rule hub_snapshot, (simp add: hub_ops)+)
  then have "hub_reachable (ws_return 0 (ws_snapshot 0 (Some 7) (ws_enroll 0 (ws_accept 0 (newHub :: nat Hub)))))"
    by - (rule hub_reachable_step, assumption, rule hub_return, (simp add: hub_ops)+)
  then have "hub_reachable (run_unregister (ws_return 0 (ws_snapshot 0 (Some 7) (ws_enroll 0 (ws_accept 0 (newHub :: nat Hub))))))"
    by - (rule hub_reachable_step, assumption, rule hub_turn, rule turn_unregister, (simp add: hub_ops)+)
  then have "hub_reachable (run_register (run_unregister (ws_return 0 (ws_snapshot 0 (Some 7) (ws_enroll 0 (ws_accept 0 (newHub :: nat Hub)))))))"
    by - (rule hub_reachable_step, assumption, rule hub_turn, rule turn_register, (simp add: hub_ops)+)
  then show ?thesis by (simp add: ghost_run_def Let_def)
qed

lemma ghost_run_ghost: "ghost 0 (last ghost_run)"
  by (simp add: ghost_run_def Let_def ghost_def hub_ops)

text \<open>
  The snapshot is not the first frame of every connection: an update that is fanned out between the
  registration and the snapshot overtakes it, and then the older state arrives last.
\<close>

lemma snapshot_overtaken: "\<exists>h k. hub_reachable (h :: nat Hub) \<and> conns h 0 = Some k \<and> send k = [Live 2, Snap 1]"
proof -
  let ?a = "ws_accept 0 (newHub :: nat Hub)"
  let ?b = "run_register (ws_enroll 0 ?a)"
  let ?c = "run_fanout (broadcast 2 ?b)"
  have "hub_reachable ?a" by (rule hub_reachable_step [OF newHub_reachable], rule hub_accept) (simp add: newHub_def)
  then have "hub_reachable (ws_enroll 0 ?a)" by - (rule hub_reachable_step, assumption, rule hub_enroll, (simp add: hub_ops)+)
  then have "hub_reachable ?b" by - (rule hub_reachable_step, assumption, rule hub_turn, rule turn_register, (simp add: hub_ops)+)
  then have "hub_reachable (broadcast 2 ?b)" by - (rule hub_reachable_step, assumption, rule hub_broadcast)
  then have "hub_reachable ?c" by - (rule hub_reachable_step, assumption, rule hub_turn, rule turn_fanout, (simp add: hub_ops)+)
  then have "hub_reachable (ws_snapshot 0 (Some 1) ?c)" by - (rule hub_reachable_step, assumption, rule hub_snapshot, (simp add: hub_ops)+)
  moreover have "\<exists>k. conns (ws_snapshot 0 (Some 1) ?c) 0 = Some k \<and> send k = [Live 2, Snap 1]" by (simp add: hub_ops)
  ultimately show ?thesis by blast
qed

section \<open>Properties\<close>

text \<open>
  C26. The hub never panics: however the loop, the handlers, the writers, the publisher and the shutdown
  interleave, no frame is sent on a closed channel and no channel is closed twice; every registered
  client has an open channel, and no channel exceeds its capacity.
\<close>

theorem hub_never_panics:
  assumes "hub_reachable h"
  shows "\<not> panicked h \<and> (\<forall>c \<in> clients h. \<not> is_closed h c) \<and>
    length (regCh h) \<le> 64 \<and> length (unregCh h) \<le> 64 \<and> length (msgCh h) \<le> 256 \<and>
    (\<forall>c k. conns h c = Some k \<longrightarrow> length (send k) \<le> 256)"
proof -
  have inv: "hub_inv h" by (rule hub.inv_reach [OF assms])
  then have "\<not> is_closed h c" if "c \<in> clients h" for c
    using hub_inv_client(2) [OF inv _ that] by (auto simp: is_closed_def split: option.splits)
  with inv show ?thesis by (auto simp: hub_inv_def client_ok_def)
qed

theorem hub_never_panics_witness:
  "\<not> panicked (last ghost_run) \<and> \<not> is_closed (last ghost_run) 0"
  using hub_never_panics [OF ghost_run_reachable] ghost_run_ghost by (auto simp: ghost_def)

text \<open>
  C27. Delivery keeps the order: the live updates written to a browser are a subsequence of the updates
  given to \<open>broadcast\<close>, each at most as often as it was published and in the same order, and at most one
  snapshot is written. Updates can be missing (a full queue or a slow client), never repeated or swapped.
\<close>

theorem hub_ordered_delivery:
  assumes "hub_reachable h" and "conns h c = Some k"
  shows "subseq (lives (wire k)) (published h) \<and> length (snaps (wire k)) \<le> 1"
proof -
  have inv: "hub_inv h" by (rule hub.inv_reach [OF assms(1)])
  have ok: "client_ok (fanned h) k" by (rule hub_inv_client(1) [OF inv assms(2)])
  have "subseq (lives (wire k)) (lives (wire k @ send k))" by (simp add: subseq_prefix)
  also have "subseq \<dots> (fanned h)" using ok by (simp add: client_ok_def)
  also have "subseq \<dots> (fanned h @ msgCh h)" by (rule subseq_prefix)
  also have "subseq \<dots> (published h)" using inv by (simp add: hub_inv_def)
  finally show ?thesis using ok by (auto simp: client_ok_def split: if_splits)
qed

theorem hub_ordered_delivery_witness:
  "\<exists>k. conns (last ghost_run) 0 = Some k \<and> subseq (lives (wire k)) (published (last ghost_run)) \<and> length (snaps (wire k)) \<le> 1"
proof -
  obtain k where "conns (last ghost_run) 0 = Some k" using ghost_run_ghost by (auto simp: ghost_def)
  with hub_ordered_delivery [OF ghost_run_reachable this] show ?thesis by blast
qed

text \<open>
  A ghost client is never removed. Registration and unregistration travel through two channels, so
  the loop may consume the unregistration of a connection that has already ended before its
  registration; the client then stays in the set for good, whatever happens afterwards. The same holds
  when the unregistration was dropped because its channel was full.
\<close>

theorem ghost_client_stays:
  assumes "hub_reachable h" and "ghost c h" and "hub_step\<^sup>*\<^sup>* h h'"
  shows "c \<in> clients h' \<and> (\<exists>k. conns h' c = Some k \<and> c_phase k = Returned)"
  using ghost.fact_forever [OF assms(3,1,2)] by (auto simp: ghost_def)

theorem ghost_client_stays_witness:
  "\<exists>h h'. hub_reachable h \<and> ghost 0 h \<and> hub_step\<^sup>*\<^sup>* h h' \<and> (h' :: nat Hub) = broadcast 5 h \<and> 0 \<in> clients h'"
proof -
  have s: "hub_step\<^sup>*\<^sup>* (last ghost_run) (broadcast 5 (last ghost_run))" by (intro r_into_rtranclp hub_broadcast)
  with ghost_client_stays [OF ghost_run_reachable ghost_run_ghost s] ghost_run_reachable ghost_run_ghost show ?thesis by blast
qed



text \<open>
  The two views agree: for the same answers of Redis the websocket snapshot, which pipelines its
  requests, holds the entries, with the same ranks, that the HTTP handler returns by asking for one entry
  after the other; members that are not strings, missing and damaged details included.
\<close>

theorem leaderboard_views_agree:
  "buildSnapshot (Inr members) hget =
     (case leaderboardHandler (Inr members) hget of
        OK (Some es) \<Rightarrow> Inr \<lparr>sm_Type = ''snapshot'', sm_Entries = es\<rparr>
      | _ \<Rightarrow> Inl MarshalError)"
proof (cases "members = []")
  case False
  have "concat (map snapshot_entry (zip [0..<length members] (zip members (pipe_exec hget (pipe_cmds members))))) =
      handler_loop hget 0 members"
    using handler_loop_entries [of 0 members hget] by (simp only: snapshot_entries) simp
  with False show ?thesis
    by (simp add: buildSnapshot_def leaderboardHandler_def Let_def del: set_concat) (simp add: json_entries_def)
qed (simp add: buildSnapshot_def leaderboardHandler_def json_entries_def)

end
