(* ===== verification/Utf8.thy ===== *)
theory Utf8
  imports Prelude
begin

text \<open>
  UTF-8 as the package \<open>unicode/utf8\<close> decides it, and the ways the services cut long texts: the log
  reader and the publisher of the build service and the publisher of the sandbox orchestrator.
\<close>

section \<open>Encodings\<close>

text \<open>The number of bytes a leading byte announces, and the range of the byte after it.\<close>

definition utf8_lead :: "char \<Rightarrow> (nat \<times> nat \<times> nat) option" where
  "utf8_lead c =
     (let b = byte c in
      if b < 128 then Some (1, 0, 255)
      else if b < 194 then None
      else if b < 224 then Some (2, 128, 191)
      else if b = 224 then Some (3, 160, 191)
      else if b = 237 then Some (3, 128, 159)
      else if b < 240 then Some (3, 128, 191)
      else if b = 240 then Some (4, 144, 191)
      else if b < 244 then Some (4, 128, 191)
      else if b = 244 then Some (4, 128, 143)
      else None)"

definition utf8_cont :: "char \<Rightarrow> bool" where
  "utf8_cont c \<longleftrightarrow> 128 \<le> byte c \<and> byte c \<le> 191"

text \<open>The length of the encoding a text starts with, if it starts with one.\<close>

definition utf8_head :: "string \<Rightarrow> nat option" where
  "utf8_head s =
     (case s of [] \<Rightarrow> None
      | c # cs \<Rightarrow>
          (case utf8_lead c of None \<Rightarrow> None
           | Some (n, lo, hi) \<Rightarrow>
               if n = 1 then Some 1
               else if length s < n then None
               else if lo \<le> byte (hd cs) \<and> byte (hd cs) \<le> hi \<and> list_all utf8_cont (take (n - 2) (tl cs)) then Some n
               else None))"

lemma utf8_lead_size: "utf8_lead c = Some (n, lo, hi) \<Longrightarrow> 1 \<le> n \<and> n \<le> 4"
  by (auto simp: utf8_lead_def Let_def split: if_splits)

lemma utf8_head_size: "utf8_head s = Some n \<Longrightarrow> 1 \<le> n \<and> n \<le> 4 \<and> n \<le> length s"
  by (auto simp: utf8_head_def Suc_le_eq split: list.splits option.splits if_splits dest: utf8_lead_size)

function (sequential) ValidString :: "string \<Rightarrow> bool" where
  "ValidString [] = True"
| "ValidString s = (case utf8_head s of None \<Rightarrow> False | Some n \<Rightarrow> ValidString (drop n s))"
  by pat_completeness auto
termination by (relation "measure length") (auto dest: utf8_head_size)

text \<open>\<open>FullRuneInString\<close> on a text of one byte: only a leading byte that announces more is not full.\<close>

definition FullRune_byte :: "char \<Rightarrow> bool" where
  "FullRune_byte c = (case utf8_lead c of None \<Rightarrow> True | Some (n, _, _) \<Rightarrow> n = 1)"

section \<open>Cutting texts\<close>

fun trim_invalid :: "string \<Rightarrow> string" where
  "trim_invalid s = (if s \<noteq> [] \<and> \<not> ValidString s then trim_invalid (butlast s) else s)"

definition truncate_text :: "string \<Rightarrow> nat \<Rightarrow> string" where
  "truncate_text s mx = (if length s \<le> mx then s else trim_invalid (take mx s))"

fun trim_log :: "string \<Rightarrow> string" where
  "trim_log s = (if s \<noteq> [] \<and> \<not> FullRune_byte (last s) \<and> \<not> ValidString s then trim_log (butlast s) else s)"

declare trim_invalid.simps [simp del] trim_log.simps [simp del]

section \<open>Cutting a valid text\<close>

text \<open>Whether a text starts with an encoding of \<open>n\<close> bytes depends on these bytes only.\<close>

lemma utf8_head_local:
  assumes "utf8_head s = Some n"
  shows "utf8_head (take n s @ t) = Some n"
proof -
  obtain c cs lo hi where s: "s = c # cs" and l: "utf8_lead c = Some (n, lo, hi)"
    using assms by (auto simp: utf8_head_def split: list.splits option.splits if_splits)
  note sz = utf8_head_size [OF assms]
  show ?thesis
  proof (cases "n = 1")
    case False
    then have "n = Suc (Suc (n - 2))" using sz by linarith
    then obtain m where m: "n = Suc (Suc m)" by blast
    obtain d ds where cs: "cs = d # ds" using sz m s by (cases cs) auto
    then show ?thesis using assms l s m sz by (auto simp: utf8_head_def split: if_splits)
  qed (use s l in \<open>simp add: utf8_head_def\<close>)
qed

lemma ValidString_head:
  assumes "utf8_head s = Some n"
  shows "ValidString s = ValidString (drop n s)"
proof (cases s)
  case (Cons c cs)
  then show ?thesis using assms by simp
qed (use assms in \<open>simp add: utf8_head_def\<close>)

text \<open>A valid text cut anywhere is valid after the removal of at most three bytes.\<close>

lemma ValidString_cut:
  assumes "ValidString s" and "m \<le> length s"
  shows "\<exists>k \<le> 3. k \<le> m \<and> ValidString (take (m - k) s)"
  using assms
proof (induction s arbitrary: m rule: ValidString.induct)
  case (2 c cs)
  let ?s = "c # cs"
  obtain n where n: "utf8_head ?s = Some n" "ValidString (drop n ?s)" using "2.prems" by (auto split: option.splits)
  note sz = utf8_head_size [OF n(1)]
  show ?case
  proof (cases "m < n")
    case True
    then show ?thesis using sz by (intro exI [of _ m]) auto
  next
    case False
    then have m: "m = n + (m - n)" by simp
    from "2.IH" [OF n] "2.prems"(2) obtain k where k: "k \<le> 3" "k \<le> m - n" "ValidString (take (m - n - k) (drop n ?s))"
      by (metis diff_le_mono length_drop)
    have "take (m - k) ?s = take n ?s @ take (m - n - k) (drop n ?s)"
    proof -
      have "m - k = n + (m - n - k)" using k False by simp
      then show ?thesis by (simp only: take_add)
    qed
    moreover have "ValidString (take n ?s @ take (m - n - k) (drop n ?s))"
      using ValidString_head [OF utf8_head_local [OF n(1)]] k(3) sz by simp
    ultimately show ?thesis using k False by (intro exI [of _ k]) simp
  qed
qed simp

lemma trim_invalid_prefix: "\<exists>k. trim_invalid s = take k s"
proof (induction s rule: trim_invalid.induct)
  case (1 s)
  show ?case
  proof (cases "s \<noteq> [] \<and> \<not> ValidString s")
    case True
    with 1 obtain k where "trim_invalid (butlast s) = take k (butlast s)" by blast
    then have "trim_invalid s = take (min k (length s - 1)) s"
      using True by (subst trim_invalid.simps) (simp add: butlast_conv_take min.commute)
    then show ?thesis ..
  next
    case False
    then show ?thesis by (subst trim_invalid.simps) (auto intro: exI [of _ "length s"])
  qed
qed

lemma trim_invalid_valid: "ValidString (trim_invalid s)"
proof (induction s rule: trim_invalid.induct)
  case (1 s)
  then show ?case by (subst trim_invalid.simps) auto
qed

text \<open>It is the longest valid prefix that remains.\<close>

lemma trim_invalid_longest: "k \<le> length s \<Longrightarrow> ValidString (take k s) \<Longrightarrow> k \<le> length (trim_invalid s)"
proof (induction s rule: trim_invalid.induct)
  case (1 s)
  show ?case
  proof (cases "s \<noteq> [] \<and> \<not> ValidString s")
    case True
    then have "k \<noteq> length s" using "1.prems" by auto
    with True 1 have "k \<le> length (trim_invalid (butlast s))" by (simp add: butlast_conv_take)
    with True show ?thesis by (subst trim_invalid.simps) simp
  next
    case False
    with "1.prems" show ?thesis by (subst trim_invalid.simps) auto
  qed
qed

end
