(* ===== verification/Kubernetes.thy ===== *)
theory Kubernetes
  imports Utf8
begin

text \<open>
  The vocabulary of the services that drive the cluster: Go errors, the pod and job descriptions
  they build, the calls they make, and what a watch delivers. The cluster itself is not modelled:
  its answers are arguments of the operations, which return the calls they made.
\<close>

section \<open>Errors\<close>

text \<open>
  An error is its text and whether \<open>IsAlreadyExists\<close> recognises it; wrapping with \<open>%w\<close> keeps that,
  formatting with \<open>%v\<close> or \<open>%s\<close> does not.
\<close>

record go_error =
  err_text :: string
  already_exists :: bool

definition errorf :: "string \<Rightarrow> go_error" where
  "errorf s = \<lparr>err_text = s, already_exists = False\<rparr>"

definition wrap :: "string \<Rightarrow> go_error \<Rightarrow> go_error" where
  "wrap prefix e = e\<lparr>err_text := prefix @ '': '' @ err_text e\<rparr>"

lemma already_exists_simps [simp]:
  "already_exists (wrap p e) = already_exists e" "already_exists (errorf s) = False"
  by (simp_all add: wrap_def errorf_def)

section \<open>Pods and jobs\<close>

datatype SeccompProfile = RuntimeDefault | Localhost string

record SecurityContext =
  RunAsUser :: int64
  RunAsNonRoot :: bool
  ReadOnlyRootFilesystem :: bool
  AllowPrivilegeEscalation :: bool
  DropCapabilities :: "string list"
  Seccomp :: "SeccompProfile option"
  AppArmorDefault :: bool

record HTTPProbe =
  pr_Path :: string
  pr_Port :: nat
  pr_InitialDelay :: nat
  pr_Period :: nat
  pr_FailureThreshold :: nat

record Container =
  ct_Name :: string
  ct_Image :: string
  ct_Command :: "string list"
  ct_Args :: "string list"
  ct_WorkingDir :: string
  ct_Env :: "(string \<times> string) list"
  ct_Mounts :: "(string \<times> string) list"
  ct_Ports :: "(string \<times> nat) list"
  ct_Limits :: "(string \<times> string) list"
  ct_Requests :: "(string \<times> string) list"
  ct_Readiness :: "HTTPProbe option"
  ct_Security :: "SecurityContext option"

definition blank_container :: Container where
  "blank_container = \<lparr>ct_Name = [], ct_Image = [], ct_Command = [], ct_Args = [], ct_WorkingDir = [], ct_Env = [],
     ct_Mounts = [], ct_Ports = [], ct_Limits = [], ct_Requests = [], ct_Readiness = None, ct_Security = None\<rparr>"

record Toleration =
  tl_Key :: string
  tl_Value :: string
  tl_Effect :: string

text \<open>Volumes are empty directories with an optional size limit.\<close>

record Pod =
  pod_Name :: string
  pod_Namespace :: string
  pod_Labels :: "(string \<times> string) list"
  pod_AutomountToken :: "bool option"
  pod_RestartPolicy :: string
  pod_Init :: "Container list"
  pod_Containers :: "Container list"
  pod_Volumes :: "(string \<times> string option) list"
  pod_NodeSelector :: "(string \<times> string) list"
  pod_Tolerations :: "Toleration list"

record Job =
  job_Name :: string
  job_Namespace :: string
  job_TTL :: nat
  job_BackoffLimit :: nat
  job_Completions :: nat
  job_Parallelism :: nat
  job_Labels :: "(string \<times> string) list"
  job_RestartPolicy :: string
  job_Containers :: "Container list"

section \<open>Calls and watches\<close>

datatype k8s_call =
    CreatePod Pod
  | WatchPod string
  | GetPod string
  | GetLogs string string
  | DeletePod string string
  | CreateJob Job
  | WatchJob string
  | DeleteJob string

datatype pod_phase = PodPending | PodRunning | PodSucceeded | PodFailed | PodUnknown

text \<open>What a watch delivers: another kind of object, or the phase of the pod and whether it is ready.\<close>

datatype pod_event = OtherObject | PodUpdate pod_phase bool

text \<open>A container a pod runs cannot become root, write its image, gain privileges or keep capabilities.\<close>

definition hardened :: "Container \<Rightarrow> bool" where
  "hardened c = (case ct_Security c of None \<Rightarrow> False
     | Some s \<Rightarrow> RunAsNonRoot s \<and> ReadOnlyRootFilesystem s \<and> \<not> AllowPrivilegeEscalation s \<and>
         DropCapabilities s = [''ALL''] \<and> Seccomp s \<noteq> None \<and> AppArmorDefault s)"

text \<open>The pods (namespace and name) a list of calls has created and not deleted, when the calls succeed.\<close>

fun live_pods :: "k8s_call list \<Rightarrow> (string \<times> string) list \<Rightarrow> (string \<times> string) list" where
  "live_pods [] ps = ps"
| "live_pods (CreatePod p # cs) ps = live_pods cs ((pod_Namespace p, pod_Name p) # ps)"
| "live_pods (DeletePod ns n # cs) ps = live_pods cs (removeAll (ns, n) ps)"
| "live_pods (_ # cs) ps = live_pods cs ps"

lemma live_pods_append: "live_pods (xs @ ys) ps = live_pods ys (live_pods xs ps)"
  by (induction xs ps rule: live_pods.induct) simp_all

end
