(* ===== verification/Lifecycle.thy ===== *)
theory Lifecycle
  imports Kubernetes
begin

text \<open>
  The events of the topic \<open>submission.lifecycle\<close>, through which the submission API, the build service,
  the sandbox orchestrator and the bot orchestrator hand a submission on, and the consumer loop the
  build service and the sandbox orchestrator share.
\<close>

section \<open>Events\<close>

record SubmissionCreatedEvent =
  sc_Event :: string
  sc_SubmissionID :: string
  sc_Language :: string
  sc_TeamName :: string
  sc_ArtifactPath :: string
  sc_CreatedAt :: int64

record BuildCompleteEvent =
  bc_Event :: string
  bc_SubmissionID :: string
  bc_BinaryPath :: string
  bc_Language :: string
  bc_TeamName :: string
  bc_BuiltAt :: int64

record FailedEvent =
  fe_Event :: string
  fe_SubmissionID :: string
  fe_Reason :: string
  fe_FailedAt :: int64

record SandboxReadyEvent =
  sr_Event :: string
  sr_SubmissionID :: string
  sr_PodName :: string
  sr_PodIP :: string
  sr_HTTPPort :: int
  sr_WSPort :: int
  sr_TeamName :: string
  sr_ReadyAt :: int64

record TestCompleteEvent =
  tc_Event :: string
  tc_SubmissionID :: string
  tc_TeamName :: string
  tc_Success :: bool
  tc_Reason :: string
  tc_CompletedAt :: int64

text \<open>A message of the topic; a failure is that of a build or of a sandbox by its event name.\<close>

datatype lifecycle =
    SubmissionCreated SubmissionCreatedEvent
  | BuildComplete BuildCompleteEvent
  | Failed FailedEvent
  | SandboxReady SandboxReadyEvent
  | TestComplete TestCompleteEvent
  | Garbage

text \<open>
  Decoding a message into the event type of a consumer: fields of the same JSON name are taken over,
  the others keep their zero value; a text that is not JSON is refused.
\<close>

fun decode_created :: "lifecycle \<Rightarrow> SubmissionCreatedEvent option" where
  "decode_created (SubmissionCreated e) = Some e"
| "decode_created (BuildComplete e) = Some \<lparr>sc_Event = bc_Event e, sc_SubmissionID = bc_SubmissionID e,
     sc_Language = bc_Language e, sc_TeamName = bc_TeamName e, sc_ArtifactPath = [], sc_CreatedAt = 0\<rparr>"
| "decode_created (Failed e) = Some \<lparr>sc_Event = fe_Event e, sc_SubmissionID = fe_SubmissionID e,
     sc_Language = [], sc_TeamName = [], sc_ArtifactPath = [], sc_CreatedAt = 0\<rparr>"
| "decode_created (SandboxReady e) = Some \<lparr>sc_Event = sr_Event e, sc_SubmissionID = sr_SubmissionID e,
     sc_Language = [], sc_TeamName = sr_TeamName e, sc_ArtifactPath = [], sc_CreatedAt = 0\<rparr>"
| "decode_created (TestComplete e) = Some \<lparr>sc_Event = tc_Event e, sc_SubmissionID = tc_SubmissionID e,
     sc_Language = [], sc_TeamName = tc_TeamName e, sc_ArtifactPath = [], sc_CreatedAt = 0\<rparr>"
| "decode_created Garbage = None"

fun decode_complete :: "lifecycle \<Rightarrow> BuildCompleteEvent option" where
  "decode_complete (SubmissionCreated e) = Some \<lparr>bc_Event = sc_Event e, bc_SubmissionID = sc_SubmissionID e, bc_BinaryPath = [],
     bc_Language = sc_Language e, bc_TeamName = sc_TeamName e, bc_BuiltAt = 0\<rparr>"
| "decode_complete (BuildComplete e) = Some e"
| "decode_complete (Failed e) = Some \<lparr>bc_Event = fe_Event e, bc_SubmissionID = fe_SubmissionID e, bc_BinaryPath = [],
     bc_Language = [], bc_TeamName = [], bc_BuiltAt = 0\<rparr>"
| "decode_complete (SandboxReady e) = Some \<lparr>bc_Event = sr_Event e, bc_SubmissionID = sr_SubmissionID e, bc_BinaryPath = [],
     bc_Language = [], bc_TeamName = sr_TeamName e, bc_BuiltAt = 0\<rparr>"
| "decode_complete (TestComplete e) = Some \<lparr>bc_Event = tc_Event e, bc_SubmissionID = tc_SubmissionID e, bc_BinaryPath = [],
     bc_Language = [], bc_TeamName = tc_TeamName e, bc_BuiltAt = 0\<rparr>"
| "decode_complete Garbage = None"

fun decode_ready :: "lifecycle \<Rightarrow> SandboxReadyEvent option" where
  "decode_ready (SubmissionCreated e) = Some \<lparr>sr_Event = sc_Event e, sr_SubmissionID = sc_SubmissionID e, sr_PodName = [],
     sr_PodIP = [], sr_HTTPPort = 0, sr_WSPort = 0, sr_TeamName = sc_TeamName e, sr_ReadyAt = 0\<rparr>"
| "decode_ready (BuildComplete e) = Some \<lparr>sr_Event = bc_Event e, sr_SubmissionID = bc_SubmissionID e, sr_PodName = [],
     sr_PodIP = [], sr_HTTPPort = 0, sr_WSPort = 0, sr_TeamName = bc_TeamName e, sr_ReadyAt = 0\<rparr>"
| "decode_ready (Failed e) = Some \<lparr>sr_Event = fe_Event e, sr_SubmissionID = fe_SubmissionID e, sr_PodName = [],
     sr_PodIP = [], sr_HTTPPort = 0, sr_WSPort = 0, sr_TeamName = [], sr_ReadyAt = 0\<rparr>"
| "decode_ready (SandboxReady e) = Some e"
| "decode_ready (TestComplete e) = Some \<lparr>sr_Event = tc_Event e, sr_SubmissionID = tc_SubmissionID e, sr_PodName = [],
     sr_PodIP = [], sr_HTTPPort = 0, sr_WSPort = 0, sr_TeamName = tc_TeamName e, sr_ReadyAt = 0\<rparr>"
| "decode_ready Garbage = None"

section \<open>The consumer loop\<close>

text \<open>
  One poll: whether the context is over when it returns, whether it reports fetch errors and the
  context ends during the pause after them, and the records it delivers, each with whether its
  offset can be committed afterwards.
\<close>

record 'r fetch =
  f_ctx_done :: bool
  f_errors :: bool
  f_wait_done :: bool
  f_records :: "('r \<times> bool) list"

datatype run_end = Cancelled | HandleError | CommitError

text \<open>
  Records are handled and committed one after the other; the first error ends the loop and leaves the
  rest uncommitted. Gives the end, if there was one, the committed records and the state.
\<close>

fun run_records :: "('r \<Rightarrow> 's \<Rightarrow> bool \<times> 's) \<Rightarrow> ('r \<times> bool) list \<Rightarrow> 's \<Rightarrow> run_end option \<times> 'r list \<times> 's" where
  "run_records handle [] s = (None, [], s)"
| "run_records handle ((r, commit_ok) # rs) s =
     (case handle r s of (ok, s') \<Rightarrow>
        if \<not> ok then (Some HandleError, [], s')
        else if \<not> commit_ok then (Some CommitError, [], s')
        else (case run_records handle rs s' of (e, cs, s'') \<Rightarrow> (e, r # cs, s'')))"

fun consumer_loop :: "('r \<Rightarrow> 's \<Rightarrow> bool \<times> 's) \<Rightarrow> 'r fetch list \<Rightarrow> 's \<Rightarrow> run_end option \<times> 'r list \<times> 's" where
  "consumer_loop handle [] s = (None, [], s)"
| "consumer_loop handle (f # fs) s =
     (if f_ctx_done f then (Some Cancelled, [], s)
      else if f_errors f then (if f_wait_done f then (Some Cancelled, [], s) else consumer_loop handle fs s)
      else (case run_records handle (f_records f) s of
              (Some e, cs, s') \<Rightarrow> (Some e, cs, s')
            | (None, cs, s') \<Rightarrow> (case consumer_loop handle fs s' of (e, ds, s'') \<Rightarrow> (e, cs @ ds, s''))))"

text \<open>The records the loop is handed, in order.\<close>

definition offered :: "'r fetch list \<Rightarrow> 'r list" where
  "offered fs = concat (map (\<lambda>f. map fst (f_records f)) (filter (\<lambda>f. \<not> f_errors f) fs))"

fun handle_seq :: "('r \<Rightarrow> 's \<Rightarrow> bool \<times> 's) \<Rightarrow> 'r list \<Rightarrow> 's \<Rightarrow> bool \<times> 's" where
  "handle_seq handle [] s = (True, s)"
| "handle_seq handle (r # rs) s = (case handle r s of (ok, s') \<Rightarrow> if ok then handle_seq handle rs s' else (False, s'))"

lemma handle_seq_append:
  "handle_seq handle (xs @ ys) s = (case handle_seq handle xs s of (ok, s') \<Rightarrow> if ok then handle_seq handle ys s' else (False, s'))"
  by (induction xs arbitrary: s) (auto split: prod.splits)

lemma run_records_committed:
  assumes "run_records handle rs s = (e, cs, s')"
  shows "\<exists>k. cs = take k (map fst rs) \<and> (\<exists>t. handle_seq handle cs s = (True, t)) \<and> (e = None \<longrightarrow> cs = map fst rs \<and> handle_seq handle cs s = (True, s'))"
  using assms
proof (induction rs arbitrary: s e cs s')
  case (Cons r rs)
  obtain x commit_ok where r: "r = (x, commit_ok)" by fastforce
  obtain ok s1 where h: "handle x s = (ok, s1)" by fastforce
  obtain e1 cs1 s2 where rec: "run_records handle rs s1 = (e1, cs1, s2)" by (metis prod_cases3)
  show ?case
  proof (cases "ok \<and> commit_ok")
    case True
    then have "cs = x # cs1" "e = e1" "s' = s2" using Cons.prems r h rec by auto
    moreover from Cons.IH [OF rec] obtain k where "cs1 = take k (map fst rs)" by blast
    ultimately show ?thesis using Cons.IH [OF rec] r h True by (intro exI [of _ "Suc k"]) auto
  next
    case False
    then show ?thesis using Cons.prems r h by (intro exI [of _ 0]) (auto split: if_splits)
  qed
qed simp

text \<open>
  At least once and in order: the committed records are a prefix of the records delivered, and the
  handler has succeeded on every one of them before.
\<close>

lemma consumer_loop_committed:
  assumes "consumer_loop handle fs s = (e, cs, s')"
  shows "(\<exists>k. cs = take k (offered fs)) \<and> (\<exists>t. handle_seq handle cs s = (True, t))"
  using assms
proof (induction fs arbitrary: s e cs s')
  case (Cons f fs)
  show ?case
  proof (cases "f_ctx_done f \<or> f_errors f \<and> f_wait_done f")
    case True
    then show ?thesis using Cons.prems by (auto intro: exI [of _ 0] split: if_splits)
  next
    case False
    show ?thesis
    proof (cases "f_errors f")
      case True
      with False Cons show ?thesis by (simp add: offered_def)
    next
      case err: False
      obtain e1 cs1 s1 where r1: "run_records handle (f_records f) s = (e1, cs1, s1)" by (metis prod_cases3)
      note c1 = run_records_committed [OF r1]
      obtain k where k: "cs1 = take k (map fst (f_records f))" using c1 by blast
      show ?thesis
      proof (cases e1)
        case None
        obtain e2 cs2 s2 where r2: "consumer_loop handle fs s1 = (e2, cs2, s2)" by (metis prod_cases3)
        then have cs: "cs = cs1 @ cs2" using Cons.prems False err r1 None by auto
        from Cons.IH [OF r2] obtain j t where j: "cs2 = take j (offered fs)" "handle_seq handle cs2 s1 = (True, t)" by blast
        have all: "cs1 = map fst (f_records f)" "handle_seq handle cs1 s = (True, s1)" using c1 None by auto
        then have "cs = take (length cs1 + j) (offered (f # fs))" using cs j(1) err by (simp add: offered_def)
        moreover have "handle_seq handle cs s = (True, t)" using all j(2) cs by (simp add: handle_seq_append)
        ultimately show ?thesis by blast
      next
        case (Some x)
        then have cs: "cs = cs1" using Cons.prems False err r1 by auto
        have "cs1 = take (min k (length (f_records f))) (offered (f # fs))" using k err 
          by (cases "k \<le> length (f_records f)") (simp_all add: offered_def take_map min_def)
        with cs c1 show ?thesis by blast
      qed
    qed
  qed
qed simp

end
