(* ===== verification/Submission_Api.thy ===== *)
theory Submission_Api
  imports Lifecycle Transition
begin

text \<open>
  The submission API (\<open>src/services/submission-api\<close>): a client announces a submission, uploads its
  source with the address it gets, and confirms it; the confirmation puts the submission on the topic.
  The ids of the uuid package, the signer and the broker are arguments. Requests are served
  concurrently: a confirmation reads the pending entry, publishes and then removes the entry, three
  actions that others may come between.
\<close>

section \<open>Requests and replies\<close>

definition allowedLanguages :: "string \<Rightarrow> bool" where
  "allowedLanguages l \<longleftrightarrow> l \<in> {''cpp'', ''rust'', ''go''}"

definition team_char :: "char \<Rightarrow> bool" where
  "team_char c \<longleftrightarrow> is_alnum c \<or> c \<in> set ''_-''"

text \<open>The pattern \<open>^[A-Za-z0-9_-]+$\<close>.\<close>

definition teamNameRe :: "string \<Rightarrow> bool" where
  "teamNameRe s \<longleftrightarrow> s \<noteq> [] \<and> list_all team_char s"

definition maxTeamNameLen :: nat where
  "maxTeamNameLen = 64"

record pendingSubmit =
  ps_Language :: string
  ps_TeamName :: string

record SubmitInitRequest =
  rq_Language :: string
  rq_TeamName :: string

record SubmitInitResponse =
  rs_SubmissionID :: string
  rs_PresignedURL :: string
  rs_ArtifactKey :: string
  rs_ExpiresAt :: int

datatype api_reply = Refused nat string | InitAccepted SubmitInitResponse | ConfirmAccepted string

definition artifact_key :: "string \<Rightarrow> string" where
  "artifact_key submissionID = ''submissions/'' @ submissionID @ ''.tar.gz''"

type_synonym pending_map = "string \<rightharpoonup> pendingSubmit"

text \<open>
  \<open>body\<close> is the decoded request, \<open>uuid\<close> the fresh id, \<open>presign\<close> the signer and \<open>tm\<close> the time in seconds.
\<close>

definition handleSubmitInit ::
    "SubmitInitRequest option \<Rightarrow> string \<Rightarrow> (string \<Rightarrow> go_error + string) \<Rightarrow> int \<Rightarrow> pending_map \<Rightarrow> api_reply \<times> pending_map" where
  "handleSubmitInit body uuid presign tm pending =
     (case body of None \<Rightarrow> (Refused 400 ''invalid JSON'', pending)
      | Some req \<Rightarrow>
          if \<not> allowedLanguages (rq_Language req) then (Refused 400 ''unsupported language'', pending)
          else if rq_TeamName req = [] then (Refused 400 ''team_name required'', pending)
          else if length (rq_TeamName req) > maxTeamNameLen then (Refused 400 ''team_name too long'', pending)
          else if \<not> teamNameRe (rq_TeamName req) then (Refused 400 ''team_name contains invalid characters'', pending)
          else (case presign (artifact_key uuid) of
                  Inl _ \<Rightarrow> (Refused 500 ''internal error'', pending)
                | Inr url \<Rightarrow>
                    (InitAccepted \<lparr>rs_SubmissionID = uuid, rs_PresignedURL = url, rs_ArtifactKey = artifact_key uuid, rs_ExpiresAt = tm + 900\<rparr>,
                     pending(uuid \<mapsto> \<lparr>ps_Language = rq_Language req, ps_TeamName = rq_TeamName req\<rparr>))))"

definition PublishSubmissionCreated :: "int64 \<Rightarrow> SubmissionCreatedEvent \<Rightarrow> lifecycle" where
  "PublishSubmissionCreated now e = SubmissionCreated (e\<lparr>sc_Event := ''submission.created'', sc_CreatedAt := now\<rparr>)"

definition confirm_event :: "string \<Rightarrow> pendingSubmit \<Rightarrow> SubmissionCreatedEvent" where
  "confirm_event submissionID p = \<lparr>sc_Event = [], sc_SubmissionID = submissionID, sc_Language = ps_Language p,
     sc_TeamName = ps_TeamName p, sc_ArtifactPath = artifact_key submissionID, sc_CreatedAt = 0\<rparr>"

text \<open>One confirmation that no other request interrupts.\<close>

definition handleConfirm :: "string \<Rightarrow> bool \<Rightarrow> int64 \<Rightarrow> pending_map \<Rightarrow> api_reply \<times> lifecycle list \<times> pending_map" where
  "handleConfirm submissionID pub_ok now pending =
     (if submissionID = [] then (Refused 400 ''submission_id required'', [], pending)
      else case pending submissionID of
             None \<Rightarrow> (Refused 404 ''submission not found or expired'', [], pending)
           | Some p \<Rightarrow>
               if \<not> pub_ok then (Refused 500 ''internal error'', [], pending)
               else (ConfirmAccepted submissionID, [PublishSubmissionCreated now (confirm_event submissionID p)], pending(submissionID := None)))"

section \<open>Concurrent requests\<close>

text \<open>A confirmation under way: the entry it has read, and whether it has published.\<close>

record confirm =
  cf_id :: string
  cf_pending :: pendingSubmit
  cf_published :: bool

record Api =
  api_pending :: pending_map
  api_confirms :: "confirm list"
  api_topic :: "lifecycle list"

definition api_submit :: "SubmitInitRequest option \<Rightarrow> string \<Rightarrow> (string \<Rightarrow> go_error + string) \<Rightarrow> int \<Rightarrow> Api \<Rightarrow> Api" where
  "api_submit body uuid presign tm s = s\<lparr>api_pending := snd (handleSubmitInit body uuid presign tm (api_pending s))\<rparr>"

definition confirm_load :: "string \<Rightarrow> Api \<Rightarrow> Api" where
  "confirm_load submissionID s =
     (if submissionID = [] then s
      else case api_pending s submissionID of None \<Rightarrow> s
           | Some p \<Rightarrow> s\<lparr>api_confirms := api_confirms s @ [\<lparr>cf_id = submissionID, cf_pending = p, cf_published = False\<rparr>]\<rparr>)"

definition confirm_publish :: "nat \<Rightarrow> int64 \<Rightarrow> Api \<Rightarrow> Api" where
  "confirm_publish i now s =
     (let c = api_confirms s ! i
      in s\<lparr>api_topic := api_topic s @ [PublishSubmissionCreated now (confirm_event (cf_id c) (cf_pending c))],
           api_confirms := (api_confirms s)[i := c\<lparr>cf_published := True\<rparr>]\<rparr>)"

definition confirm_drop :: "nat \<Rightarrow> Api \<Rightarrow> Api" where
  "confirm_drop i s = s\<lparr>api_confirms := take i (api_confirms s) @ drop (Suc i) (api_confirms s)\<rparr>"

definition confirm_delete :: "nat \<Rightarrow> Api \<Rightarrow> Api" where
  "confirm_delete i s = confirm_drop i (s\<lparr>api_pending := (api_pending s)(cf_id (api_confirms s ! i) := None)\<rparr>)"

inductive api_step :: "Api \<Rightarrow> Api \<Rightarrow> bool" where
  api_init: "api_step s (api_submit body uuid presign tm s)"
| api_load: "api_step s (confirm_load submissionID s)"
| api_publish: "i < length (api_confirms s) \<Longrightarrow> \<not> cf_published (api_confirms s ! i) \<Longrightarrow> api_step s (confirm_publish i now s)"
| api_publish_fails: "i < length (api_confirms s) \<Longrightarrow> \<not> cf_published (api_confirms s ! i) \<Longrightarrow> api_step s (confirm_drop i s)"
| api_delete: "i < length (api_confirms s) \<Longrightarrow> cf_published (api_confirms s ! i) \<Longrightarrow> api_step s (confirm_delete i s)"

definition api_start :: Api where
  "api_start = \<lparr>api_pending = Map.empty, api_confirms = [], api_topic = []\<rparr>"

definition api_initial :: "Api \<Rightarrow> bool" where
  "api_initial s \<longleftrightarrow> s = api_start"

abbreviation api_reachable :: "Api \<Rightarrow> bool" where
  "api_reachable \<equiv> reach api_initial api_step"

section \<open>Well formed submissions\<close>

definition submit_ok :: "pendingSubmit \<Rightarrow> bool" where
  "submit_ok p \<longleftrightarrow> allowedLanguages (ps_Language p) \<and> teamNameRe (ps_TeamName p) \<and> length (ps_TeamName p) \<le> maxTeamNameLen"

definition created_ok :: "lifecycle \<Rightarrow> bool" where
  "created_ok m = (case m of SubmissionCreated e \<Rightarrow>
     sc_Event e = ''submission.created'' \<and> allowedLanguages (sc_Language e) \<and> teamNameRe (sc_TeamName e) \<and>
     length (sc_TeamName e) \<le> maxTeamNameLen \<and> sc_ArtifactPath e = artifact_key (sc_SubmissionID e) | _ \<Rightarrow> False)"

definition api_inv :: "Api \<Rightarrow> bool" where
  "api_inv s \<longleftrightarrow> (\<forall>sid p. api_pending s sid = Some p \<longrightarrow> submit_ok p) \<and>
     list_all (\<lambda>c. submit_ok (cf_pending c)) (api_confirms s) \<and> list_all created_ok (api_topic s)"

lemma confirm_event_ok: "submit_ok p \<Longrightarrow> created_ok (PublishSubmissionCreated now (confirm_event sid p))"
  by (simp add: submit_ok_def created_ok_def PublishSubmissionCreated_def confirm_event_def)

lemma handleSubmitInit_ok:
  "\<forall>sid p. pending sid = Some p \<longrightarrow> submit_ok p \<Longrightarrow> snd (handleSubmitInit body uuid presign tm pending) sid = Some p \<Longrightarrow> submit_ok p"
  by (auto simp: handleSubmitInit_def submit_ok_def split: option.splits if_splits sum.splits)

lemma api_submit_inv [keeps]: "api_inv s \<Longrightarrow> api_inv (api_submit body uuid presign tm s)"
  using handleSubmitInit_ok [of "api_pending s" body uuid presign tm] by (auto simp: api_inv_def api_submit_def)

lemma confirm_load_inv [keeps]: "api_inv s \<Longrightarrow> api_inv (confirm_load sid s)"
  by (auto simp: api_inv_def confirm_load_def split: option.splits)

lemma confirm_publish_inv [keeps]:
  assumes "api_inv s" and "i < length (api_confirms s)"
  shows "api_inv (confirm_publish i now s)"
proof -
  have "submit_ok (cf_pending (api_confirms s ! i))" using assms by (simp add: api_inv_def list_all_length)
  then show ?thesis using assms
    by (auto simp: api_inv_def confirm_publish_def Let_def confirm_event_ok list_all_iff
      dest!: set_update_subset_insert [THEN subsetD])
qed

lemma confirm_drop_inv [keeps]: "api_inv s \<Longrightarrow> api_inv (confirm_drop i s)"
  by (auto simp: api_inv_def confirm_drop_def list_all_iff dest: in_set_takeD in_set_dropD)

lemma confirm_delete_inv [keeps]: "api_inv s \<Longrightarrow> api_inv (confirm_delete i s)"
  unfolding confirm_delete_def by (rule confirm_drop_inv) (auto simp: api_inv_def)

interpretation api: system_invariant api_initial api_step api_inv
proof unfold_locales
  show "api_inv s" if "api_initial s" for s using that by (simp add: api_initial_def api_start_def api_inv_def)
  show "api_inv s'" if "api_inv s" "api_step s s'" for s s'
    using that(2,1) by (cases rule: api_step.cases) (simp_all add: keeps)
qed

end
