(* ===== verification/Submission_Props.thy ===== *)
theory Submission_Props
  imports Submission_Api
begin

text \<open>The theorems about the submission API.\<close>

section \<open>Sample data\<close>

definition demo_request :: SubmitInitRequest where
  "demo_request = \<lparr>rq_Language = ''go'', rq_TeamName = ''team_1''\<rparr>"

definition demo_presign :: "string \<Rightarrow> go_error + string" where
  "demo_presign key = Inr (''http://s3/'' @ key)"

definition demo_submitted :: Api where
  "demo_submitted = api_submit (Some demo_request) ''u1'' demo_presign 100 api_start"

definition demo_confirmed_twice :: Api where
  "demo_confirmed_twice = confirm_publish 1 8 (confirm_publish 0 7 (confirm_load ''u1'' (confirm_load ''u1'' demo_submitted)))"

lemma demo_team: "teamNameRe ''team_1''"
  by code_simp

lemma demo_submitted_pending: "api_pending demo_submitted = [''u1'' \<mapsto> \<lparr>ps_Language = ''go'', ps_TeamName = ''team_1''\<rparr>]"
  using demo_team
  by (simp add: demo_submitted_def api_submit_def handleSubmitInit_def demo_request_def demo_presign_def api_start_def
    allowedLanguages_def maxTeamNameLen_def)

lemma api_start_reachable: "api_reachable api_start"
  by (rule reach_init) (simp add: api_initial_def)

lemma api_reachable_step: "api_reachable s \<Longrightarrow> api_step s s' \<Longrightarrow> api_reachable s'"
  by (rule reach_step)

lemma demo_submitted_reachable: "api_reachable demo_submitted"
  unfolding demo_submitted_def by (rule api_reachable_step [OF api_start_reachable api_init])

section \<open>Two confirmations at once\<close>

lemma demo_two_confirms:
  "api_confirms (confirm_load ''u1'' (confirm_load ''u1'' demo_submitted)) =
     replicate 2 \<lparr>cf_id = ''u1'', cf_pending = \<lparr>ps_Language = ''go'', ps_TeamName = ''team_1''\<rparr>, cf_published = False\<rparr>"
proof -
  have "api_confirms demo_submitted = []" by (simp add: demo_submitted_def api_submit_def api_start_def)
  then show ?thesis by (simp add: confirm_load_def demo_submitted_pending numeral_2_eq_2)
qed

lemma demo_confirmed_twice_reachable: "api_reachable demo_confirmed_twice"
proof -
  let ?a = "confirm_load ''u1'' (confirm_load ''u1'' demo_submitted)"
  have "api_reachable ?a" by (intro api_reachable_step [OF _ api_load] demo_submitted_reachable)
  then have "api_reachable (confirm_publish 0 7 ?a)"
    by (rule api_reachable_step) (rule api_publish; simp add: demo_two_confirms)
  then show ?thesis unfolding demo_confirmed_twice_def
    by (rule api_reachable_step) (rule api_publish; simp add: demo_two_confirms confirm_publish_def)
qed

lemma two_publishes:
  assumes "api_confirms a = [c, c]" and "api_topic a = []"
  shows "api_topic (confirm_publish 1 n (confirm_publish 0 m a)) =
    map (\<lambda>now. PublishSubmissionCreated now (confirm_event (cf_id c) (cf_pending c))) [m, n]"
  by (simp add: confirm_publish_def Let_def assms)

text \<open>
  Two confirmations of one submission that read the pending entry before either has removed it both
  publish: the submission is built twice.
\<close>

lemma confirmed_twice:
  "\<exists>s. api_reachable s \<and> map (\<lambda>m. case m of SubmissionCreated e \<Rightarrow> sc_SubmissionID e | _ \<Rightarrow> []) (api_topic s) = [''u1'', ''u1'']"
proof -
  let ?a = "confirm_load ''u1'' (confirm_load ''u1'' demo_submitted)"
  have t: "api_topic (confirm_load sid s) = api_topic s" for sid s by (simp add: confirm_load_def split: option.splits)
  have "api_topic demo_submitted = []" by (simp add: demo_submitted_def api_submit_def api_start_def)
  then have topic: "api_topic ?a = []" by (simp only: t)
  have "api_confirms ?a = [\<lparr>cf_id = ''u1'', cf_pending = \<lparr>ps_Language = ''go'', ps_TeamName = ''team_1''\<rparr>, cf_published = False\<rparr>,
      \<lparr>cf_id = ''u1'', cf_pending = \<lparr>ps_Language = ''go'', ps_TeamName = ''team_1''\<rparr>, cf_published = False\<rparr>]"
    unfolding demo_two_confirms by (simp add: numeral_2_eq_2)
  from two_publishes [OF this topic, of 8 7]
  have "map (\<lambda>m. case m of SubmissionCreated e \<Rightarrow> sc_SubmissionID e | _ \<Rightarrow> []) (api_topic demo_confirmed_twice) = [''u1'', ''u1'']"
    by (simp add: demo_confirmed_twice_def PublishSubmissionCreated_def confirm_event_def)
  with demo_confirmed_twice_reachable show ?thesis by (intro exI [of _ demo_confirmed_twice] conjI)
qed

section \<open>Properties\<close>

text \<open>
  C29. Only well formed submissions are ever on the topic: in every state the concurrent requests can
  reach, each published event is a \<open>submission.created\<close> of one of the three languages, with a team name
  of 1 to 64 letters, digits, underscores and hyphens, and with the artifact path of its own
  submission; and so is every pending entry.
\<close>

theorem published_well_formed:
  assumes "api_reachable s"
  shows "list_all created_ok (api_topic s) \<and> (\<forall>sid p. api_pending s sid = Some p \<longrightarrow> submit_ok p)"
  using api.inv_reach [OF assms] by (simp add: api_inv_def)

theorem published_well_formed_witness:
  "list_all created_ok (api_topic demo_confirmed_twice) \<and> api_topic demo_confirmed_twice \<noteq> []"
  using published_well_formed [OF demo_confirmed_twice_reachable]
  by (simp add: demo_confirmed_twice_def confirm_publish_def Let_def)

text \<open>
  An announcement and its confirmation: a request is accepted exactly when its language and its team
  name are well formed and the address could be signed, a refused one changes nothing; the
  confirmation of an accepted one publishes exactly one event, with the language and the team of the
  request and the artifact path that was signed, and a second confirmation finds nothing.
\<close>

theorem submit_confirm_roundtrip:
  assumes "handleSubmitInit (Some req) uuid presign tm pending = (reply, pending')" and "uuid \<noteq> []"
  shows "(\<exists>url. presign (artifact_key uuid) = Inr url) \<and> submit_ok \<lparr>ps_Language = rq_Language req, ps_TeamName = rq_TeamName req\<rparr> \<and>
      handleConfirm uuid True now pending' =
        (ConfirmAccepted uuid,
         [SubmissionCreated \<lparr>sc_Event = ''submission.created'', sc_SubmissionID = uuid, sc_Language = rq_Language req,
            sc_TeamName = rq_TeamName req, sc_ArtifactPath = artifact_key uuid, sc_CreatedAt = now\<rparr>],
         pending(uuid := None)) \<and>
      handleConfirm uuid True now (pending(uuid := None)) = (Refused 404 ''submission not found or expired'', [], pending(uuid := None))
    \<or> (\<exists>code text. reply = Refused code text) \<and> pending' = pending \<and>
      \<not> ((\<exists>url. presign (artifact_key uuid) = Inr url) \<and> submit_ok \<lparr>ps_Language = rq_Language req, ps_TeamName = rq_TeamName req\<rparr>)"
proof (cases "presign (artifact_key uuid)")
  case (Inl e)
  then show ?thesis using assms by (auto simp: handleSubmitInit_def split: if_splits)
next
  case (Inr url)
  then show ?thesis using assms
    by (auto simp: handleSubmitInit_def submit_ok_def teamNameRe_def handleConfirm_def PublishSubmissionCreated_def confirm_event_def
      split: if_splits)
qed

theorem submit_confirm_roundtrip_witness:
  "\<exists>reply pending'. handleSubmitInit (Some demo_request) ''u1'' demo_presign 100 Map.empty = (reply, pending') \<and>
     fst (handleConfirm ''u1'' True 7 pending') = ConfirmAccepted ''u1''"
proof -
  obtain reply pending' where h: "handleSubmitInit (Some demo_request) ''u1'' demo_presign 100 Map.empty = (reply, pending')" by fastforce
  have "submit_ok \<lparr>ps_Language = rq_Language demo_request, ps_TeamName = rq_TeamName demo_request\<rparr>"
    using demo_team by (simp add: submit_ok_def demo_request_def allowedLanguages_def maxTeamNameLen_def)
  moreover have "\<exists>url. demo_presign (artifact_key ''u1'') = Inr url" by (simp add: demo_presign_def)
  ultimately show ?thesis using submit_confirm_roundtrip [OF h, of 7] h by auto
qed

end
