(* ===== verification/Build_Service.thy ===== *)
theory Build_Service
  imports Lifecycle
begin

text \<open>
  The build service (\<open>src/services/build-service\<close>): it compiles a submission in a build pod, reads
  the log of the container that failed, deletes the pod and publishes the outcome. The answers of
  the object store, the cluster and the broker are arguments; the result carries the calls made.
\<close>

section \<open>Reading logs\<close>

record limitWriter =
  lw_buf :: string
  lw_limit :: int
  lw_n :: int

definition limitWriter_Write :: "string \<Rightarrow> limitWriter \<Rightarrow> nat \<times> limitWriter" where
  "limitWriter_Write p w =
     (if lw_n w \<ge> lw_limit w then (length p, w)
      else let p' = (if lw_n w + int (length p) > lw_limit w then take (nat (lw_limit w - lw_n w)) p else p)
           in (length p', w\<lparr>lw_buf := lw_buf w @ p', lw_n := lw_n w + int (length p')\<rparr>))"

text \<open>
  \<open>io.Copy\<close>: every chunk read is written, and a write that takes fewer bytes than it was given ends the
  copy with an error. A log stream is the chunks it delivers and whether it ends with an error.
\<close>

datatype copy_end = CopyDone | ShortWrite | ReadError

fun io_Copy :: "string list \<Rightarrow> bool \<Rightarrow> limitWriter \<Rightarrow> copy_end \<times> limitWriter" where
  "io_Copy [] fails w = (if fails then ReadError else CopyDone, w)"
| "io_Copy (c # cs) fails w =
     (if c = [] then io_Copy cs fails w
      else case limitWriter_Write c w of (nw, w') \<Rightarrow>
             if nw \<noteq> length c then (ShortWrite, w') else io_Copy cs fails w')"

definition copy_text :: "copy_end \<Rightarrow> string" where
  "copy_text e = (case e of ShortWrite \<Rightarrow> ''short write'' | _ \<Rightarrow> ''read error'')"

section \<open>The builder\<close>

definition buildImages :: "string \<rightharpoonup> string" where
  "buildImages = [''cpp'' \<mapsto> ''gcc:16-trixie'', ''rust'' \<mapsto> ''rust:1.95-alpine'', ''go'' \<mapsto> ''golang:1.26-alpine'']"

definition buildCommands :: "string \<rightharpoonup> string" where
  "buildCommands =
     [''cpp'' \<mapsto> ''g++ -static -O2 -o /workspace/binary /workspace/main.cpp'',
      ''rust'' \<mapsto> ''cd /workspace && RUSTFLAGS=\"-C target-feature=+crt-static\" cargo build --release --offline && '' @
        ''cp $(find target/release -maxdepth 1 -type f -perm -111 ! -name '' @ [CHR 39] @ ''*.d'' @ [CHR 39] @ '' | head -1) /workspace/binary'',
      ''go'' \<mapsto> ''cd /workspace && CGO_ENABLED=0 go build -mod=vendor -o /workspace/binary .'']"

text \<open>
  What the builder meets: presigned addresses, the creation of the pod, the events of the watch until
  it closes (or the error that refuses it), the exit codes of the init containers that have ended, and
  the log stream of a container.
\<close>

record BuildWorld =
  w_presign_get :: "string \<Rightarrow> go_error + string"
  w_presign_put :: "string \<Rightarrow> go_error + string"
  w_create :: "Pod \<Rightarrow> go_error option"
  w_watch :: "string \<Rightarrow> go_error + pod_event list"
  w_get :: "string \<Rightarrow> go_error + (string \<times> int option) list"
  w_logs :: "string \<Rightarrow> string \<Rightarrow> go_error + (string list \<times> bool)"

definition build_secctx :: SecurityContext where
  "build_secctx = \<lparr>RunAsUser = 65534, RunAsNonRoot = True, ReadOnlyRootFilesystem = True, AllowPrivilegeEscalation = False,
     DropCapabilities = [''ALL''], Seccomp = Some RuntimeDefault, AppArmorDefault = True\<rparr>"

definition workspace_mounts :: "(string \<times> string) list" where
  "workspace_mounts = [(''workspace'', ''/workspace''), (''tmp'', ''/tmp'')]"

definition download_script :: string where
  "download_script = ''wget -q -O /workspace/source.tar.gz \"$SOURCE_URL\" && '' @
     ''tar xzf /workspace/source.tar.gz -C /workspace && '' @ ''rm /workspace/source.tar.gz''"

definition upload_script :: string where
  "upload_script = ''curl -sS -f -X PUT '' @ [CHR 92, CHR 10] @ ''  -H \"Content-Type: application/octet-stream\" '' @ [CHR 92, CHR 10] @
     ''  -T /workspace/binary '' @ [CHR 92, CHR 10] @ ''  --max-time 60 '' @ [CHR 92, CHR 10] @ ''  \"$BINARY_UPLOAD_URL\" '' @ [CHR 92, CHR 10] @
     ''  && echo \"upload: ok\" || { echo \"upload failed\"; exit 1; }''"

definition build_pod :: "string \<Rightarrow> string \<Rightarrow> string \<Rightarrow> string \<Rightarrow> string \<Rightarrow> Pod" where
  "build_pod name img buildCmd sourceURL binaryUploadURL =
     \<lparr>pod_Name = name, pod_Namespace = ''builds'',
      pod_Labels = [(''app'', ''build''), (''role'', ''build-pod''), (''app.kubernetes.io/name'', ''build'')],
      pod_AutomountToken = None, pod_RestartPolicy = ''Never'',
      pod_Init =
        [blank_container\<lparr>ct_Name := ''download-source'', ct_Image := ''alpine:3.23'', ct_Command := [''sh'', ''-c''],
           ct_Args := [download_script], ct_Env := [(''SOURCE_URL'', sourceURL)],
           ct_Security := Some build_secctx, ct_Mounts := workspace_mounts\<rparr>,
         blank_container\<lparr>ct_Name := ''build'', ct_Image := img, ct_Command := [''sh'', ''-c''], ct_Args := [buildCmd],
           ct_WorkingDir := ''/workspace'', ct_Env := [(''GOCACHE'', ''/tmp/go-build-cache''), (''GOPATH'', ''/tmp/go-path'')],
           ct_Security := Some build_secctx, ct_Mounts := workspace_mounts,
           ct_Limits := [(''cpu'', ''2''), (''memory'', ''2Gi'')], ct_Requests := [(''cpu'', ''1''), (''memory'', ''512Mi'')]\<rparr>,
         blank_container\<lparr>ct_Name := ''upload-binary'', ct_Image := ''alpine/curl:8.9.1'', ct_Command := [''sh'', ''-c''],
           ct_Args := [upload_script], ct_Env := [(''BINARY_UPLOAD_URL'', binaryUploadURL)],
           ct_Security := Some build_secctx, ct_Mounts := workspace_mounts\<rparr>],
      pod_Containers =
        [blank_container\<lparr>ct_Name := ''done'', ct_Image := ''alpine:3.23'', ct_Command := [''true''], ct_Security := Some build_secctx\<rparr>],
      pod_Volumes = [(''workspace'', Some ''512Mi''), (''tmp'', None)], pod_NodeSelector = [], pod_Tolerations = []\<rparr>"

definition createBuildPod :: "BuildWorld \<Rightarrow> string \<Rightarrow> string \<Rightarrow> string \<Rightarrow> string \<Rightarrow> string \<Rightarrow> go_error option \<times> k8s_call list" where
  "createBuildPod w name img buildCmd sourceURL binaryUploadURL =
     (let pod = build_pod name img buildCmd sourceURL binaryUploadURL
      in case w_create w pod of Some e \<Rightarrow> (Some (wrap ''create pod'' e), []) | None \<Rightarrow> (None, [CreatePod pod]))"

fun completion_loop :: "pod_event list \<Rightarrow> go_error option" where
  "completion_loop [] = Some (errorf ''watch closed before pod completed'')"
| "completion_loop (PodUpdate PodSucceeded _ # es) = None"
| "completion_loop (PodUpdate PodFailed _ # es) = Some (errorf ''pod failed'')"
| "completion_loop (_ # es) = completion_loop es"

definition waitForPodCompletion :: "BuildWorld \<Rightarrow> string \<Rightarrow> go_error option" where
  "waitForPodCompletion w name =
     (case w_watch w name of Inl e \<Rightarrow> Some (wrap ''watch pod'' e) | Inr events \<Rightarrow> completion_loop events)"

definition failed_container :: "(string \<times> int option) list \<Rightarrow> string" where
  "failed_container statuses =
     (case find (\<lambda>(_, code). code \<noteq> None \<and> code \<noteq> Some 0) statuses of None \<Rightarrow> ''done'' | Some (n, _) \<Rightarrow> n)"

definition readPodLogs :: "BuildWorld \<Rightarrow> int \<Rightarrow> string \<Rightarrow> (go_error + string) \<times> k8s_call list" where
  "readPodLogs w maxLogBytes name =
     (case w_get w name of Inl e \<Rightarrow> (Inl (wrap ''get pod'' e), [GetPod name])
      | Inr statuses \<Rightarrow>
          let container = failed_container statuses;
              calls = [GetPod name, GetLogs name container]
          in (case w_logs w name container of Inl e \<Rightarrow> (Inl (wrap ''get logs stream'' e), calls)
              | Inr (chunks, fails) \<Rightarrow>
                  (case io_Copy chunks fails \<lparr>lw_buf = [], lw_limit = maxLogBytes, lw_n = 0\<rparr> of
                     (CopyDone, lw) \<Rightarrow> (Inr (trim_log (lw_buf lw)), calls)
                   | (e, _) \<Rightarrow> (Inl (wrap ''read logs'' (errorf (copy_text e))), calls))))"

definition build_cleanupPod :: "string \<Rightarrow> k8s_call" where
  "build_cleanupPod name = DeletePod ''builds'' name"

declare build_cleanupPod_def [simp]

text \<open>The build; the deferred \<open>cleanupPod\<close> deletes the pod on every way out once it was created.\<close>

definition Build :: "BuildWorld \<Rightarrow> int \<Rightarrow> SubmissionCreatedEvent \<Rightarrow> (go_error + string) \<times> k8s_call list" where
  "Build w maxLogBytes event =
     (case buildImages (sc_Language event) of
        None \<Rightarrow> (Inl (errorf (''unsupported language: '' @ sc_Language event)), [])
      | Some img \<Rightarrow>
     (case buildCommands (sc_Language event) of
        None \<Rightarrow> (Inl (errorf (''no build command for language: '' @ sc_Language event)), [])
      | Some buildCmd \<Rightarrow>
     (case w_presign_get w (sc_ArtifactPath event) of
        Inl e \<Rightarrow> (Inl (wrap ''generate presigned source URL'' e), [])
      | Inr sourceURL \<Rightarrow>
     (let binaryPath = ''builds/'' @ sc_SubmissionID event @ ''/binary'' in
      case w_presign_put w binaryPath of
        Inl e \<Rightarrow> (Inl (wrap ''generate presigned binary upload URL'' e), [])
      | Inr binaryUploadURL \<Rightarrow>
     (let podName = ''build-'' @ sc_SubmissionID event in
      case createBuildPod w podName img buildCmd sourceURL binaryUploadURL of
        (Some e, calls) \<Rightarrow> (Inl (wrap ''create pod'' e), calls)
      | (None, calls) \<Rightarrow>
     (case waitForPodCompletion w podName of
        Some e \<Rightarrow>
          (case readPodLogs w maxLogBytes podName of
             (Inl _, lcalls) \<Rightarrow> (Inl (wrap ''build failed'' e), calls @ [WatchPod podName] @ lcalls @ [build_cleanupPod podName])
           | (Inr logs, lcalls) \<Rightarrow> (Inl (errorf (''build error: '' @ logs)), calls @ [WatchPod podName] @ lcalls @ [build_cleanupPod podName]))
      | None \<Rightarrow> (Inr binaryPath, calls @ [WatchPod podName] @ [build_cleanupPod podName])))))))"

section \<open>Publishing and consuming\<close>

definition PublishBuildComplete :: "int64 \<Rightarrow> string \<Rightarrow> string \<Rightarrow> string \<Rightarrow> string \<Rightarrow> lifecycle" where
  "PublishBuildComplete now submissionID binaryPath language teamName =
     BuildComplete \<lparr>bc_Event = ''build.complete'', bc_SubmissionID = submissionID, bc_BinaryPath = binaryPath,
       bc_Language = language, bc_TeamName = teamName, bc_BuiltAt = now\<rparr>"

definition PublishBuildFailed :: "int64 \<Rightarrow> string \<Rightarrow> string \<Rightarrow> lifecycle" where
  "PublishBuildFailed now submissionID reason =
     Failed \<lparr>fe_Event = ''build.failed'', fe_SubmissionID = submissionID, fe_Reason = truncate_text reason 4096, fe_FailedAt = now\<rparr>"

text \<open>
  Handling a record of the topic: \<open>pub_ok\<close> says whether the broker takes the message. Gives whether
  the record counts as handled, the messages on the topic and the calls.
\<close>

definition build_handleRecord ::
    "BuildWorld \<Rightarrow> int \<Rightarrow> bool \<Rightarrow> int64 \<Rightarrow> lifecycle \<Rightarrow> bool \<times> lifecycle list \<times> k8s_call list" where
  "build_handleRecord w maxLogBytes pub_ok now record =
     (case decode_created record of None \<Rightarrow> (True, [], [])
      | Some event \<Rightarrow>
          if sc_Event event \<noteq> ''submission.created'' then (True, [], [])
          else (case Build w maxLogBytes event of
                  (Inl e, calls) \<Rightarrow>
                    (True, if pub_ok then [PublishBuildFailed now (sc_SubmissionID event) (err_text e)] else [], calls)
                | (Inr binaryPath, calls) \<Rightarrow>
                    if pub_ok then (True, [PublishBuildComplete now (sc_SubmissionID event) binaryPath (sc_Language event) (sc_TeamName event)], calls)
                    else (False, [], calls)))"

text \<open>A delivery is the message with what the service meets while handling it.\<close>

record build_delivery =
  bd_record :: lifecycle
  bd_world :: BuildWorld
  bd_pub_ok :: bool
  bd_now :: int64

definition build_Run ::
    "int \<Rightarrow> build_delivery fetch list \<Rightarrow> lifecycle list \<times> k8s_call list \<Rightarrow>
     run_end option \<times> build_delivery list \<times> lifecycle list \<times> k8s_call list" where
  "build_Run maxLogBytes fetches s = consumer_loop
     (\<lambda>d (topic, calls). case build_handleRecord (bd_world d) maxLogBytes (bd_pub_ok d) (bd_now d) (bd_record d) of
        (ok, msgs, cs) \<Rightarrow> (ok, topic @ msgs, calls @ cs)) fetches s"

section \<open>Copying\<close>

definition total_len :: "string list \<Rightarrow> nat" where
  "total_len cs = length (concat cs)"

lemma Write_within:
  assumes "lw_n w + int (length p) \<le> lw_limit w"
  shows "limitWriter_Write p w = (length p, w\<lparr>lw_buf := lw_buf w @ p, lw_n := lw_n w + int (length p)\<rparr>)"
proof (cases "lw_limit w \<le> lw_n w")
  case True
  with assms have "p = []" by (cases p) auto
  with True show ?thesis by (cases w) (simp add: limitWriter_Write_def)
qed (use assms in \<open>simp add: limitWriter_Write_def\<close>)

lemma Write_full: "lw_limit w \<le> lw_n w \<Longrightarrow> limitWriter_Write p w = (length p, w)"
  by (simp add: limitWriter_Write_def)

lemma Write_crossing:
  assumes "lw_n w < lw_limit w" and "lw_limit w < lw_n w + int (length p)"
  shows "limitWriter_Write p w = (nat (lw_limit w - lw_n w),
    w\<lparr>lw_buf := lw_buf w @ take (nat (lw_limit w - lw_n w)) p, lw_n := lw_limit w\<rparr>)"
  using assms by (auto simp: limitWriter_Write_def Let_def min_def)

lemma io_Copy_full: "lw_limit w \<le> lw_n w \<Longrightarrow> io_Copy cs fails w = (if fails then ReadError else CopyDone, w)"
  by (induction cs) (simp_all add: Write_full)

text \<open>
  A copy fits when the whole log is within the limit, or when a chunk happens to end exactly there.
\<close>

definition fits :: "nat \<Rightarrow> string list \<Rightarrow> bool" where
  "fits limit cs \<longleftrightarrow> total_len cs \<le> limit \<or> (\<exists>k \<le> length cs. total_len (take k cs) = limit)"

lemma fits_Nil [simp]: "fits limit []"
  by (simp add: fits_def total_len_def)

lemma fits_zero [simp]: "fits 0 cs"
  by (auto simp: fits_def total_len_def intro: exI [of _ 0])

lemma fits_Cons:
  assumes "0 < limit"
  shows "fits limit (c # cs) \<longleftrightarrow> length c \<le> limit \<and> fits (limit - length c) cs"
proof
  assume f: "fits limit (c # cs)"
  show "length c \<le> limit \<and> fits (limit - length c) cs"
  proof (cases "total_len (c # cs) \<le> limit")
    case True
    then show ?thesis by (auto simp: fits_def total_len_def)
  next
    case False
    with f obtain k where k: "k \<le> length (c # cs)" "total_len (take k (c # cs)) = limit" by (auto simp: fits_def)
    with assms obtain j where "k = Suc j" by (cases k) (auto simp: total_len_def)
    with k show ?thesis by (auto simp: fits_def total_len_def)
  qed
next
  assume a: "length c \<le> limit \<and> fits (limit - length c) cs"
  then consider "total_len cs \<le> limit - length c" | k where "k \<le> length cs" "total_len (take k cs) = limit - length c"
    by (auto simp: fits_def)
  then show "fits limit (c # cs)"
  proof cases
    case 2
    then show ?thesis unfolding fits_def using a by (intro disjI2 exI [of _ "Suc k"]) (auto simp: total_len_def)
  qed (use a in \<open>auto simp: fits_def total_len_def\<close>)
qed

lemma io_Copy_result:
  assumes "lw_limit w = int (limit + k)" and "lw_n w = int k"
  shows "io_Copy cs fails w =
    (if fits limit cs then (if fails then ReadError else CopyDone, w\<lparr>lw_buf := lw_buf w @ take limit (concat cs), lw_n := int (k + min limit (total_len cs))\<rparr>)
     else (ShortWrite, w\<lparr>lw_buf := lw_buf w @ take limit (concat cs), lw_n := lw_limit w\<rparr>))"
  using assms
proof (induction cs arbitrary: w limit k)
  case Nil
  then show ?case by (cases w) (simp add: total_len_def)
next
  case (Cons c cs)
  consider (none) "limit = 0" | (whole) "0 < limit" "length c \<le> limit" | (part) "0 < limit" "limit < length c" by linarith
  then show ?case
  proof cases
    case none
    with Cons.prems io_Copy_full [of w "c # cs" fails] show ?thesis by simp
  next
    case whole
    let ?w = "w\<lparr>lw_buf := lw_buf w @ c, lw_n := int (k + length c)\<rparr>"
    have "io_Copy (c # cs) fails w = io_Copy cs fails ?w"
      using Cons.prems whole Write_within [of w c] by (cases w) auto
    also have "\<dots> = (if fits (limit - length c) cs
        then (if fails then ReadError else CopyDone, ?w\<lparr>lw_buf := lw_buf ?w @ take (limit - length c) (concat cs), lw_n := int (k + length c + min (limit - length c) (total_len cs))\<rparr>)
        else (ShortWrite, ?w\<lparr>lw_buf := lw_buf ?w @ take (limit - length c) (concat cs), lw_n := lw_limit ?w\<rparr>))"
      using Cons.prems whole by (intro Cons.IH) simp_all
    finally show ?thesis using whole Cons.prems fits_Cons [OF whole(1)] by (simp add: total_len_def min_def)
  next
    case part
    have "limitWriter_Write c w = (limit, w\<lparr>lw_buf := lw_buf w @ take limit c, lw_n := lw_limit w\<rparr>)"
      using Cons.prems part Write_crossing [of w c] by simp
    moreover have "\<not> fits limit (c # cs)" using part fits_Cons [OF part(1)] by simp
    moreover have "c \<noteq> []" using part by auto
    ultimately show ?thesis using part by simp
  qed
qed

section \<open>The outcome of a build\<close>

text \<open>The phase that decides a watch: the first that is final.\<close>

fun final_phase :: "pod_event list \<Rightarrow> pod_phase option" where
  "final_phase [] = None"
| "final_phase (PodUpdate ph _ # es) = (if ph = PodSucceeded \<or> ph = PodFailed then Some ph else final_phase es)"
| "final_phase (OtherObject # es) = final_phase es"

lemma completion_loop_final:
  "completion_loop es = (case final_phase es of Some PodSucceeded \<Rightarrow> None | Some PodFailed \<Rightarrow> Some (errorf ''pod failed'')
     | _ \<Rightarrow> Some (errorf ''watch closed before pod completed''))"
  by (induction es rule: completion_loop.induct) simp_all

lemma readPodLogs_calls: "live_pods (snd (readPodLogs w m n)) ps = ps"
  by (auto simp: readPodLogs_def Let_def split: sum.splits prod.splits copy_end.splits)

lemma readPodLogs_no_create: "CreatePod p \<notin> set (snd (readPodLogs w m n))"
  by (auto simp: readPodLogs_def Let_def split: sum.splits prod.splits copy_end.splits)

text \<open>The languages that can be built are those with an image and a command: the same three.\<close>

lemma build_languages: "dom buildImages = {''cpp'', ''rust'', ''go''}" "dom buildCommands = {''cpp'', ''rust'', ''go''}"
  by (auto simp: buildImages_def buildCommands_def)

text \<open>A build that gets as far as its pod, and one that does not.\<close>

definition build_ready :: "BuildWorld \<Rightarrow> SubmissionCreatedEvent \<Rightarrow> Pod \<Rightarrow> bool" where
  "build_ready w event pod \<longleftrightarrow> (\<exists>img cmd src dst.
     buildImages (sc_Language event) = Some img \<and> buildCommands (sc_Language event) = Some cmd \<and>
     w_presign_get w (sc_ArtifactPath event) = Inr src \<and>
     w_presign_put w (''builds/'' @ sc_SubmissionID event @ ''/binary'') = Inr dst \<and>
     pod = build_pod (''build-'' @ sc_SubmissionID event) img cmd src dst \<and> w_create w pod = None)"

lemma Build_not_ready:
  assumes "\<And>pod. \<not> build_ready w event pod"
  shows "\<exists>e. Build w m event = (Inl e, [])"
proof -
  have refused: "\<exists>e. w_create w (build_pod (''build-'' @ sc_SubmissionID event) img cmd src dst) = Some e"
    if "buildImages (sc_Language event) = Some img" "buildCommands (sc_Language event) = Some cmd"
      "w_presign_get w (sc_ArtifactPath event) = Inr src"
      "w_presign_put w (''builds/'' @ sc_SubmissionID event @ ''/binary'') = Inr dst" for img cmd src dst
    using assms that unfolding build_ready_def by (metis not_None_eq)
  show ?thesis
  proof (cases "buildImages (sc_Language event)")
    case (Some img)
    note i = Some
    show ?thesis
    proof (cases "buildCommands (sc_Language event)")
      case (Some cmd)
      note c = Some
      show ?thesis
      proof (cases "w_presign_get w (sc_ArtifactPath event)")
        case (Inr src)
        note g = Inr
        show ?thesis
        proof (cases "w_presign_put w (''builds/'' @ sc_SubmissionID event @ ''/binary'')")
          case (Inr dst)
          from refused [OF i c g this] i c g this show ?thesis by (auto simp: Build_def createBuildPod_def Let_def)
        qed (use i c g in \<open>simp add: Build_def Let_def\<close>)
      qed (use i c in \<open>simp add: Build_def Let_def\<close>)
    qed (use i in \<open>simp add: Build_def\<close>)
  qed (simp add: Build_def)
qed

lemma Build_ready:
  assumes "build_ready w event pod"
  shows "Build w m event =
    (let podName = ''build-'' @ sc_SubmissionID event in
     case waitForPodCompletion w podName of
       Some e \<Rightarrow>
         (case readPodLogs w m podName of
            (Inl _, lcalls) \<Rightarrow> (Inl (wrap ''build failed'' e), CreatePod pod # WatchPod podName # lcalls @ [DeletePod ''builds'' podName])
          | (Inr logs, lcalls) \<Rightarrow> (Inl (errorf (''build error: '' @ logs)), CreatePod pod # WatchPod podName # lcalls @ [DeletePod ''builds'' podName]))
     | None \<Rightarrow> (Inr (''builds/'' @ sc_SubmissionID event @ ''/binary''), [CreatePod pod, WatchPod podName, DeletePod ''builds'' podName]))"
  using assms unfolding build_ready_def
  by (elim exE conjE) (simp add: Build_def createBuildPod_def Let_def split: option.splits sum.splits prod.splits)

lemma build_ready_name:
  "build_ready w event pod \<Longrightarrow> pod_Name pod = ''build-'' @ sc_SubmissionID event \<and> pod_Namespace pod = ''builds''"
  by (auto simp: build_ready_def build_pod_def)

lemma Build_calls:
  "snd (Build w m event) = [] \<or>
   (\<exists>pod lcalls. build_ready w event pod \<and>
      snd (Build w m event) = CreatePod pod # WatchPod (''build-'' @ sc_SubmissionID event) # lcalls @ [DeletePod ''builds'' (''build-'' @ sc_SubmissionID event)] \<and>
      (\<forall>ps. live_pods lcalls ps = ps) \<and> (\<forall>p. CreatePod p \<notin> set lcalls))"
proof (cases "\<exists>pod. build_ready w event pod")
  case True
  then obtain pod where p: "build_ready w event pod" ..
  have "\<exists>lcalls. snd (Build w m event) = CreatePod pod # WatchPod (''build-'' @ sc_SubmissionID event) # lcalls @ [DeletePod ''builds'' (''build-'' @ sc_SubmissionID event)] \<and>
      (lcalls = [] \<or> lcalls = snd (readPodLogs w m (''build-'' @ sc_SubmissionID event)))"
    unfolding Build_ready [OF p] Let_def by (auto split: option.splits sum.splits prod.splits)
  with p show ?thesis using readPodLogs_calls readPodLogs_no_create by fastforce
next
  case False
  then show ?thesis using Build_not_ready [of w event m] by force
qed

end
