(* ===== verification/Build_Props.thy ===== *)
theory Build_Props
  imports Build_Service
begin

text \<open>The theorems about the build service.\<close>

section \<open>Sample data\<close>

definition demo_created :: SubmissionCreatedEvent where
  "demo_created = \<lparr>sc_Event = ''submission.created'', sc_SubmissionID = ''u1'', sc_Language = ''go'', sc_TeamName = ''team'',
     sc_ArtifactPath = ''submissions/u1.tar.gz'', sc_CreatedAt = 1\<rparr>"

text \<open>A cluster where every call succeeds and the pod ends in a phase.\<close>

definition demo_build_world :: "pod_phase \<Rightarrow> BuildWorld" where
  "demo_build_world ph = \<lparr>w_presign_get = (\<lambda>key. Inr (''get/'' @ key)), w_presign_put = (\<lambda>key. Inr (''put/'' @ key)),
     w_create = (\<lambda>_. None), w_watch = (\<lambda>_. Inr [OtherObject, PodUpdate PodPending False, PodUpdate ph False]),
     w_get = (\<lambda>_. Inr [(''download-source'', Some 0), (''build'', Some 2)]), w_logs = (\<lambda>_ _. Inr ([''abc'', ''defg''], False))\<rparr>"

definition demo_build_pod :: Pod where
  "demo_build_pod = build_pod ''build-u1'' ''golang:1.26-alpine''
     ''cd /workspace && CGO_ENABLED=0 go build -mod=vendor -o /workspace/binary .'' ''get/submissions/u1.tar.gz'' ''put/builds/u1/binary''"

lemma demo_build_ready: "build_ready (demo_build_world ph) demo_created demo_build_pod"
  by (simp add: build_ready_def demo_build_world_def demo_created_def demo_build_pod_def buildImages_def buildCommands_def)

section \<open>Properties\<close>



text \<open>
  C30. A build succeeds exactly when the language is one of the three, both addresses could be signed, the
  pod could be created, the watch could be opened and the first final phase it shows is success; its
  result is then the path of the binary under the submission id.
\<close>

theorem build_outcome:
  "fst (Build w m event) = Inr path \<longleftrightarrow>
   (\<exists>pod es. build_ready w event pod \<and> w_watch w (''build-'' @ sc_SubmissionID event) = Inr es \<and> final_phase es = Some PodSucceeded) \<and>
   path = ''builds/'' @ sc_SubmissionID event @ ''/binary''"
proof (cases "\<exists>pod. build_ready w event pod")
  case True
  then obtain pod where p: "build_ready w event pod" ..
  have "waitForPodCompletion w n = None \<longleftrightarrow> (\<exists>es. w_watch w n = Inr es \<and> final_phase es = Some PodSucceeded)" for n
    by (auto simp: waitForPodCompletion_def completion_loop_final split: sum.splits option.splits pod_phase.splits)
  moreover have "fst (Build w m event) = Inr path \<longleftrightarrow>
      waitForPodCompletion w (''build-'' @ sc_SubmissionID event) = None \<and> path = ''builds/'' @ sc_SubmissionID event @ ''/binary''"
    unfolding Build_ready [OF p] Let_def by (auto split: option.splits sum.splits prod.splits)
  ultimately show ?thesis using p by blast
next
  case False
  then obtain e where "Build w m event = (Inl e, [])" using Build_not_ready [of w event m] by blast
  with False show ?thesis by auto
qed

text \<open>
  The reason of a failed build. The log of the failed container is reported, cut to the limit, when it is
  within the limit or a chunk of the stream ends exactly there. A longer log is lost: the writer that
  enforces the limit reports the shortened length, \<open>io.Copy\<close> takes that for an error, and the reason
  is only that the pod failed.
\<close>

theorem build_failure_reason:
  assumes "build_ready w event pod" and "w_watch w (''build-'' @ sc_SubmissionID event) = Inr es" and "final_phase es = Some PodFailed"
    and "w_get w (''build-'' @ sc_SubmissionID event) = Inr statuses"
    and "w_logs w (''build-'' @ sc_SubmissionID event) (failed_container statuses) = Inr (chunks, False)"
  shows "fst (Build w (int limit) event) =
    Inl (if fits limit chunks then errorf (''build error: '' @ trim_log (take limit (concat chunks)))
         else errorf ''build failed: pod failed'')"
proof -
  have "waitForPodCompletion w (''build-'' @ sc_SubmissionID event) = Some (errorf ''pod failed'')"
    using assms(2,3) by (simp add: waitForPodCompletion_def completion_loop_final)
  moreover have "io_Copy chunks False \<lparr>lw_buf = [], lw_limit = int limit, lw_n = 0\<rparr> =
      (if fits limit chunks then (CopyDone, \<lparr>lw_buf = take limit (concat chunks), lw_limit = int limit, lw_n = int (min limit (total_len chunks))\<rparr>)
       else (ShortWrite, \<lparr>lw_buf = take limit (concat chunks), lw_limit = int limit, lw_n = int limit\<rparr>))"
    using io_Copy_result [of "\<lparr>lw_buf = [], lw_limit = int limit, lw_n = 0\<rparr>" limit 0 chunks False] by simp
  ultimately show ?thesis
    using assms(4,5) unfolding Build_ready [OF assms(1)] Let_def
    by (simp add: readPodLogs_def Let_def wrap_def errorf_def)
qed

theorem build_failure_reason_witness:
  "fst (Build (demo_build_world PodFailed) 5 demo_created) = Inl (errorf ''build failed: pod failed'') \<and>
   fst (Build (demo_build_world PodFailed) 3 demo_created) = Inl (errorf ''build error: abc'')"
proof -
  have w: "w_watch (demo_build_world PodFailed) (''build-'' @ sc_SubmissionID demo_created) = Inr [OtherObject, PodUpdate PodPending False, PodUpdate PodFailed False]"
    "w_get (demo_build_world PodFailed) (''build-'' @ sc_SubmissionID demo_created) = Inr [(''download-source'', Some 0), (''build'', Some 2)]"
    "w_logs (demo_build_world PodFailed) (''build-'' @ sc_SubmissionID demo_created) (failed_container [(''download-source'', Some 0), (''build'', Some 2)]) = Inr ([''abc'', ''defg''], False)"
    by (simp_all add: demo_build_world_def)
  have f: "fits 3 [''abc'', ''defg'']" "\<not> fits 5 [''abc'', ''defg'']" by (simp_all add: fits_Cons)
  have t: "trim_log ''abc'' = ''abc''" by code_simp
  from build_failure_reason [OF demo_build_ready w(1) _ w(2,3), of 5] build_failure_reason [OF demo_build_ready w(1) _ w(2,3), of 3] f t
  show ?thesis by simp
qed

text \<open>
  Cutting a reason for publication keeps it readable: the result is a prefix of at most the maximal
  length, a text that is cut becomes valid UTF-8, the result is the longest such prefix, and of a valid
  text at most three bytes below the maximum are given up.
\<close>

theorem truncate_text_contract:
  "(\<exists>k. truncate_text s mx = take k s) \<and> length (truncate_text s mx) \<le> mx \<and>
   (length s \<le> mx \<longrightarrow> truncate_text s mx = s) \<and>
   (mx < length s \<longrightarrow> ValidString (truncate_text s mx) \<and>
      (\<forall>k \<le> mx. ValidString (take k s) \<longrightarrow> k \<le> length (truncate_text s mx))) \<and>
   (ValidString s \<longrightarrow> mx \<le> length s \<longrightarrow> mx \<le> length (truncate_text s mx) + 3)"
proof (cases "length s \<le> mx")
  case True
  then show ?thesis by (auto simp: truncate_text_def intro: exI [of _ "length s"])
next
  case False
  obtain k where k: "trim_invalid (take mx s) = take k (take mx s)" using trim_invalid_prefix by blast
  have longest: "j \<le> length (trim_invalid (take mx s))" if "j \<le> mx" "ValidString (take j s)" for j
    using trim_invalid_longest [of j "take mx s"] that False by (simp add: min_absorb1)
  have "mx \<le> length (trim_invalid (take mx s)) + 3" if "ValidString s"
  proof -
    note valid = that
    obtain j where "j \<le> 3" "j \<le> mx" "ValidString (take (mx - j) s)" using ValidString_cut [OF valid, of mx] False by auto
    with longest [of "mx - j"] show ?thesis by simp
  qed
  with False k longest trim_invalid_valid [of "take mx s"] show ?thesis
    by (auto simp: truncate_text_def intro: exI [of _ "min k mx"])
qed

theorem truncate_text_contract_witness:
  "ValidString (truncate_text [CHR ''a'', CHR 226, CHR 130, CHR 172, CHR ''b''] 3) \<and>
   truncate_text [CHR ''a'', CHR 226, CHR 130, CHR 172, CHR ''b''] 3 = ''a''"
proof -
  have "truncate_text [CHR ''a'', CHR 226, CHR 130, CHR 172, CHR ''b''] 3 = ''a''" by code_simp
  with truncate_text_contract [of "[CHR ''a'', CHR 226, CHR 130, CHR 172, CHR ''b'']" 3] show ?thesis by simp
qed

text \<open>
  The log reader cuts differently: it removes bytes only while the last one announces more bytes, so a
  character cut after its second byte stays.
\<close>

lemma trim_log_keeps_half_character: "trim_log [CHR 226, CHR 130] = [CHR 226, CHR 130] \<and> \<not> ValidString [CHR 226, CHR 130]"
  by code_simp

end
