(* ===== verification/Sandbox_Orchestrator.thy ===== *)
theory Sandbox_Orchestrator
  imports Lifecycle
begin

text \<open>
  The sandbox orchestrator (\<open>src/services/sandbox-orchestrator\<close>): it starts the compiled submission in
  a sandbox pod, waits until it is ready and announces it. A pod that does not become ready is
  deleted. As for the build service, the answers of the cluster are arguments and the result
  carries the calls made; a Go panic is an outcome of its own.
\<close>

section \<open>Configuration and pods\<close>

text \<open>\<open>Timeout\<close> is a \<open>time.Duration\<close>, in nanoseconds.\<close>

record SandboxConfig =
  Timeout :: int64
  MaxLogBytes :: int
  CpuRequest :: string
  CpuLimit :: string
  MemoryRequest :: string
  MemoryLimit :: string
  SeccompPath :: string
  SandboxUser :: int64
  NodeSelectorK :: string
  NodeSelectorV :: string
  TolerationK :: string
  TolerationV :: string

definition path_char :: "char \<Rightarrow> bool" where
  "path_char c \<longleftrightarrow> is_alnum c \<or> c \<in> set ''/_.-''"

text \<open>The pattern \<open>^[A-Za-z0-9/_.-]+$\<close>.\<close>

definition binaryPathRegex :: "string \<Rightarrow> bool" where
  "binaryPathRegex p \<longleftrightarrow> p \<noteq> [] \<and> list_all path_char p"

definition sandboxSeccompProfile :: "string \<Rightarrow> SeccompProfile" where
  "sandboxSeccompProfile path = (if path = [] then RuntimeDefault else Localhost path)"

definition httpPort :: nat where
  "httpPort = 8080"

definition download_command :: "string \<Rightarrow> string \<Rightarrow> string" where
  "download_command endpoint binaryPath =
     ''wget -qO /sandbox/binary '' @ endpoint @ ''/submissions/'' @ binaryPath @ '' && chmod +x /sandbox/binary''"

definition sandbox_pod :: "SandboxConfig \<Rightarrow> string \<Rightarrow> string \<Rightarrow> string \<Rightarrow> Pod" where
  "sandbox_pod cfg endpoint name binaryPath =
     \<lparr>pod_Name = name, pod_Namespace = ''sandboxes'',
      pod_Labels = [(''app'', ''sandbox''), (''app.kubernetes.io/name'', ''sandbox''), (''role'', ''contestant-submission'')],
      pod_AutomountToken = Some False, pod_RestartPolicy = ''Never'',
      pod_Init =
        [blank_container\<lparr>ct_Name := ''init-download'', ct_Image := ''alpine:3.23'',
           ct_Command := [''sh'', ''-c'', download_command endpoint binaryPath], ct_Mounts := [(''sandbox'', ''/sandbox'')],
           ct_Security := Some \<lparr>RunAsUser = SandboxUser cfg, RunAsNonRoot = True, ReadOnlyRootFilesystem = True,
             AllowPrivilegeEscalation = False, DropCapabilities = [], Seccomp = None, AppArmorDefault = False\<rparr>\<rparr>],
      pod_Containers =
        [blank_container\<lparr>ct_Name := ''sandbox'', ct_Image := ''alpine:3.23'', ct_Command := [''/sandbox/binary''],
           ct_WorkingDir := ''/sandbox'', ct_Ports := [(''http'', httpPort)], ct_Mounts := [(''sandbox'', ''/sandbox''), (''tmp'', ''/tmp'')],
           ct_Security := Some \<lparr>RunAsUser = SandboxUser cfg, RunAsNonRoot = True, ReadOnlyRootFilesystem = True,
             AllowPrivilegeEscalation = False, DropCapabilities = [''ALL''], Seccomp = Some (sandboxSeccompProfile (SeccompPath cfg)),
             AppArmorDefault = True\<rparr>,
           ct_Readiness := Some \<lparr>pr_Path = ''/healthz'', pr_Port = httpPort, pr_InitialDelay = 1, pr_Period = 2, pr_FailureThreshold = 3\<rparr>,
           ct_Limits := [(''cpu'', CpuLimit cfg), (''memory'', MemoryLimit cfg)],
           ct_Requests := [(''cpu'', CpuRequest cfg), (''memory'', MemoryRequest cfg)]\<rparr>],
      pod_Volumes = [(''sandbox'', Some ''256Mi''), (''tmp'', None)],
      pod_NodeSelector = (if NodeSelectorK cfg \<noteq> [] \<and> NodeSelectorV cfg \<noteq> [] then [(NodeSelectorK cfg, NodeSelectorV cfg)] else []),
      pod_Tolerations = (if TolerationK cfg \<noteq> [] \<and> TolerationV cfg \<noteq> []
        then [\<lparr>tl_Key = TolerationK cfg, tl_Value = TolerationV cfg, tl_Effect = ''NoSchedule''\<rparr>] else [])\<rparr>"

section \<open>Deploying\<close>

text \<open>
  What the orchestrator meets: which quantities \<open>MustParse\<close> accepts, the creation of the pod, the events
  of the watch, the log stream of the sandbox and the address of the pod.
\<close>

record SandboxWorld =
  s_parse :: "string \<Rightarrow> bool"
  s_create :: "Pod \<Rightarrow> go_error option"
  s_watch :: "string \<Rightarrow> go_error + pod_event list"
  s_logs :: "string \<Rightarrow> go_error + (string list \<times> bool)"
  s_get :: "string \<Rightarrow> go_error + string"

datatype 'a outcome = Panicked | Returned 'a

text \<open>A malformed quantity of the configuration is a panic, before the pod is created.\<close>

definition createSandboxPod ::
    "SandboxWorld \<Rightarrow> SandboxConfig \<Rightarrow> string \<Rightarrow> string \<Rightarrow> string \<Rightarrow> (go_error option \<times> k8s_call list) outcome" where
  "createSandboxPod w cfg endpoint name binaryPath =
     (if \<not> binaryPathRegex binaryPath then Returned (Some (errorf (''invalid binary path: '' @ binaryPath)), [])
      else if \<not> list_all (s_parse w) [CpuLimit cfg, MemoryLimit cfg, CpuRequest cfg, MemoryRequest cfg] then Panicked
      else let pod = sandbox_pod cfg endpoint name binaryPath
           in case s_create w pod of Some e \<Rightarrow> Returned (Some (wrap ''create pod'' e), [])
              | None \<Rightarrow> Returned (None, [CreatePod pod]))"

definition phase_text :: "pod_phase \<Rightarrow> string" where
  "phase_text ph = (case ph of PodPending \<Rightarrow> ''Pending'' | PodRunning \<Rightarrow> ''Running'' | PodSucceeded \<Rightarrow> ''Succeeded''
     | PodFailed \<Rightarrow> ''Failed'' | PodUnknown \<Rightarrow> ''Unknown'')"

fun running_loop :: "pod_event list \<Rightarrow> go_error option" where
  "running_loop [] = Some (errorf ''watch closed before pod became running and ready'')"
| "running_loop (OtherObject # es) = running_loop es"
| "running_loop (PodUpdate ph ready # es) =
     (if ph = PodFailed \<or> ph = PodSucceeded then Some (errorf (''pod terminated with phase '' @ phase_text ph))
      else if ph = PodRunning \<and> ready then None
      else running_loop es)"

definition waitForPodRunning :: "SandboxWorld \<Rightarrow> string \<Rightarrow> go_error option" where
  "waitForPodRunning w name =
     (case s_watch w name of Inl e \<Rightarrow> Some (wrap ''watch pod'' e) | Inr events \<Rightarrow> running_loop events)"

text \<open>At most the configured number of bytes is read; a stream that fails before gives a note instead.\<close>

definition collectPodLogs :: "SandboxWorld \<Rightarrow> SandboxConfig \<Rightarrow> string \<Rightarrow> string" where
  "collectPodLogs w cfg podName =
     (case s_logs w podName of Inl e \<Rightarrow> ''(failed to fetch logs: '' @ err_text e @ '')''
      | Inr (chunks, fails) \<Rightarrow>
          if fails \<and> int (length (concat chunks)) < MaxLogBytes cfg then ''(failed to read logs: read error)''
          else take (nat (MaxLogBytes cfg)) (concat chunks))"

definition failure_reason :: "SandboxConfig \<Rightarrow> go_error \<Rightarrow> string \<Rightarrow> string outcome" where
  "failure_reason cfg e logs =
     (let reason = ''wait for pod failed: '' @ err_text e @ [CHR 10, CHR 10] @ ''pod logs:'' @ [CHR 10] @ logs
      in if int (length reason) > MaxLogBytes cfg
         then (if MaxLogBytes cfg < 0 then Panicked else Returned (take (nat (MaxLogBytes cfg)) reason))
         else Returned reason)"

definition sandbox_cleanupPod :: "string \<Rightarrow> k8s_call" where
  "sandbox_cleanupPod name = DeletePod ''sandboxes'' name"

declare sandbox_cleanupPod_def [simp]

text \<open>The deployment; the deferred function deletes the pod unless the deployment succeeded.\<close>

definition Deploy ::
    "SandboxWorld \<Rightarrow> SandboxConfig \<Rightarrow> string \<Rightarrow> BuildCompleteEvent \<Rightarrow> (go_error + string \<times> string) outcome \<times> k8s_call list" where
  "Deploy w cfg endpoint event =
     (let podName = ''sandbox-'' @ bc_SubmissionID event in
      case createSandboxPod w cfg endpoint podName (bc_BinaryPath event) of
        Panicked \<Rightarrow> (Panicked, [])
      | Returned (Some e, calls) \<Rightarrow> (Returned (Inl (wrap ''create pod'' e)), calls)
      | Returned (None, calls) \<Rightarrow>
          (case waitForPodRunning w podName of
             Some e \<Rightarrow>
               ((case failure_reason cfg e (collectPodLogs w cfg podName) of
                   Panicked \<Rightarrow> Panicked | Returned reason \<Rightarrow> Returned (Inl (errorf reason))),
                calls @ [WatchPod podName, GetLogs podName ''sandbox'', sandbox_cleanupPod podName])
           | None \<Rightarrow>
               (case s_get w podName of
                  Inl e \<Rightarrow> (Returned (Inl (wrap ''get pod'' e)), calls @ [WatchPod podName, GetPod podName, sandbox_cleanupPod podName])
                | Inr podIP \<Rightarrow>
                    if podIP = [] then
                      (Returned (Inl (errorf ''pod has no IP assigned'')), calls @ [WatchPod podName, GetPod podName, sandbox_cleanupPod podName])
                    else (Returned (Inr (podName, podIP)), calls @ [WatchPod podName, GetPod podName]))))"

section \<open>Publishing and consuming\<close>

definition sandbox_truncate :: "string \<Rightarrow> nat \<Rightarrow> string" where
  "sandbox_truncate s mx = (if length s \<le> mx then s else take mx s)"

definition PublishSandboxReady :: "int64 \<Rightarrow> string \<Rightarrow> string \<Rightarrow> string \<Rightarrow> string \<Rightarrow> lifecycle" where
  "PublishSandboxReady now submissionID podName podIP teamName =
     SandboxReady \<lparr>sr_Event = ''sandbox.ready'', sr_SubmissionID = submissionID, sr_PodName = podName, sr_PodIP = podIP,
       sr_HTTPPort = int httpPort, sr_WSPort = int httpPort, sr_TeamName = teamName, sr_ReadyAt = now\<rparr>"

definition PublishSandboxFailed :: "int64 \<Rightarrow> string \<Rightarrow> string \<Rightarrow> lifecycle" where
  "PublishSandboxFailed now submissionID reason =
     Failed \<lparr>fe_Event = ''sandbox.failed'', fe_SubmissionID = submissionID, fe_Reason = sandbox_truncate reason 4096, fe_FailedAt = now\<rparr>"

text \<open>A panic is recovered by the loop and counts as an error of the record.\<close>

definition sandbox_handleRecord ::
    "SandboxWorld \<Rightarrow> SandboxConfig \<Rightarrow> string \<Rightarrow> bool \<Rightarrow> int64 \<Rightarrow> lifecycle \<Rightarrow> bool \<times> lifecycle list \<times> k8s_call list" where
  "sandbox_handleRecord w cfg endpoint pub_ok now record =
     (case decode_complete record of None \<Rightarrow> (True, [], [])
      | Some event \<Rightarrow>
          if bc_Event event \<noteq> ''build.complete'' then (True, [], [])
          else (case Deploy w cfg endpoint event of
                  (Panicked, calls) \<Rightarrow> (False, [], calls)
                | (Returned (Inl e), calls) \<Rightarrow>
                    if already_exists e then (True, [], calls)
                    else (True, if pub_ok then [PublishSandboxFailed now (bc_SubmissionID event) (err_text e)] else [], calls)
                | (Returned (Inr (podName, podIP)), calls) \<Rightarrow>
                    if pub_ok then (True, [PublishSandboxReady now (bc_SubmissionID event) podName podIP (bc_TeamName event)], calls)
                    else (False, [], calls)))"

record sandbox_delivery =
  sd_record :: lifecycle
  sd_world :: SandboxWorld
  sd_pub_ok :: bool
  sd_now :: int64

definition sandbox_Run ::
    "SandboxConfig \<Rightarrow> string \<Rightarrow> sandbox_delivery fetch list \<Rightarrow> lifecycle list \<times> k8s_call list \<Rightarrow>
     run_end option \<times> sandbox_delivery list \<times> lifecycle list \<times> k8s_call list" where
  "sandbox_Run cfg endpoint fetches s = consumer_loop
     (\<lambda>d (topic, calls). case sandbox_handleRecord (sd_world d) cfg endpoint (sd_pub_ok d) (sd_now d) (sd_record d) of
        (ok, msgs, cs) \<Rightarrow> (ok, topic @ msgs, calls @ cs)) fetches s"

section \<open>The outcome of a deployment\<close>

text \<open>The pod could be created.\<close>

definition sandbox_created :: "SandboxWorld \<Rightarrow> SandboxConfig \<Rightarrow> string \<Rightarrow> BuildCompleteEvent \<Rightarrow> bool" where
  "sandbox_created w cfg endpoint event \<longleftrightarrow> binaryPathRegex (bc_BinaryPath event) \<and>
     list_all (s_parse w) [CpuLimit cfg, MemoryLimit cfg, CpuRequest cfg, MemoryRequest cfg] \<and>
     s_create w (sandbox_pod cfg endpoint (''sandbox-'' @ bc_SubmissionID event) (bc_BinaryPath event)) = None"

text \<open>It became ready before it ended and has an address.\<close>

definition sandbox_ready :: "SandboxWorld \<Rightarrow> BuildCompleteEvent \<Rightarrow> string \<Rightarrow> bool" where
  "sandbox_ready w event podIP \<longleftrightarrow> waitForPodRunning w (''sandbox-'' @ bc_SubmissionID event) = None \<and>
     s_get w (''sandbox-'' @ bc_SubmissionID event) = Inr podIP \<and> podIP \<noteq> []"

lemma Deploy_not_created:
  assumes "\<not> sandbox_created w cfg endpoint event"
  shows "snd (Deploy w cfg endpoint event) = [] \<and> (\<forall>r. fst (Deploy w cfg endpoint event) \<noteq> Returned (Inr r))"
  using assms unfolding sandbox_created_def
  by (auto simp: Deploy_def createSandboxPod_def Let_def split: option.splits)

lemma Deploy_ready:
  assumes "sandbox_created w cfg endpoint event" and "sandbox_ready w event podIP"
  shows "Deploy w cfg endpoint event =
    (Returned (Inr (''sandbox-'' @ bc_SubmissionID event, podIP)),
     [CreatePod (sandbox_pod cfg endpoint (''sandbox-'' @ bc_SubmissionID event) (bc_BinaryPath event)),
      WatchPod (''sandbox-'' @ bc_SubmissionID event), GetPod (''sandbox-'' @ bc_SubmissionID event)])"
  using assms unfolding sandbox_created_def sandbox_ready_def by (simp add: Deploy_def createSandboxPod_def Let_def)

lemma Deploy_not_ready:
  assumes "sandbox_created w cfg endpoint event" and "\<And>podIP. \<not> sandbox_ready w event podIP"
  shows "(\<exists>c. snd (Deploy w cfg endpoint event) =
      [CreatePod (sandbox_pod cfg endpoint (''sandbox-'' @ bc_SubmissionID event) (bc_BinaryPath event)),
       WatchPod (''sandbox-'' @ bc_SubmissionID event), c, DeletePod ''sandboxes'' (''sandbox-'' @ bc_SubmissionID event)] \<and>
      (\<forall>p. c \<noteq> CreatePod p) \<and> (\<forall>ns n. c \<noteq> DeletePod ns n)) \<and>
    (\<forall>r. fst (Deploy w cfg endpoint event) \<noteq> Returned (Inr r))"
  using assms unfolding sandbox_created_def sandbox_ready_def
  by (auto simp: Deploy_def createSandboxPod_def Let_def split: option.splits sum.splits outcome.splits)

lemma sandbox_pod_name [simp]:
  "pod_Name (sandbox_pod cfg endpoint name path) = name" "pod_Namespace (sandbox_pod cfg endpoint name path) = ''sandboxes''"
  by (simp_all add: sandbox_pod_def)

end
