(* ===== verification/Sandbox_Props.thy ===== *)
theory Sandbox_Props
  imports Sandbox_Orchestrator
begin

text \<open>The theorems about the sandbox orchestrator.\<close>

section \<open>Sample data\<close>

definition demo_complete :: BuildCompleteEvent where
  "demo_complete = \<lparr>bc_Event = ''build.complete'', bc_SubmissionID = ''u1'', bc_BinaryPath = ''builds/u1/binary'',
     bc_Language = ''go'', bc_TeamName = ''team'', bc_BuiltAt = 1\<rparr>"

definition demo_sandbox_config :: SandboxConfig where
  "demo_sandbox_config = \<lparr>Timeout = 60000000000, MaxLogBytes = 4096, CpuRequest = ''2'', CpuLimit = ''2'', MemoryRequest = ''512Mi'', MemoryLimit = ''512Mi'',
     SeccompPath = ''sandbox-seccomp.json'', SandboxUser = 65534, NodeSelectorK = ''workload'', NodeSelectorV = ''sandbox'',
     TolerationK = ''workload'', TolerationV = ''sandbox''\<rparr>"

text \<open>A cluster where the pod becomes ready, and the same cluster when the pod exists already.\<close>

definition demo_sandbox_world :: SandboxWorld where
  "demo_sandbox_world = \<lparr>s_parse = (\<lambda>_. True), s_create = (\<lambda>_. None),
     s_watch = (\<lambda>_. Inr [PodUpdate PodPending False, PodUpdate PodRunning False, PodUpdate PodRunning True]),
     s_logs = (\<lambda>_. Inr ([], False)), s_get = (\<lambda>_. Inr ''10.0.0.7'')\<rparr>"

definition demo_taken_world :: SandboxWorld where
  "demo_taken_world = demo_sandbox_world\<lparr>s_create := (\<lambda>_. Some \<lparr>err_text = ''pods already exists'', already_exists = True\<rparr>)\<rparr>"

lemma demo_path: "binaryPathRegex ''builds/u1/binary''"
  by code_simp

lemma demo_sandbox_created: "sandbox_created demo_sandbox_world demo_sandbox_config endpoint demo_complete"
  using demo_path by (simp add: sandbox_created_def demo_sandbox_world_def demo_complete_def)

lemma demo_sandbox_ready: "sandbox_ready demo_sandbox_world demo_complete ''10.0.0.7''"
  by (simp add: sandbox_ready_def waitForPodRunning_def demo_sandbox_world_def)

section \<open>Properties\<close>


text \<open>
  C33. The shell command that downloads the binary cannot be subverted through the build event: a pod is
  created only for a path made of letters, digits and the characters of a path, so the command is one
  \<open>wget\<close> of an address below the bucket and one \<open>chmod\<close>; and the container that runs the submission is
  hardened and gets no service account token.
\<close>

theorem sandbox_pod_safe:
  assumes "CreatePod pod \<in> set (snd (Deploy w cfg endpoint event))"
  shows "list_all path_char (bc_BinaryPath event) \<and> pod_AutomountToken pod = Some False \<and>
    list_all hardened (pod_Containers pod) \<and>
    map ct_Command (pod_Init pod) =
      [[''sh'', ''-c'', ''wget -qO /sandbox/binary '' @ endpoint @ ''/submissions/'' @ bc_BinaryPath event @ '' && chmod +x /sandbox/binary'']]"
proof -
  have c: "sandbox_created w cfg endpoint event" 
    using assms Deploy_not_created [of w cfg endpoint event] by (metis empty_iff list.set(1))
  have "CreatePod pod \<in> set (snd (Deploy w cfg endpoint event)) \<Longrightarrow>
      pod = sandbox_pod cfg endpoint (''sandbox-'' @ bc_SubmissionID event) (bc_BinaryPath event)"
  proof (cases "\<exists>ip. sandbox_ready w event ip")
    case True
    then obtain ip where "sandbox_ready w event ip" ..
    from Deploy_ready [OF c this] show "CreatePod pod \<in> set (snd (Deploy w cfg endpoint event)) \<Longrightarrow> ?thesis" by simp
  next
    case False
    then have "\<And>ip. \<not> sandbox_ready w event ip" by blast
    from Deploy_not_ready [OF c this] show "CreatePod pod \<in> set (snd (Deploy w cfg endpoint event)) \<Longrightarrow> ?thesis" by force
  qed
  with assms c show ?thesis
    by (simp add: sandbox_created_def binaryPathRegex_def sandbox_pod_def blank_container_def hardened_def download_command_def)
qed

theorem sandbox_pod_safe_witness:
  "list_all hardened (pod_Containers (sandbox_pod demo_sandbox_config ''http://s3'' ''sandbox-u1'' ''builds/u1/binary''))"
proof -
  have "CreatePod (sandbox_pod demo_sandbox_config ''http://s3'' ''sandbox-u1'' ''builds/u1/binary'') \<in>
      set (snd (Deploy demo_sandbox_world demo_sandbox_config ''http://s3'' demo_complete))"
    using Deploy_ready [OF demo_sandbox_created demo_sandbox_ready] by (simp add: demo_complete_def)
  from sandbox_pod_safe [OF this] show ?thesis by blast
qed

text \<open>
  A sandbox can be lost. When the announcement of a ready sandbox cannot be published, the record
  is not committed and is delivered again; the pod exists, so its creation is refused, which counts
  as success: the record is committed, nothing was ever announced, and the pod is left running.
\<close>

theorem sandbox_lost:
  assumes "sandbox_created w cfg endpoint event" and "sandbox_ready w event ip" and "bc_Event event = ''build.complete''"
    and "list_all (s_parse w') [CpuLimit cfg, MemoryLimit cfg, CpuRequest cfg, MemoryRequest cfg]"
    and "s_create w' (sandbox_pod cfg endpoint (''sandbox-'' @ bc_SubmissionID event) (bc_BinaryPath event)) = Some e" and "already_exists e"
  shows "\<exists>calls. sandbox_handleRecord w cfg endpoint False now (BuildComplete event) = (False, [], calls) \<and>
    sandbox_handleRecord w' cfg endpoint pub_ok now' (BuildComplete event) = (True, [], []) \<and>
    live_pods calls [] = [(''sandboxes'', ''sandbox-'' @ bc_SubmissionID event)]"
proof -
  have "Deploy w' cfg endpoint event = (Returned (Inl (wrap ''create pod'' (wrap ''create pod'' e))), [])"
    using assms(1,4,5) by (simp add: Deploy_def createSandboxPod_def sandbox_created_def)
  then have "sandbox_handleRecord w' cfg endpoint pub_ok now' (BuildComplete event) = (True, [], [])"
    using assms(3,6) by (simp add: sandbox_handleRecord_def)
  moreover have "sandbox_handleRecord w cfg endpoint False now (BuildComplete event) =
      (False, [], snd (Deploy w cfg endpoint event))"
    using assms(3) Deploy_ready [OF assms(1,2)] by (simp add: sandbox_handleRecord_def)
  ultimately show ?thesis using Deploy_ready [OF assms(1,2)] by auto
qed

theorem sandbox_lost_witness:
  "\<exists>calls. sandbox_handleRecord demo_sandbox_world demo_sandbox_config ''s3'' False 1 (BuildComplete demo_complete) = (False, [], calls) \<and>
    sandbox_handleRecord demo_taken_world demo_sandbox_config ''s3'' True 2 (BuildComplete demo_complete) = (True, [], []) \<and>
    live_pods calls [] = [(''sandboxes'', ''sandbox-u1'')]"
proof -
  have "s_parse demo_taken_world q" for q by (simp add: demo_taken_world_def demo_sandbox_world_def)
  moreover have "s_create demo_taken_world p = Some \<lparr>err_text = ''pods already exists'', already_exists = True\<rparr>" for p
    by (simp add: demo_taken_world_def)
  moreover have "bc_Event demo_complete = ''build.complete''" "bc_SubmissionID demo_complete = ''u1''" by (simp_all add: demo_complete_def)
  ultimately show ?thesis
    using sandbox_lost [where w = demo_sandbox_world and cfg = demo_sandbox_config and event = demo_complete and ip = "''10.0.0.7''", OF demo_sandbox_created demo_sandbox_ready,
      where w' = demo_taken_world and e = "\<lparr>err_text = ''pods already exists'', already_exists = True\<rparr>"
      and endpoint = "''s3''" and now = 1 and pub_ok = True and now' = 2]
    by simp
qed

text \<open>The container that downloads the binary keeps its capabilities and has no seccomp profile.\<close>

lemma download_container_not_hardened: "\<not> list_all hardened (pod_Init (sandbox_pod cfg endpoint name path))"
  by (simp add: sandbox_pod_def hardened_def blank_container_def)

end
