(* ===== verification/Bot_Orchestrator.thy ===== *)
theory Bot_Orchestrator
  imports Lifecycle Transition
begin

text \<open>
  The bot orchestrator (\<open>src/services/bot-orchestrator\<close>): for every ready sandbox it runs a bot job,
  waits for its end, deletes the job and the sandbox and announces the end of the test. Tests are
  started by the topic and by HTTP requests and run concurrently; a test of a submission that is
  already being tested is refused.
\<close>

section \<open>One test\<close>

record OrchConfig =
  NumBots :: int
  DurationSeconds :: int
  JobTimeoutSec :: int
  WarmupSeconds :: int
  RedpandaBrokers :: string
  BotRunnerImage :: string
  SandboxNamespace :: string

text \<open>Events of a job watch: the kind, and the succeeded and failed counters when the object is a job.\<close>

datatype job_event = JobAdded int int | JobModified "(int \<times> int) option" | JobOther | JobWatchError

text \<open>
  What a test meets: the creation of the job, whether the context ends during the warm-up, the events of
  the watch, and whether the context is over when the watch closes.
\<close>

record TestWorld =
  j_create :: "Job \<Rightarrow> go_error option"
  j_warmup_cancelled :: bool
  j_watch :: "string \<Rightarrow> go_error + job_event list"
  j_ctx_over :: bool

definition bot_job :: "OrchConfig \<Rightarrow> SandboxReadyEvent \<Rightarrow> Job" where
  "bot_job cfg event =
     \<lparr>job_Name = ''bot-runner-'' @ sr_SubmissionID event, job_Namespace = ''bots'', job_TTL = 300, job_BackoffLimit = 0,
      job_Completions = 1, job_Parallelism = 1, job_Labels = [(''app.kubernetes.io/name'', ''bot-runner'')],
      job_RestartPolicy = ''Never'',
      job_Containers =
        [blank_container\<lparr>ct_Name := ''bot-runner'', ct_Image := BotRunnerImage cfg,
           ct_Env := [(''TARGET_ENDPOINT'', ''ws://'' @ sr_PodIP event @ '':'' @ dec (sr_WSPort event) @ ''/stream''),
             (''NUM_BOTS'', dec (NumBots cfg)), (''DURATION_SECONDS'', dec (DurationSeconds cfg)), (''TEAM_NAME'', sr_TeamName event),
             (''TEST_RUN_ID'', sr_SubmissionID event), (''REDPANDA_BROKERS'', RedpandaBrokers cfg)],
           ct_Requests := [(''cpu'', ''100m''), (''memory'', ''512Mi'')], ct_Limits := [(''cpu'', ''2''), (''memory'', ''1Gi'')]\<rparr>]\<rparr>"

definition ctx_error :: go_error where
  "ctx_error = errorf ''context canceled''"

fun job_loop :: "OrchConfig \<Rightarrow> bool \<Rightarrow> string \<Rightarrow> job_event list \<Rightarrow> go_error option" where
  "job_loop cfg ctx_over jobName [] =
     (if ctx_over then Some ctx_error
      else Some (errorf (''job '' @ jobName @ '' timed out after '' @ dec (JobTimeoutSec cfg) @ ''s'')))"
| "job_loop cfg ctx_over jobName (JobModified (Some (succeeded, failed)) # es) =
     (if succeeded > 0 then None
      else if failed > 0 then Some (errorf (''job '' @ jobName @ '' failed''))
      else job_loop cfg ctx_over jobName es)"
| "job_loop cfg ctx_over jobName (JobWatchError # es) = Some (errorf ''watch error'')"
| "job_loop cfg ctx_over jobName (_ # es) = job_loop cfg ctx_over jobName es"

definition waitForJob :: "OrchConfig \<Rightarrow> TestWorld \<Rightarrow> string \<Rightarrow> go_error option" where
  "waitForJob cfg w jobName =
     (case j_watch w jobName of Inl e \<Rightarrow> Some (wrap ''watch job'' e) | Inr es \<Rightarrow> job_loop cfg (j_ctx_over w) jobName es)"

definition runTest :: "OrchConfig \<Rightarrow> TestWorld \<Rightarrow> SandboxReadyEvent \<Rightarrow> go_error option \<times> k8s_call list" where
  "runTest cfg w event =
     (let job = bot_job cfg event; jobName = ''bot-runner-'' @ sr_SubmissionID event in
      case j_create w job of
        Some e \<Rightarrow> (Some (wrap ''create job'' e), [])
      | None \<Rightarrow>
          if j_warmup_cancelled w then (Some ctx_error, [CreateJob job])
          else (waitForJob cfg w jobName, [CreateJob job, WatchJob jobName, DeleteJob jobName]))"

definition deleteSandboxPod :: "OrchConfig \<Rightarrow> string \<Rightarrow> k8s_call list" where
  "deleteSandboxPod cfg podName = (if podName = [] then [] else [DeletePod (SandboxNamespace cfg) podName])"

definition PublishTestComplete :: "int64 \<Rightarrow> TestCompleteEvent \<Rightarrow> lifecycle" where
  "PublishTestComplete now e = TestComplete (e\<lparr>tc_Event := ''test.complete'', tc_CompletedAt := now\<rparr>)"

definition orch_Handle ::
    "OrchConfig \<Rightarrow> TestWorld \<Rightarrow> bool \<Rightarrow> int64 \<Rightarrow> SandboxReadyEvent \<Rightarrow> lifecycle list \<times> k8s_call list" where
  "orch_Handle cfg w pub_ok now event =
     (let (err, calls) = runTest cfg w event;
          success = (err = None);
          reason = (case err of None \<Rightarrow> [] | Some e \<Rightarrow> err_text e);
          done = \<lparr>tc_Event = [], tc_SubmissionID = sr_SubmissionID event, tc_TeamName = sr_TeamName event,
                  tc_Success = success, tc_Reason = reason, tc_CompletedAt = 0\<rparr>
      in (if pub_ok then [PublishTestComplete now done] else [], calls @ deleteSandboxPod cfg (sr_PodName event)))"

section \<open>The server\<close>

record Server =
  activeTests :: "string set"
  testing :: "SandboxReadyEvent list"
  orch_topic :: "lifecycle list"
  orch_calls :: "k8s_call list"

definition fill_defaults :: "SandboxReadyEvent \<Rightarrow> SandboxReadyEvent" where
  "fill_defaults e = e\<lparr>
     sr_SubmissionID := (if sr_SubmissionID e = [] then ''manual-run'' else sr_SubmissionID e),
     sr_PodIP := (if sr_PodIP e = [] then ''submission-api.platform.svc.cluster.local'' else sr_PodIP e),
     sr_WSPort := (if sr_WSPort e = 0 then 8080 else sr_WSPort e),
     sr_TeamName := (if sr_TeamName e = [] then ''manual-team'' else sr_TeamName e)\<rparr>"

text \<open>The check and the mark under the mutex; the test then runs in its own goroutine.\<close>

definition begin_test :: "SandboxReadyEvent \<Rightarrow> Server \<Rightarrow> Server option" where
  "begin_test e s =
     (if sr_SubmissionID e \<in> activeTests s then None
      else Some (s\<lparr>activeTests := insert (sr_SubmissionID e) (activeTests s), testing := e # testing s\<rparr>))"

text \<open>The body of a request: a server request without a body reads as empty, which is not JSON.\<close>

datatype run_body = EmptyBody | BadJSON | JSONBody SandboxReadyEvent

datatype run_reply = RunMethodNotAllowed | RunBadRequest | RunConflict | RunStarted

definition runHandler :: "bool \<Rightarrow> run_body \<Rightarrow> Server \<Rightarrow> run_reply \<times> Server" where
  "runHandler is_post body s =
     (if \<not> is_post then (RunMethodNotAllowed, s)
      else case body of JSONBody e \<Rightarrow>
             (case begin_test (fill_defaults e) s of None \<Rightarrow> (RunConflict, s) | Some s' \<Rightarrow> (RunStarted, s'))
           | _ \<Rightarrow> (RunBadRequest, s))"

definition statusHandler :: "bool \<Rightarrow> Server \<Rightarrow> string option" where
  "statusHandler is_get s = (if \<not> is_get then None else Some (if activeTests s \<noteq> {} then ''running'' else ''idle''))"

text \<open>A record of the topic; an event of a submission under test is ignored.\<close>

definition consume_ready :: "lifecycle \<Rightarrow> Server \<Rightarrow> Server" where
  "consume_ready record s =
     (case decode_ready record of None \<Rightarrow> s
      | Some e \<Rightarrow>
          if sr_Event e \<noteq> ''sandbox.ready'' then s
          else (case begin_test e s of None \<Rightarrow> s | Some s' \<Rightarrow> s'))"

text \<open>A test ends, or panics: the deferred function releases the submission in both cases.\<close>

definition release :: "SandboxReadyEvent \<Rightarrow> Server \<Rightarrow> Server" where
  "release e s = s\<lparr>activeTests := activeTests s - {sr_SubmissionID e}, testing := remove1 e (testing s)\<rparr>"

definition finish_test :: "OrchConfig \<Rightarrow> TestWorld \<Rightarrow> bool \<Rightarrow> int64 \<Rightarrow> SandboxReadyEvent \<Rightarrow> Server \<Rightarrow> Server" where
  "finish_test cfg w pub_ok now e s =
     (case orch_Handle cfg w pub_ok now e of (msgs, calls) \<Rightarrow>
        release e (s\<lparr>orch_topic := orch_topic s @ msgs, orch_calls := orch_calls s @ calls\<rparr>))"

inductive server_step :: "OrchConfig \<Rightarrow> Server \<Rightarrow> Server \<Rightarrow> bool" for cfg where
  step_run: "server_step cfg s (snd (runHandler is_post body s))"
| step_consume: "server_step cfg s (consume_ready record s)"
| step_finish: "e \<in> set (testing s) \<Longrightarrow> server_step cfg s (finish_test cfg w pub_ok now e s)"
| step_panic: "e \<in> set (testing s) \<Longrightarrow> server_step cfg s (release e s)"

definition server_start :: Server where
  "server_start = \<lparr>activeTests = {}, testing = [], orch_topic = [], orch_calls = []\<rparr>"

definition server_init :: "Server \<Rightarrow> bool" where
  "server_init s \<longleftrightarrow> s = server_start"

abbreviation server_reachable :: "OrchConfig \<Rightarrow> Server \<Rightarrow> bool" where
  "server_reachable cfg \<equiv> reach server_init (server_step cfg)"

inductive_cases server_stepE: "server_step cfg s s'"

section \<open>Mutual exclusion\<close>

definition server_inv :: "Server \<Rightarrow> bool" where
  "server_inv s \<longleftrightarrow> distinct (map sr_SubmissionID (testing s)) \<and> activeTests s = sr_SubmissionID ` set (testing s)"

lemma begin_test_inv: "begin_test e s = Some s' \<Longrightarrow> server_inv s \<Longrightarrow> server_inv s'"
  by (auto simp: begin_test_def server_inv_def split: if_splits)

lemma runHandler_inv [keeps]: "server_inv s \<Longrightarrow> server_inv (snd (runHandler is_post body s))"
  by (auto simp: runHandler_def intro: begin_test_inv split: run_body.splits option.splits)

lemma consume_ready_inv [keeps]: "server_inv s \<Longrightarrow> server_inv (consume_ready record s)"
  by (auto simp: consume_ready_def intro: begin_test_inv split: option.splits)

lemma release_inv [keeps]:
  assumes "server_inv s" and "e \<in> set (testing s)"
  shows "server_inv (release e s)"
proof -
  have d: "distinct (map sr_SubmissionID (testing s))" using assms(1) by (simp add: server_inv_def)
  then have i: "inj_on sr_SubmissionID (set (testing s))" "distinct (testing s)" by (simp_all add: distinct_map)
  have "set (remove1 e (testing s)) = set (testing s) - {e}" using i(2) by simp
  moreover have "sr_SubmissionID ` (set (testing s) - {e}) = sr_SubmissionID ` set (testing s) - {sr_SubmissionID e}"
    using i(1) assms(2) by (simp add: inj_on_image_set_diff)
  moreover have "distinct (map sr_SubmissionID (remove1 e (testing s)))"
    using i inj_on_subset [of sr_SubmissionID "set (testing s)" "set (testing s) - {e}"] by (simp add: distinct_map)
  ultimately show ?thesis using assms(1) by (simp add: server_inv_def release_def)
qed

lemma finish_test_inv [keeps]: "server_inv s \<Longrightarrow> e \<in> set (testing s) \<Longrightarrow> server_inv (finish_test cfg w pub_ok now e s)"
  using release_inv [of "s\<lparr>orch_topic := t, orch_calls := c\<rparr>" e for t c]
  by (simp add: finish_test_def server_inv_def split: prod.splits)

interpretation server: system_invariant server_init "server_step cfg" server_inv for cfg
proof unfold_locales
  show "server_inv s" if "server_init s" for s using that by (simp add: server_init_def server_start_def server_inv_def)
  show "server_inv s'" if "server_inv s" "server_step cfg s s'" for s s'
    using that(2,1) by (cases rule: server_step.cases) (simp_all add: keeps)
qed

section \<open>The outcome of a test\<close>

text \<open>The event that decides a watch: the first modification of the job with a counter, or an error.\<close>

fun decisive :: "job_event list \<Rightarrow> job_event option" where
  "decisive [] = None"
| "decisive (JobModified (Some (s, f)) # es) = (if s > 0 \<or> f > 0 then Some (JobModified (Some (s, f))) else decisive es)"
| "decisive (JobWatchError # es) = Some JobWatchError"
| "decisive (_ # es) = decisive es"

lemma job_loop_None: "job_loop cfg b n es = None \<longleftrightarrow> (\<exists>s f. decisive es = Some (JobModified (Some (s, f))) \<and> s > 0)"
  by (induction cfg b n es rule: job_loop.induct) auto

lemma waitForJob_None:
  "waitForJob cfg w n = None \<longleftrightarrow> (\<exists>es s f. j_watch w n = Inr es \<and> decisive es = Some (JobModified (Some (s, f))) \<and> s > 0)"
  by (simp add: waitForJob_def job_loop_None split: sum.splits)

end
