(* ===== verification/Orchestration_Props.thy ===== *)
theory Orchestration_Props
  imports Bot_Orchestrator
begin

text \<open>The theorems about the bot orchestrator.\<close>

section \<open>Sample data\<close>

definition demo_ready :: "string \<Rightarrow> SandboxReadyEvent" where
  "demo_ready sid = \<lparr>sr_Event = ''sandbox.ready'', sr_SubmissionID = sid, sr_PodName = ''sandbox-'' @ sid, sr_PodIP = ''10.0.0.7'',
     sr_HTTPPort = 8080, sr_WSPort = 8080, sr_TeamName = ''team'', sr_ReadyAt = 1\<rparr>"

definition demo_orch_config :: OrchConfig where
  "demo_orch_config = \<lparr>NumBots = 50, DurationSeconds = 60, JobTimeoutSec = 120, WarmupSeconds = 15,
     RedpandaBrokers = ''redpanda:9092'', BotRunnerImage = ''bot-runner:dev'', SandboxNamespace = ''sandboxes''\<rparr>"

definition demo_test_world :: "job_event list \<Rightarrow> TestWorld" where
  "demo_test_world es = \<lparr>j_create = (\<lambda>_. None), j_warmup_cancelled = False, j_watch = (\<lambda>_. Inr es), j_ctx_over = False\<rparr>"

lemma server_start_reachable: "server_reachable cfg server_start"
  by (rule reach_init) (simp add: server_init_def)

lemma server_reachable_step: "server_reachable cfg s \<Longrightarrow> server_step cfg s s' \<Longrightarrow> server_reachable cfg s'"
  by (rule reach_step)

definition two_tests :: Server where
  "two_tests = consume_ready (SandboxReady (demo_ready ''b'')) (consume_ready (SandboxReady (demo_ready ''a'')) server_start)"

lemma two_tests_reachable: "server_reachable cfg two_tests"
  unfolding two_tests_def by (intro server_reachable_step [OF _ step_consume] server_start_reachable)

section \<open>Properties\<close>

text \<open>
  C34. At most one test per submission: however requests, records, ends of tests and panics interleave, no
  two running tests have the same submission, exactly the submissions under test are marked, a further
  request for one of them is refused and a further event ignored, and the status is \<open>running\<close> exactly
  while a test runs.
\<close>

theorem one_test_per_submission:
  assumes "server_reachable cfg s"
  shows "distinct (map sr_SubmissionID (testing s)) \<and> activeTests s = sr_SubmissionID ` set (testing s) \<and>
    (\<forall>e \<in> set (testing s). \<forall>e'. sr_SubmissionID e' = sr_SubmissionID e \<longrightarrow>
       consume_ready (SandboxReady e') s = s \<and>
       (sr_SubmissionID e' \<noteq> [] \<longrightarrow> runHandler True (JSONBody e') s = (RunConflict, s))) \<and>
    statusHandler True s = Some (if testing s = [] then ''idle'' else ''running'')"
proof -
  have inv: "server_inv s" by (rule server.inv_reach [OF assms])
  then have "begin_test e' s = None" if "e \<in> set (testing s)" "sr_SubmissionID e' = sr_SubmissionID e" for e e'
    using that by (simp add: begin_test_def server_inv_def)
  moreover have "sr_SubmissionID e' \<noteq> [] \<Longrightarrow> sr_SubmissionID (fill_defaults e') = sr_SubmissionID e'" for e'
    by (simp add: fill_defaults_def)
  ultimately show ?thesis
    using inv by (auto simp: server_inv_def consume_ready_def runHandler_def statusHandler_def)
qed

theorem one_test_per_submission_witness:
  "statusHandler True two_tests = Some ''running'' \<and> activeTests two_tests = {''a'', ''b''} \<and>
   runHandler True (JSONBody (demo_ready ''a'')) two_tests = (RunConflict, two_tests)"
proof -
  have t: "testing two_tests = [demo_ready ''b'', demo_ready ''a'']"
    by (simp add: two_tests_def consume_ready_def begin_test_def server_start_def demo_ready_def)
  have "sr_SubmissionID (demo_ready sid) = sid" for sid by (simp add: demo_ready_def)
  then show ?thesis using one_test_per_submission [OF two_tests_reachable] t by auto
qed



text \<open>
  A job that has ended before the watch is opened shows as added, which the loop ignores: the test
  is reported as timed out although the job succeeded.
\<close>

lemma finished_job_times_out:
  "job_loop cfg False n [JobAdded 1 0] = Some (errorf (''job '' @ n @ '' timed out after '' @ dec (JobTimeoutSec cfg) @ ''s''))"
  by simp

text \<open>Tests of different submissions run at the same time.\<close>

lemma two_tests_run: "server_reachable cfg two_tests \<and> length (testing two_tests) = 2"
  using two_tests_reachable by (simp add: two_tests_def consume_ready_def begin_test_def server_start_def demo_ready_def)

text \<open>A request without a body is refused; the defaults apply only to a body with missing fields.\<close>

lemma empty_request_refused: "runHandler True EmptyBody s = (RunBadRequest, s)"
  by (simp add: runHandler_def)

end
