(* ===== verification/Stub_Delivery.thy ===== *)
theory Stub_Delivery
  imports Stub_System
begin

text \<open>
  How the stub's messages reach a client (\<open>Session\<close>, \<open>writeLoop\<close> and the read loop of \<open>streamHandler\<close> in
  \<open>src/services/stub/main.go\<close>): a handler sends its messages one by one into the session's channel of 256
  places and waits while it is full; the session's writer takes them out and writes them. The engine of
  \<open>Stub_System\<close> runs below; a connection adds its channel, its writer and the messages its handler still
  has to send.
\<close>

section \<open>States and steps\<close>

datatype reader = Reading | Draining | Gone

record Wire =
  wr_todo :: "OutMessage list"
  wr_chan :: "OutMessage list"
  wr_reader :: reader
  wr_writing :: bool
  wr_out :: "OutMessage list"

definition fresh_wire :: Wire where
  "fresh_wire = \<lparr>wr_todo = [], wr_chan = [], wr_reader = Reading, wr_writing = True, wr_out = []\<rparr>"

record Engine =
  en_stub :: Stub
  en_wires :: "string \<rightharpoonup> Wire"

definition on_wire :: "string \<Rightarrow> (Wire \<Rightarrow> Wire) \<Rightarrow> Engine \<Rightarrow> Engine" where
  "on_wire sid f e = e\<lparr>en_wires := (en_wires e)(sid := map_option f (en_wires e sid))\<rparr>"

definition engine_connect :: "string \<Rightarrow> Engine \<Rightarrow> Engine" where
  "engine_connect remoteAddr e =
     e\<lparr>en_stub := stub_connect remoteAddr (en_stub e),
       en_wires := (en_wires e)(session_id remoteAddr (fst (now (s_clock (en_stub e)))) \<mapsto> fresh_wire)\<rparr>"

text \<open>A message the read loop has read: its handler runs and has these messages to send.\<close>

definition engine_message :: "string \<Rightarrow> IncomingMessage \<Rightarrow> Engine \<Rightarrow> Engine" where
  "engine_message sid msg e =
     on_wire sid (\<lambda>k. k\<lparr>wr_todo := fst (stream_message sid msg (s_book (en_stub e)) (s_clock (en_stub e)))\<rparr>)
       (e\<lparr>en_stub := stub_receive sid msg (en_stub e)\<rparr>)"

definition wire_send :: "Wire \<Rightarrow> Wire" where
  "wire_send k = k\<lparr>wr_chan := wr_chan k @ take 1 (wr_todo k), wr_todo := tl (wr_todo k)\<rparr>"

definition wire_write :: "Wire \<Rightarrow> Wire" where
  "wire_write k = k\<lparr>wr_out := wr_out k @ take 1 (wr_chan k), wr_chan := tl (wr_chan k)\<rparr>"

text \<open>A message that cannot be written is lost and ends the writer.\<close>

definition wire_write_fails :: "Wire \<Rightarrow> Wire" where
  "wire_write_fails k = k\<lparr>wr_chan := tl (wr_chan k), wr_writing := False\<rparr>"

definition wire_stop :: "Wire \<Rightarrow> Wire" where
  "wire_stop k = k\<lparr>wr_writing := False\<rparr>"

text \<open>
  The read loop ends when reading fails: the deferred function cancels the orders of the session, closes
  the channel and waits for the writer.
\<close>

definition engine_close :: "addr list \<Rightarrow> string \<Rightarrow> Engine \<Rightarrow> Engine" where
  "engine_close order sid e =
     on_wire sid (\<lambda>k. k\<lparr>wr_reader := Draining\<rparr>) (e\<lparr>en_stub := stub_close order sid (en_stub e)\<rparr>)"

definition wire_gone :: "Wire \<Rightarrow> Wire" where
  "wire_gone k = k\<lparr>wr_reader := Gone\<rparr>"

text \<open>The writer stops after a failed ping, at the end of the context, or when the channel is closed and empty.\<close>

inductive engine_step :: "Engine \<Rightarrow> Engine \<Rightarrow> bool" where
  ev_connect: "engine_step e (engine_connect remoteAddr e)"
| ev_query: "level_order Bids (s_book (en_stub e)) bidOrder \<Longrightarrow> level_order Asks (s_book (en_stub e)) askOrder \<Longrightarrow>
     engine_step e (e\<lparr>en_stub := stub_query bidOrder askOrder (en_stub e)\<rparr>)"
| ev_message: "en_wires e sid = Some k \<Longrightarrow> wr_reader k = Reading \<Longrightarrow> wr_todo k = [] \<Longrightarrow> engine_step e (engine_message sid msg e)"
| ev_send: "en_wires e sid = Some k \<Longrightarrow> wr_todo k \<noteq> [] \<Longrightarrow> length (wr_chan k) < 256 \<Longrightarrow> engine_step e (on_wire sid wire_send e)"
| ev_write: "en_wires e sid = Some k \<Longrightarrow> wr_writing k \<Longrightarrow> wr_chan k \<noteq> [] \<Longrightarrow> engine_step e (on_wire sid wire_write e)"
| ev_write_fails: "en_wires e sid = Some k \<Longrightarrow> wr_writing k \<Longrightarrow> wr_chan k \<noteq> [] \<Longrightarrow> engine_step e (on_wire sid wire_write_fails e)"
| ev_stop: "en_wires e sid = Some k \<Longrightarrow> wr_writing k \<Longrightarrow> engine_step e (on_wire sid wire_stop e)"
| ev_close: "en_wires e sid = Some k \<Longrightarrow> wr_reader k = Reading \<Longrightarrow> wr_todo k = [] \<Longrightarrow>
     map_order (orders (s_book (en_stub e))) order \<Longrightarrow> engine_step e (engine_close order sid e)"
| ev_gone: "en_wires e sid = Some k \<Longrightarrow> wr_reader k = Draining \<Longrightarrow> \<not> wr_writing k \<Longrightarrow> engine_step e (on_wire sid wire_gone e)"

definition engine_initial :: "Engine \<Rightarrow> bool" where
  "engine_initial e \<longleftrightarrow> stub_initial (en_stub e) \<and> en_wires e = Map.empty"

section \<open>The invariant\<close>

text \<open>The messages the engine has produced for a session, in order.\<close>

definition produced :: "string \<Rightarrow> Stub \<Rightarrow> OutMessage list" where
  "produced sid s = map snd (filter (\<lambda>p. fst p = sid) (s_log s))"

text \<open>
  What was produced for a session is what was written, then what was lost with the writer, then what waits
  in the channel, then what the handler still has to send.
\<close>

definition wire_ok :: "OutMessage list \<Rightarrow> bool \<Rightarrow> Wire \<Rightarrow> bool" where
  "wire_ok ms live k \<longleftrightarrow> (live \<longleftrightarrow> wr_reader k = Reading) \<and> length (wr_chan k) \<le> 256 \<and> (wr_todo k \<noteq> [] \<longrightarrow> wr_reader k = Reading) \<and>
     (\<exists>lost. ms = wr_out k @ lost @ wr_chan k @ wr_todo k \<and> length lost \<le> 1 \<and> (wr_writing k \<longrightarrow> lost = []))"

definition dated :: "int \<Rightarrow> string \<Rightarrow> bool" where
  "dated hi sid \<longleftrightarrow> (\<exists>remoteAddr ts. sid = session_id remoteAddr ts \<and> 0 \<le> ts \<and> ts \<le> hi)"

lemma dated_mono: "dated hi sid \<Longrightarrow> hi \<le> hi' \<Longrightarrow> dated hi' sid"
  unfolding dated_def by (blast intro: order_trans)

definition engine_inv :: "Engine \<Rightarrow> bool" where
  "engine_inv e \<longleftrightarrow> stub_inv (en_stub e) \<and>
     (\<forall>sid \<in> dom (en_wires e). dated (lastTimestamp (s_clock (en_stub e))) sid) \<and>
     fst ` set (s_log (en_stub e)) \<union> set (s_live (en_stub e)) \<subseteq> dom (en_wires e) \<and>
     (\<forall>sid k. en_wires e sid = Some k \<longrightarrow> wire_ok (produced sid (en_stub e)) (sid \<in> set (s_live (en_stub e))) k)"

lemma on_wire_same: "en_wires e sid = Some k \<Longrightarrow> en_wires (on_wire sid f e) sid = Some (f k)"
  by (simp add: on_wire_def)

text \<open>A step of one wire alone.\<close>

lemma on_wire_inv:
  assumes "engine_inv e" and "en_wires e sid = Some k" and "\<And>ms live. wire_ok ms live k \<Longrightarrow> wire_ok ms live (f k)"
  shows "engine_inv (on_wire sid f e)"
  using assms by (auto simp: engine_inv_def on_wire_def)

lemma wire_send_ok: "wire_ok ms live k \<Longrightarrow> wr_todo k \<noteq> [] \<Longrightarrow> length (wr_chan k) < 256 \<Longrightarrow> wire_ok ms live (wire_send k)"
  by (cases "wr_todo k") (auto simp: wire_ok_def wire_send_def)

lemma wire_write_ok: "wire_ok ms live k \<Longrightarrow> wr_writing k \<Longrightarrow> wr_chan k \<noteq> [] \<Longrightarrow> wire_ok ms live (wire_write k)"
  by (cases "wr_chan k") (auto simp: wire_ok_def wire_write_def)

lemma wire_write_fails_ok: "wire_ok ms live k \<Longrightarrow> wr_writing k \<Longrightarrow> wr_chan k \<noteq> [] \<Longrightarrow> wire_ok ms live (wire_write_fails k)"
  by (cases "wr_chan k") (auto simp: wire_ok_def wire_write_fails_def intro: exI [of _ "[hd (wr_chan k)]"])

lemma wire_stop_ok: "wire_ok ms live k \<Longrightarrow> wire_ok ms live (wire_stop k)"
  by (auto simp: wire_ok_def wire_stop_def)

lemma wire_gone_ok: "wire_ok ms live k \<Longrightarrow> wr_reader k = Draining \<Longrightarrow> wire_ok ms live (wire_gone k)"
  by (auto simp: wire_ok_def wire_gone_def)

lemma wire_start_ok:
  "wire_ok ms live k \<Longrightarrow> wr_reader k = Reading \<Longrightarrow> wr_todo k = [] \<Longrightarrow> wire_ok (ms @ out) live (k\<lparr>wr_todo := out\<rparr>)"
  by (auto simp: wire_ok_def)

lemma wire_close_ok: "wire_ok ms True k \<Longrightarrow> wr_todo k = [] \<Longrightarrow> wire_ok ms False (k\<lparr>wr_reader := Draining\<rparr>)"
  by (auto simp: wire_ok_def)

lemma engine_inv_wire:
  assumes "engine_inv e" and "en_wires e sid = Some k"
  shows "wire_ok (produced sid (en_stub e)) (sid \<in> set (s_live (en_stub e))) k"
    and "dated (lastTimestamp (s_clock (en_stub e))) sid"
  using assms by (auto simp: engine_inv_def)

text \<open>A session id the clock gives out next is new.\<close>

lemma next_session_new:
  assumes "stub_inv s" and "dated (lastTimestamp (s_clock s)) sid"
  shows "sid \<noteq> session_id remoteAddr (fst (now (s_clock s)))"
proof
  assume s: "sid = session_id remoteAddr (fst (now (s_clock s)))"
  from assms(2) obtain x u where "sid = session_id x u" "0 \<le> u" "u \<le> lastTimestamp (s_clock s)" by (auto simp: dated_def)
  then show False
    using s session_id_inject [of "fst (now (s_clock s))" u remoteAddr x] fst_now_gt [of "s_clock s"] assms(1)
    by (simp add: stub_inv_def)
qed

section \<open>Every step keeps the invariant\<close>

lemma produced_receive:
  "produced sid (stub_receive x msg s) =
     produced sid s @ (if x = sid then fst (stream_message x msg (s_book s) (s_clock s)) else [])"
  by (auto simp: produced_def stub_receive_def split_beta o_def)

lemma stub_receive_fields [simp]:
  "s_live (stub_receive sid msg s) = s_live s"
  "s_log (stub_receive sid msg s) = s_log s @ map (Pair sid) (fst (stream_message sid msg (s_book s) (s_clock s)))"
  by (simp_all add: stub_receive_def split_beta)

lemma engine_connect_inv [keeps]:
  assumes inv: "engine_inv e"
  shows "engine_inv (engine_connect remoteAddr e)"
proof -
  let ?s = "en_stub e" and ?ts = "fst (now (s_clock (en_stub e)))"
  let ?sid = "session_id remoteAddr ?ts"
  obtain ts clk where n: "now (s_clock ?s) = (ts, clk)" by fastforce
  note t = now_stamps [OF n]
  have s': "stub_connect remoteAddr ?s = ?s\<lparr>s_clock := clk, s_live := ?sid # s_live ?s\<rparr>" by (simp add: stub_connect_def n)
  have new: "?sid \<notin> dom (en_wires e)"
    using inv next_session_new [of ?s ?sid remoteAddr] engine_inv_wire(2) [OF inv] by (auto simp: engine_inv_def)
  have "stub_inv (stub_connect remoteAddr ?s)" using inv by (simp add: engine_inv_def keeps)
  moreover have "dated (lastTimestamp clk) ?sid"
    unfolding dated_def using t n inv by (intro exI conjI [OF refl]) (auto simp: engine_inv_def stub_inv_def)
  moreover have "dated (lastTimestamp clk) x" if "x \<in> dom (en_wires e)" for x
    using that inv t dated_mono [of "lastTimestamp (s_clock ?s)" x "lastTimestamp clk"] by (auto simp: engine_inv_def)
  moreover have "produced ?sid ?s = []" using new inv by (force simp: engine_inv_def produced_def filter_empty_conv)
  moreover have "?sid \<notin> set (s_live ?s)" using new inv by (auto simp: engine_inv_def)
  ultimately show ?thesis
    using inv unfolding engine_inv_def engine_connect_def s'
    by (auto simp: wire_ok_def fresh_wire_def produced_def split: if_splits)
qed

lemma engine_message_inv [keeps]:
  assumes inv: "engine_inv e" and k: "en_wires e sid = Some k" "wr_reader k = Reading" "wr_todo k = []"
  shows "engine_inv (engine_message sid msg e)"
proof -
  let ?s = "en_stub e"
  have live: "sid \<in> set (s_live ?s)" using inv k by (auto simp: engine_inv_def wire_ok_def)
  have "stub_inv (stub_receive sid msg ?s)" using inv live by (simp add: engine_inv_def keeps)
  moreover have "lastTimestamp (s_clock ?s) \<le> lastTimestamp (s_clock (stub_receive sid msg ?s))"
  proof -
    obtain out ob clk where m: "stream_message sid msg (s_book ?s) (s_clock ?s) = (out, ob, clk)" by (metis prod_cases3)
    from stamps_le [OF stream_message_stamps [OF m]] show ?thesis by (simp add: stub_receive_def m)
  qed
  ultimately show ?thesis
    using inv wire_start_ok [OF engine_inv_wire(1) [OF inv k(1)] k(2,3)] k(1)
    unfolding engine_inv_def engine_message_def on_wire_def
    by (auto simp: produced_receive intro: dated_mono)
qed

lemma engine_query_inv [keeps]:
  assumes "engine_inv e"
  shows "engine_inv (e\<lparr>en_stub := stub_query bidOrder askOrder (en_stub e)\<rparr>)"
proof -
  let ?s = "en_stub e"
  have "s_live (stub_query bidOrder askOrder ?s) = s_live ?s" "s_log (stub_query bidOrder askOrder ?s) = s_log ?s"
    "lastTimestamp (s_clock ?s) \<le> lastTimestamp (s_clock (stub_query bidOrder askOrder ?s))"
    using fst_now_gt [of "s_clock ?s"] by (simp_all add: stub_query_def orderbookHandler_def Let_def split_beta)
  then show ?thesis using assms stub_query_inv [of ?s bidOrder askOrder]
    by (auto simp: engine_inv_def produced_def intro: dated_mono)
qed

lemma engine_close_inv [keeps]:
  assumes inv: "engine_inv e" and k: "en_wires e sid = Some k" "wr_reader k = Reading" "wr_todo k = []"
    and mo: "map_order (orders (s_book (en_stub e))) order"
  shows "engine_inv (engine_close order sid e)"
proof -
  let ?s = "en_stub e"
  have live: "sid \<in> set (s_live ?s)" using engine_inv_wire(1) [OF inv k(1)] k(2) by (simp add: wire_ok_def)
  have "stub_inv (stub_close order sid ?s)" using inv mo by (simp add: engine_inv_def keeps)
  moreover have "set (remove1 sid (s_live ?s)) = set (s_live ?s) - {sid}" using inv by (simp add: engine_inv_def stub_inv_def)
  ultimately show ?thesis
    using inv wire_close_ok [of "produced sid ?s" k] engine_inv_wire(1) [OF inv k(1)] k live
    unfolding engine_inv_def engine_close_def on_wire_def
    by (auto simp: stub_close_def produced_def)
qed

interpretation engine: system_invariant engine_initial engine_step engine_inv
proof unfold_locales
  show "engine_inv e" if "engine_initial e" for e
    using that stub.inv_init by (auto simp: engine_initial_def engine_inv_def stub_initial_def stub_init_def)
  show "engine_inv e'" if "engine_inv e" "engine_step e e'" for e e'
    using that(2,1)
    by cases (auto simp: keeps intro: on_wire_inv wire_send_ok wire_write_ok wire_write_fails_ok wire_stop_ok wire_gone_ok)
qed

abbreviation engine_reachable :: "Engine \<Rightarrow> bool" where
  "engine_reachable \<equiv> reach engine_initial engine_step"

section \<open>Refinement of the engine without wires\<close>

lemma engine_stub_step:
  assumes inv: "engine_inv e" and st: "engine_step e e'"
  shows "stub_step\<^sup>=\<^sup>= (en_stub e) (en_stub e')"
  using st
proof cases
  case (ev_message sid k msg)
  then have "sid \<in> set (s_live (en_stub e))" using inv by (auto simp: engine_inv_def wire_ok_def)
  then show ?thesis unfolding ev_message(1) engine_message_def by (simp add: on_wire_def stub_step.receive)
next
  case (ev_close sid k order)
  then have "sid \<in> set (s_live (en_stub e))" using inv by (auto simp: engine_inv_def wire_ok_def)
  then show ?thesis unfolding ev_close(1) engine_close_def using ev_close(5) by (simp add: on_wire_def stub_step.close)
qed (simp_all add: on_wire_def engine_connect_def stub_step.connect stub_step.query)

lemma engine_stub: "engine_reachable e \<Longrightarrow> stub_reachable (en_stub e)"
proof (induction rule: reach.induct)
  case (reach_init e)
  then show ?case by (intro reach.reach_init) (simp add: engine_initial_def)
next
  case (reach_step e e')
  from engine_stub_step [OF engine.inv_reach [OF reach_step(1)] reach_step(2)] reach_step(3)
  show ?case by (auto intro: stub_reachable_step)
qed

section \<open>Wedged sessions\<close>

text \<open>The writer has ended, the channel is full, and the handler waits to send: it waits for ever.\<close>

definition wedged :: "string \<Rightarrow> Engine \<Rightarrow> bool" where
  "wedged sid e \<longleftrightarrow> (\<exists>k. en_wires e sid = Some k \<and> \<not> wr_writing k \<and> wr_todo k \<noteq> [] \<and> length (wr_chan k) = 256)"

lemma wedged_on_wire: "wedged sid e \<Longrightarrow> sid \<noteq> x \<Longrightarrow> wedged sid (on_wire x f e)"
  by (simp add: wedged_def on_wire_def)

lemma wedged_step:
  assumes inv: "engine_inv e" and w: "wedged sid e" and st: "engine_step e e'"
  shows "wedged sid e'"
proof -
  obtain k where k: "en_wires e sid = Some k" "\<not> wr_writing k" "wr_todo k \<noteq> []" "length (wr_chan k) = 256"
    using w by (auto simp: wedged_def)
  have r: "wr_reader k = Reading" using inv k by (auto simp: engine_inv_def wire_ok_def)
  have other: "wedged sid (on_wire x f e)"
    if "en_wires e x = Some k'" "wr_writing k' \<or> length (wr_chan k') < 256 \<or> wr_reader k' = Draining" for x k' f
    using that k r w by (cases "x = sid") (auto simp: wedged_on_wire)
  show ?thesis
    using st
  proof cases
    case (ev_connect remoteAddr)
    have "sid \<noteq> session_id remoteAddr (fst (now (s_clock (en_stub e))))"
      using next_session_new [OF _ engine_inv_wire(2) [OF inv k(1)]] inv by (simp add: engine_inv_def)
    then show ?thesis using k by (simp add: ev_connect wedged_def engine_connect_def)
  next
    case ev_query
    then show ?thesis using w by (simp add: wedged_def)
  next
    case (ev_message x k' msg)
    then show ?thesis using k w by (cases "x = sid") (auto simp: engine_message_def wedged_def on_wire_def)
  next
    case (ev_close x k' order)
    then show ?thesis using k w by (cases "x = sid") (auto simp: engine_close_def wedged_def on_wire_def)
  qed (auto intro: other)
qed

interpretation wedge: stable_fact engine_initial engine_step engine_inv "wedged sid" for sid
  by unfold_locales (rule wedged_step)

section \<open>Sample runs\<close>

definition odd_msg :: IncomingMessage where
  "odd_msg = \<lparr>i_Type = ''hello'', i_OrderID = ''a'', i_Side = [], i_OrderType = [], i_Price = 0, i_Quantity = 0\<rparr>"

lemma odd_message: "\<exists>ts. fst (stream_message sid odd_msg ob clk) = [reject ''a'' ''unknown_type'' ts]"
  by (rule exI [of _ "fst (now clk)"]) (simp add: stream_message_def odd_msg_def split_beta)

lemma engine_reachable_step: "engine_reachable e \<Longrightarrow> engine_step e e' \<Longrightarrow> engine_reachable e'"
  by (rule reach_step)

lemma engine_reachable_start: "engine_reachable \<lparr>en_stub = stub_init wl, en_wires = Map.empty\<rparr>"
  by (rule reach_init) (auto simp: engine_initial_def stub_initial_def)

text \<open>Reading such a message leaves one reply to send.\<close>

lemma odd_step:
  assumes "engine_reachable e" and "en_wires e sid = Some k" and "wr_reader k = Reading" and "wr_todo k = []"
  shows "engine_reachable (engine_message sid odd_msg e) \<and>
    (\<exists>m. en_wires (engine_message sid odd_msg e) sid = Some (k\<lparr>wr_todo := [m]\<rparr>))"
proof -
  obtain ts where "fst (stream_message sid odd_msg (s_book (en_stub e)) (s_clock (en_stub e))) = [reject ''a'' ''unknown_type'' ts]"
    using odd_message by blast
  then have "en_wires (engine_message sid odd_msg e) sid = Some (k\<lparr>wr_todo := [reject ''a'' ''unknown_type'' ts]\<rparr>)"
    using assms(2) unfolding engine_message_def on_wire_def by simp
  moreover have "engine_reachable (engine_message sid odd_msg e)"
    using assms(1) by (rule engine_reachable_step) (rule ev_message [OF assms(2-4)])
  ultimately show ?thesis by blast
qed

lemma send_step:
  assumes "engine_reachable e" and "en_wires e sid = Some k" and "wr_todo k \<noteq> []" and "length (wr_chan k) < 256"
  shows "engine_reachable (on_wire sid wire_send e) \<and> en_wires (on_wire sid wire_send e) sid = Some (wire_send k)"
proof
  show "engine_reachable (on_wire sid wire_send e)" using assms(1) by (rule engine_reachable_step) (rule ev_send [OF assms(2-4)])
  show "en_wires (on_wire sid wire_send e) sid = Some (wire_send k)" by (rule on_wire_same [OF assms(2)])
qed

definition first_engine :: Engine where
  "first_engine = engine_connect ''h'' \<lparr>en_stub = stub_init (\<lambda>n. 0), en_wires = Map.empty\<rparr>"

lemma first_engine_reachable: "engine_reachable first_engine"
  unfolding first_engine_def by (rule engine_reachable_step [OF engine_reachable_start]) (rule ev_connect)

lemma first_engine_wire: "en_wires first_engine ''h/1'' = Some fresh_wire"
proof -
  have "session_id ''h'' (fst (now (s_clock (stub_init (\<lambda>n. 0))))) = ''h/1''" by code_simp
  then show ?thesis by (simp add: first_engine_def engine_connect_def)
qed

text \<open>A client that sends messages and reads nothing fills the channel once its writer has ended.\<close>

lemma flooded:
  "n \<le> 256 \<Longrightarrow> \<exists>e k. engine_reachable e \<and> en_wires e ''h/1'' = Some k \<and> \<not> wr_writing k \<and> wr_reader k = Reading \<and>
     wr_todo k = [] \<and> length (wr_chan k) = n"
proof (induction n)
  case 0
  let ?e = "on_wire ''h/1'' wire_stop first_engine"
  have "engine_reachable ?e"
    by (rule engine_reachable_step [OF first_engine_reachable]) (rule ev_stop [OF first_engine_wire], simp add: fresh_wire_def)
  moreover have "en_wires ?e ''h/1'' = Some (wire_stop fresh_wire)" by (simp add: on_wire_def first_engine_wire)
  moreover have "\<not> wr_writing (wire_stop fresh_wire) \<and> wr_reader (wire_stop fresh_wire) = Reading \<and>
      wr_todo (wire_stop fresh_wire) = [] \<and> length (wr_chan (wire_stop fresh_wire)) = 0"
    by (simp add: wire_stop_def fresh_wire_def)
  ultimately show ?case by blast
next
  case (Suc n)
  then obtain e k where e: "engine_reachable e" "en_wires e ''h/1'' = Some k" "\<not> wr_writing k" "wr_reader k = Reading"
    "wr_todo k = []" "length (wr_chan k) = n" by auto
  from odd_step [OF e(1,2,4,5)] obtain m where m: "engine_reachable (engine_message ''h/1'' odd_msg e)"
    "en_wires (engine_message ''h/1'' odd_msg e) ''h/1'' = Some (k\<lparr>wr_todo := [m]\<rparr>)" by blast
  let ?e2 = "on_wire ''h/1'' wire_send (engine_message ''h/1'' odd_msg e)"
  have l: "length (wr_chan (k\<lparr>wr_todo := [m]\<rparr>)) < 256" using e(6) Suc.prems by simp
  have "wr_todo (k\<lparr>wr_todo := [m]\<rparr>) \<noteq> []" by simp
  note st = send_step [OF m this l]
  have "\<not> wr_writing (wire_send (k\<lparr>wr_todo := [m]\<rparr>)) \<and> wr_reader (wire_send (k\<lparr>wr_todo := [m]\<rparr>)) = Reading \<and>
      wr_todo (wire_send (k\<lparr>wr_todo := [m]\<rparr>)) = [] \<and> length (wr_chan (wire_send (k\<lparr>wr_todo := [m]\<rparr>))) = Suc n"
    using e(3-6) by (simp add: wire_send_def)
  with st show ?case by blast
qed

lemma wedged_reachable: "\<exists>e. engine_reachable e \<and> wedged ''h/1'' e"
proof -
  obtain e k where e: "engine_reachable e" "en_wires e ''h/1'' = Some k" "\<not> wr_writing k" "wr_reader k = Reading"
    "wr_todo k = []" "length (wr_chan k) = 256" using flooded [OF order_refl] by blast
  from odd_step [OF e(1,2,4,5)] obtain m where m: "engine_reachable (engine_message ''h/1'' odd_msg e)"
    "en_wires (engine_message ''h/1'' odd_msg e) ''h/1'' = Some (k\<lparr>wr_todo := [m]\<rparr>)" by blast
  have "wedged ''h/1'' (engine_message ''h/1'' odd_msg e)" unfolding wedged_def using m(2) e(3,6) by simp
  with m(1) show ?thesis by blast
qed

section \<open>Properties\<close>

text \<open>
  C8. What a client receives. The frames written to a connection are the first messages the engine
  produced for its session, in that order and without repetition; while the writer runs the others are in
  the channel or about to be sent, and when it has ended at most one message was lost before those. The
  channel never exceeds its capacity, and a session counts as live exactly while its read loop runs.
\<close>

theorem session_delivery:
  assumes "engine_reachable e" and "en_wires e sid = Some k"
  shows "prefix (wr_out k) (produced sid (en_stub e)) \<and>
    (\<exists>lost. produced sid (en_stub e) = wr_out k @ lost @ wr_chan k @ wr_todo k \<and> length lost \<le> 1 \<and> (wr_writing k \<longrightarrow> lost = [])) \<and>
    length (wr_chan k) \<le> 256 \<and> (sid \<in> set (s_live (en_stub e)) \<longleftrightarrow> wr_reader k = Reading)"
  using engine_inv_wire(1) [OF engine.inv_reach [OF assms(1)] assms(2)] by (auto simp: wire_ok_def)

theorem session_delivery_witness:
  "\<exists>(e :: Engine) k. en_wires e ''h/1'' = Some k \<and> length (wr_out k) = 1 \<and> prefix (wr_out k) (produced ''h/1'' (en_stub e))"
proof -
  let ?e1 = "engine_message ''h/1'' odd_msg first_engine"
  let ?e3 = "on_wire ''h/1'' wire_write (on_wire ''h/1'' wire_send ?e1)"
  have f: "wr_reader fresh_wire = Reading" "wr_todo fresh_wire = []" "wr_chan fresh_wire = []" "wr_writing fresh_wire" "wr_out fresh_wire = []"
    by (simp_all add: fresh_wire_def)
  from odd_step [OF first_engine_reachable first_engine_wire f(1,2)] obtain m where m: "engine_reachable ?e1"
    "en_wires ?e1 ''h/1'' = Some (fresh_wire\<lparr>wr_todo := [m]\<rparr>)" by blast
  let ?k = "wire_send (fresh_wire\<lparr>wr_todo := [m]\<rparr>)"
  have t: "wr_todo (fresh_wire\<lparr>wr_todo := [m]\<rparr>) \<noteq> []" "length (wr_chan (fresh_wire\<lparr>wr_todo := [m]\<rparr>)) < 256" by (simp_all add: f)
  from send_step [OF m t] have e2: "engine_reachable (on_wire ''h/1'' wire_send ?e1)"
    "en_wires (on_wire ''h/1'' wire_send ?e1) ''h/1'' = Some ?k" by blast+
  have k: "wr_writing ?k" "wr_chan ?k \<noteq> []" "length (wr_out (wire_write ?k)) = 1" by (simp_all add: wire_send_def wire_write_def f)
  have "engine_reachable ?e3" using e2(1) by (rule engine_reachable_step) (rule ev_write [OF e2(2) k(1,2)])
  moreover have w: "en_wires ?e3 ''h/1'' = Some (wire_write ?k)" by (rule on_wire_same [OF e2(2)])
  ultimately have "prefix (wr_out (wire_write ?k)) (produced ''h/1'' (en_stub ?e3))" using session_delivery by blast
  with w k(3) show ?thesis by (intro exI [of _ ?e3] exI [of _ "wire_write ?k"] conjI)
qed



end
