(* ===== verification/Environment.thy ===== *)
theory Environment
  imports Utf8 Float64 "HOL-Library.Sublist"
begin

text \<open>
  How the services read their configuration: the helpers \<open>envStr\<close>, \<open>envStrSet\<close>, \<open>envInt\<close>, \<open>envInt64\<close>
  and \<open>envFloat\<close> of the \<open>main.go\<close> files, and the functions of Go's \<open>strings\<close> and \<open>strconv\<close> packages
  they use. Every service has its own copy of the helpers.
\<close>

section \<open>Splitting, joining and trimming\<close>

text \<open>\<open>strings.Split\<close> and \<open>strings.Join\<close> for a separator of one byte.\<close>

fun Split :: "char \<Rightarrow> string \<Rightarrow> string list" where
  "Split c [] = [[]]"
| "Split c (x # xs) = (if x = c then [] # Split c xs else (case Split c xs of y # ys \<Rightarrow> (x # y) # ys | [] \<Rightarrow> [[x]]))"

fun Join :: "char \<Rightarrow> string list \<Rightarrow> string" where
  "Join c [] = []"
| "Join c [x] = x"
| "Join c (x # y # ys) = x @ c # Join c (y # ys)"

lemma Split_nonempty [simp]: "Split c s \<noteq> []"
  by (induction s) (auto split: list.splits)

lemma Split_no_sep: "c \<notin> set s \<Longrightarrow> Split c s = [s]"
  by (induction s) auto

lemma Split_append: "c \<notin> set x \<Longrightarrow> Split c (x @ c # s) = x # Split c s"
  by (induction x) auto

lemma Join_Split: "Join c (Split c s) = s"
proof (induction s)
  case (Cons x xs)
  obtain y ys where "Split c xs = y # ys" using Split_nonempty by (cases "Split c xs") auto
  with Cons show ?case by (cases ys) auto
qed simp

lemma Split_Join: "xs \<noteq> [] \<Longrightarrow> \<forall>x \<in> set xs. c \<notin> set x \<Longrightarrow> Split c (Join c xs) = xs"
  by (induction c xs rule: Join.induct) (auto simp: Split_no_sep Split_append)

lemma Split_pieces: "x \<in> set (Split c s) \<Longrightarrow> c \<notin> set x \<and> set x \<subseteq> set s"
proof (induction s arbitrary: x)
  case (Cons a s)
  obtain y ys where y: "Split c s = y # ys" using Split_nonempty by (cases "Split c s") auto
  then have "c \<notin> set y \<and> set y \<subseteq> set s" "\<And>z. z \<in> set ys \<Longrightarrow> c \<notin> set z \<and> set z \<subseteq> set s"
    using Cons.IH by simp_all
  with Cons.prems y show ?case by (auto split: if_splits)
qed simp

text \<open>
  The white space characters of Unicode, as the bytes of their encoding. A text begins or ends with such
  a character exactly when it begins or ends with these bytes.
\<close>

definition space_bytes :: "nat list list" where
  "space_bytes = [[9], [10], [11], [12], [13], [32], [0xC2, 0x85], [0xC2, 0xA0], [0xE1, 0x9A, 0x80]] @
     map (\<lambda>b. [0xE2, 0x80, b]) ([0x80..<0x8B] @ [0xA8, 0xA9, 0xAF]) @ [[0xE2, 0x81, 0x9F], [0xE3, 0x80, 0x80]]"

definition spaces :: "string list" where
  "spaces = map (map char_of) space_bytes"

text \<open>Removes patterns from the front of a text as long as there is one.\<close>

function strip :: "string list \<Rightarrow> string \<Rightarrow> string" where
  "strip ps s = (case find (\<lambda>p. p \<noteq> [] \<and> prefix p s) ps of None \<Rightarrow> s | Some p \<Rightarrow> strip ps (drop (length p) s))"
  by pat_completeness auto
termination
proof (relation "measure (\<lambda>(ps, s). length s)")
  fix ps :: "string list" and s p assume "find (\<lambda>p. p \<noteq> [] \<and> prefix p s) ps = Some p"
  from find_SomeD [OF this] show "((ps, drop (length p) s), (ps, s)) \<in> measure (\<lambda>(ps, s). length s)"
    by (cases s) (auto simp: prefix_def)
qed simp

declare strip.simps [simp del]

definition TrimSpace :: "string \<Rightarrow> string" where
  "TrimSpace s = rev (strip (map rev spaces) (rev (strip spaces s)))"

lemma strip_id: "\<forall>p \<in> set ps. p = [] \<or> \<not> prefix p s \<Longrightarrow> strip ps s = s"
  by (subst strip.simps) (auto split: option.splits dest: find_SomeD)

lemma strip_done: "p \<in> set ps \<Longrightarrow> p \<noteq> [] \<Longrightarrow> \<not> prefix p (strip ps s)"
proof (induction ps s rule: strip.induct)
  case (1 ps s)
  show ?case
  proof (cases "find (\<lambda>p. p \<noteq> [] \<and> prefix p s) ps")
    case None
    then have "strip ps s = s" by (subst strip.simps) simp
    with None "1.prems" show ?thesis by (auto simp: find_None_iff)
  next
    case (Some q)
    then show ?thesis using "1.IH" [OF Some "1.prems"] by (subst strip.simps) simp
  qed
qed

lemma strip_suffix: "suffix (strip ps s) s"
proof (induction ps s rule: strip.induct)
  case (1 ps s)
  then show ?case
    by (subst strip.simps) (auto split: option.splits intro: suffix_order.trans suffix_drop)
qed

text \<open>A text no white space begins or ends.\<close>

definition trimmed :: "string \<Rightarrow> bool" where
  "trimmed s \<longleftrightarrow> list_all (\<lambda>p. \<not> prefix p s \<and> \<not> suffix p s) spaces"

lemma spaces_nonempty: "p \<in> set spaces \<Longrightarrow> p \<noteq> []"
  by (auto simp: spaces_def space_bytes_def)

lemma TrimSpace_id: "trimmed s \<Longrightarrow> TrimSpace s = s"
  by (simp add: TrimSpace_def trimmed_def list_all_iff strip_id suffix_to_prefix)

text \<open>A text that begins and ends with a printable ASCII character is trimmed.\<close>

definition printable :: "char \<Rightarrow> bool" where
  "printable c \<longleftrightarrow> 33 \<le> byte c \<and> byte c \<le> 126"

lemma spaces_not_printable: "list_all (\<lambda>p. p \<noteq> [] \<and> \<not> printable (hd p) \<and> \<not> printable (last p)) spaces"
  by code_simp

lemma trimmed_printable:
  assumes "s \<noteq> []" and "printable (hd s)" and "printable (last s)"
  shows "trimmed s"
proof -
  have "\<not> prefix p s \<and> \<not> suffix p s" if "p \<in> set spaces" for p
  proof -
    have "p \<noteq> []" "\<not> printable (hd p)" "\<not> printable (last p)" using that spaces_not_printable by (auto simp: list_all_iff)
    then show ?thesis using assms by (auto simp: prefix_def suffix_def)
  qed
  then show ?thesis by (simp add: trimmed_def list_all_iff)
qed

lemma TrimSpace_sublist: "sublist (TrimSpace s) s"
proof -
  have "prefix (TrimSpace s) (strip spaces s)"
    using strip_suffix [of "map rev spaces" "rev (strip spaces s)"] by (simp add: TrimSpace_def suffix_to_prefix)
  then show ?thesis using strip_suffix [of spaces s] by (meson prefix_imp_sublist suffix_imp_sublist sublist_order.order.trans)
qed

lemma TrimSpace_trimmed: "trimmed (TrimSpace s)"
proof -
  let ?t = "strip spaces s"
  have pre: "prefix (TrimSpace s) ?t"
    using strip_suffix [of "map rev spaces" "rev ?t"] by (simp add: TrimSpace_def suffix_to_prefix)
  have "\<not> prefix p (TrimSpace s)" if "p \<in> set spaces" for p
    using strip_done [OF that spaces_nonempty [OF that]] pre prefix_order.trans by blast
  moreover have "\<not> suffix p (TrimSpace s)" if "p \<in> set spaces" for p
    using strip_done [of "rev p" "map rev spaces" "rev ?t"] that spaces_nonempty [OF that]
    by (simp add: TrimSpace_def suffix_to_prefix)
  ultimately show ?thesis by (simp add: trimmed_def list_all_iff)
qed

section \<open>Numbers\<close>

text \<open>The sign of a number and the rest of the text.\<close>

fun sign_of :: "string \<Rightarrow> bool \<times> string" where
  "sign_of (CHR ''-'' # s) = (True, s)"
| "sign_of (CHR ''+'' # s) = (False, s)"
| "sign_of s = (False, s)"

text \<open>\<open>strconv.Atoi\<close> and \<open>strconv.ParseInt(s, 10, 64)\<close>: decimal, with range errors.\<close>

definition Atoi :: "string \<Rightarrow> int option" where
  "Atoi s =
     (let (neg, ds) = sign_of s; v = (if neg then - int (digits_val ds) else int (digits_val ds))
      in if ds \<noteq> [] \<and> list_all is_digit ds \<and> - (2 ^ 63) \<le> v \<and> v < 2 ^ 63 then Some v else None)"

lemma Atoi_range: "Atoi s = Some v \<Longrightarrow> - (2 ^ 63) \<le> v \<and> v < 2 ^ 63"
  by (auto simp: Atoi_def Let_def split: prod.splits if_splits)

lemma dec_nat_not_empty: "dec_nat n \<noteq> []"
  by (subst dec_nat.simps) simp

lemma sign_of_digits: "list_all is_digit ds \<Longrightarrow> sign_of ds = (False, ds)"
  by (cases ds rule: sign_of.cases) (auto simp: is_digit_def byte_def)

lemma Atoi_dec: "- (2 ^ 63) \<le> v \<Longrightarrow> v < 2 ^ 63 \<Longrightarrow> Atoi (dec v) = Some v"
proof -
  assume r: "- (2 ^ 63) \<le> v" "v < 2 ^ 63"
  have d: "list_all is_digit (dec_nat n)" for n using dec_nat_digits by (simp add: list_all_iff)
  show ?thesis
    using r by (simp add: Atoi_def dec_def d dec_nat_not_empty sign_of_digits) linarith
qed

text \<open>
  \<open>strconv.ParseFloat(s, 64)\<close>: the special names, or a decimal or hexadecimal number in Go's notation,
  rounded to the nearest value; a number beyond the largest value is a range error.
\<close>

definition lower :: "char \<Rightarrow> char" where
  "lower c = (if 65 \<le> byte c \<and> byte c \<le> 90 then char_of (byte c + 32) else c)"

definition special_float :: "string \<Rightarrow> float64 option" where
  "special_float s =
     (let (neg, t) = sign_of s; name = map lower t
      in if name \<in> {''inf'', ''infinity''} then Some (Inf (\<not> neg))
         else if map lower s = ''nan'' then Some NaN else None)"

definition is_hex :: "char \<Rightarrow> bool" where
  "is_hex c \<longleftrightarrow> is_digit c \<or> lower c \<in> set ''abcdef''"

definition digit_val :: "char \<Rightarrow> nat" where
  "digit_val c = (if is_digit c then byte c - 48 else byte (lower c) - 87)"

text \<open>
  The mantissa: digits with at most one point, underscores skipped. Gives the value of the digits, how
  many stand after the point, whether there was a digit, and the rest.
\<close>

fun read_mantissa :: "bool \<Rightarrow> bool \<Rightarrow> nat \<Rightarrow> nat \<Rightarrow> bool \<Rightarrow> string \<Rightarrow> nat \<times> nat \<times> bool \<times> string" where
  "read_mantissa hex dot v k seen [] = (v, k, seen, [])"
| "read_mantissa hex dot v k seen (c # cs) =
     (if c = CHR ''_'' then read_mantissa hex dot v k seen cs
      else if c = CHR ''.'' then (if dot then (v, k, seen, c # cs) else read_mantissa hex True v k seen cs)
      else if (if hex then is_hex c else is_digit c)
      then read_mantissa hex dot ((if hex then 16 else 10) * v + digit_val c) (if dot then Suc k else k) True cs
      else (v, k, seen, c # cs))"

text \<open>The exponent's digits; it stops growing at ten thousand.\<close>

fun read_exponent :: "nat \<Rightarrow> string \<Rightarrow> nat \<times> string" where
  "read_exponent e [] = (e, [])"
| "read_exponent e (c # cs) =
     (if c = CHR ''_'' then read_exponent e cs
      else if is_digit c then read_exponent (if e < 10000 then 10 * e + digit_val c else e) cs
      else (e, c # cs))"

text \<open>Underscores stand between digits, or between a base prefix and a digit; \<open>saw\<close> is the kind of the last character.\<close>

datatype saw = SawStart | SawDigit | SawUnderscore | SawOther

fun underscores_ok :: "bool \<Rightarrow> saw \<Rightarrow> string \<Rightarrow> bool" where
  "underscores_ok hex saw [] = (saw \<noteq> SawUnderscore)"
| "underscores_ok hex saw (c # cs) =
     (if is_digit c \<or> hex \<and> is_hex c then underscores_ok hex SawDigit cs
      else if c = CHR ''_'' then saw = SawDigit \<and> underscores_ok hex SawUnderscore cs
      else saw \<noteq> SawUnderscore \<and> underscores_ok hex SawOther cs)"

definition underscoreOK :: "string \<Rightarrow> bool" where
  "underscoreOK s =
     (case snd (sign_of s) of
        c # b # cs \<Rightarrow>
          if c = CHR ''0'' \<and> lower b \<in> set ''box'' then underscores_ok (lower b = CHR ''x'') SawDigit cs
          else underscores_ok False SawStart (c # b # cs)
      | t \<Rightarrow> underscores_ok False SawStart t)"

definition readFloat :: "string \<Rightarrow> rat option" where
  "readFloat s =
     (let (neg, t) = sign_of s;
          (hex, u) = (case t of c # x # d # cs \<Rightarrow> if c = CHR ''0'' \<and> lower x = CHR ''x'' then (True, d # cs) else (False, t)
                      | _ \<Rightarrow> (False, t));
          (v, k, seen, r) = read_mantissa hex False 0 0 False u;
          sgn = (if neg then - 1 else 1 :: rat);
          frac = of_nat v / (if hex then 16 else 10) ^ k
      in if \<not> seen then None
         else case r of
           [] \<Rightarrow> if hex \<or> \<not> underscoreOK s then None else Some (sgn * frac)
         | c # cs \<Rightarrow>
             if lower c \<noteq> (if hex then CHR ''p'' else CHR ''e'') then None
             else (case sign_of cs of (eneg, ds) \<Rightarrow>
               if ds = [] \<or> \<not> is_digit (hd ds) then None
               else (case read_exponent 0 ds of (e, rest) \<Rightarrow>
                 if rest \<noteq> [] \<or> \<not> underscoreOK s then None
                 else Some (sgn * frac * (if hex then 2 else 10) powi (if eneg then - int e else int e)))))"

definition ParseFloat :: "string \<Rightarrow> float64 option" where
  "ParseFloat s =
     (case special_float s of Some x \<Rightarrow> Some x
      | None \<Rightarrow> (case readFloat s of None \<Rightarrow> None
          | Some q \<Rightarrow> (case f64 q of Fin x \<Rightarrow> Some (Fin x) | _ \<Rightarrow> None)))"

lemma ParseFloat_examples:
  "ParseFloat ''nan'' = Some NaN" "ParseFloat ''.5'' = Some (Fin (1 / 2))" "ParseFloat ''1e3'' = Some (Fin 1000)"
  "ParseFloat ''0x1p-2'' = Some (Fin (1 / 4))" "ParseFloat ''1_0.5'' = Some (Fin (21 / 2))" "ParseFloat ''0x1'' = None"
  "ParseFloat ''1__0'' = None" "ParseFloat ''12us'' = None"
  by code_simp+

section \<open>Reading the environment\<close>

type_synonym environ = "string \<rightharpoonup> string"

definition Getenv :: "environ \<Rightarrow> string \<Rightarrow> string" where
  "Getenv env key = (case env key of None \<Rightarrow> [] | Some v \<Rightarrow> v)"

definition envStr :: "environ \<Rightarrow> string \<Rightarrow> string \<Rightarrow> string" where
  "envStr env key def = (let v = Getenv env key in if v \<noteq> [] then v else def)"

definition envStrSet :: "environ \<Rightarrow> string \<Rightarrow> string \<Rightarrow> string" where
  "envStrSet env key def = (if env key \<noteq> None then Getenv env key else def)"

definition envInt :: "environ \<Rightarrow> string \<Rightarrow> int \<Rightarrow> int" where
  "envInt env key def =
     (let v = Getenv env key in if v \<noteq> [] then (case Atoi v of Some n \<Rightarrow> n | None \<Rightarrow> def) else def)"

definition envInt64 :: "environ \<Rightarrow> string \<Rightarrow> int64 \<Rightarrow> int64" where
  "envInt64 env key def =
     (let v = Getenv env key in if v \<noteq> [] then (case Atoi v of Some n \<Rightarrow> word_of_int n | None \<Rightarrow> def) else def)"

definition envFloat :: "environ \<Rightarrow> string \<Rightarrow> float64 \<Rightarrow> float64" where
  "envFloat env key def =
     (let v = Getenv env key in if v \<noteq> [] then (case ParseFloat v of Some f \<Rightarrow> f | None \<Rightarrow> def) else def)"

text \<open>The brokers of \<open>REDPANDA_BROKERS\<close>: the pieces between commas, trimmed, empty ones left out.\<close>

definition broker_list :: "string \<Rightarrow> string list" where
  "broker_list raw = filter (\<lambda>b. b \<noteq> []) (map TrimSpace (Split (CHR '','') raw))"

definition broker_ok :: "string \<Rightarrow> bool" where
  "broker_ok b \<longleftrightarrow> b \<noteq> [] \<and> CHR '','' \<notin> set b \<and> trimmed b"

lemma broker_list_ok: "list_all broker_ok (broker_list raw)"
proof -
  have "CHR '','' \<notin> set (TrimSpace x)" if "x \<in> set (Split (CHR '','') raw)" for x
    using Split_pieces [OF that] set_mono_sublist [OF TrimSpace_sublist [of x]] by blast
  then show ?thesis by (auto simp: broker_list_def broker_ok_def TrimSpace_trimmed list_all_iff)
qed

text \<open>Brokers that are joined by one service and split by another arrive as they were.\<close>

lemma broker_list_Join: "list_all broker_ok bs \<Longrightarrow> broker_list (Join (CHR '','') bs) = bs"
proof (cases "bs = []")
  case True
  have "TrimSpace [] = []" using TrimSpace_sublist [of "[]"] by simp
  with True show ?thesis by (simp add: broker_list_def)
next
  case False
  assume ok: "list_all broker_ok bs"
  then have "Split (CHR '','') (Join (CHR '','') bs) = bs" using False by (intro Split_Join) (auto simp: broker_ok_def list_all_iff)
  moreover have "map TrimSpace bs = bs" using ok by (intro map_idI) (auto simp: broker_ok_def list_all_iff TrimSpace_id)
  moreover have "filter (\<lambda>b. b \<noteq> []) bs = bs" using ok by (auto simp: broker_ok_def list_all_iff filter_id_conv)
  ultimately show ?thesis by (simp add: broker_list_def)
qed

lemma envInt_range:
  "- (2 ^ 63) \<le> def \<Longrightarrow> def < 2 ^ 63 \<Longrightarrow> - (2 ^ 63) \<le> envInt env key def \<and> envInt env key def < 2 ^ 63"
  by (auto simp: envInt_def Let_def dest: Atoi_range split: option.splits)

text \<open>A value that one service prints is what another reads.\<close>

lemma dec_not_empty [simp]: "dec v \<noteq> []"
  by (simp add: dec_def dec_nat_not_empty)

lemma envInt_dec: "env key = Some (dec v) \<Longrightarrow> - (2 ^ 63) \<le> v \<Longrightarrow> v < 2 ^ 63 \<Longrightarrow> envInt env key def = v"
  by (simp add: envInt_def Getenv_def Atoi_dec)

lemma envStr_Some: "env key = Some v \<Longrightarrow> envStr env key def = (if v = [] then def else v)"
  by (simp add: envStr_def Getenv_def)

lemma envStr_None: "env key = None \<Longrightarrow> envStr env key def = def"
  by (simp add: envStr_def Getenv_def)

end
