(* ===== verification/Configuration.thy ===== *)
theory Configuration
  imports Environment Telemetry Submission_Api Build_Service Sandbox_Orchestrator Bot_Orchestrator
begin

text \<open>
  The configuration each service reads when it starts, and the course of its \<open>run\<close>: constructing the
  clients, serving, and the deferred calls that close them again. The constructors of clients, the end of
  the serving loop and the shutdown of the HTTP server are arguments.
\<close>

section \<open>Durations\<close>

text \<open>\<open>time.Duration(n) * time.Second\<close>: nanoseconds in 64 bits, wrapping around.\<close>

definition seconds :: "int \<Rightarrow> int64" where
  "seconds n = word_of_int n * 1000000000"

definition milliseconds :: "int \<Rightarrow> int64" where
  "milliseconds n = word_of_int n * 1000000"

lemma sint_of_int64: "- (2 ^ 63) \<le> x \<Longrightarrow> x < 2 ^ 63 \<Longrightarrow> sint (word_of_int x :: int64) = x"
  by (simp add: sint_sbintrunc' signed_take_bit_int_eq_self)

lemma seconds_exact:
  assumes "\<bar>n\<bar> \<le> 9223372036"
  shows "sint (seconds n) = n * 1000000000"
proof -
  have "- (2 ^ 63) \<le> n * 1000000000" "n * 1000000000 < 2 ^ 63" using assms by auto
  from sint_of_int64 [OF this] have "sint (word_of_int (n * 1000000000) :: int64) = n * 1000000000" .
  then show ?thesis by (simp add: seconds_def del: sint_of_int64)
qed

lemma seconds_wraps: "sint (seconds 9223372037) < 0"
  by (simp add: seconds_def)

section \<open>Settings\<close>

definition seaweedfs :: string where
  "seaweedfs = ''http://seaweedfs.platform.svc.cluster.local:8333''"

definition redpanda :: string where
  "redpanda = ''redpanda.platform.svc.cluster.local:9092''"

text \<open>The stub engine.\<close>

record StubSettings =
  st_Latency :: int64
  st_Port :: string

definition stub_settings :: "environ \<Rightarrow> StubSettings" where
  "stub_settings env =
     \<lparr>st_Latency = (let v = Getenv env ''STUB_LATENCY_MS''
         in if v \<noteq> [] then (case Atoi v of Some ms \<Rightarrow> milliseconds ms | None \<Rightarrow> 0) else 0),
      st_Port = (let port = Getenv env ''PORT'' in if port = [] then ''8080'' else port)\<rparr>"

text \<open>The submission API; its brokers are not trimmed.\<close>

record ApiSettings =
  ap_Endpoint :: string
  ap_Brokers :: "string list"
  ap_Topic :: string
  ap_Bucket :: string
  ap_Port :: string
  ap_MaxUploadMB :: int64

definition api_settings :: "environ \<Rightarrow> ApiSettings" where
  "api_settings env =
     \<lparr>ap_Endpoint = envStr env ''SEAWEEDFS_ENDPOINT'' seaweedfs,
      ap_Brokers = Split (CHR '','') (envStr env ''REDPANDA_BROKERS'' redpanda),
      ap_Topic = envStr env ''KAFKA_TOPIC'' ''submission.lifecycle'',
      ap_Bucket = envStr env ''S3_BUCKET'' ''submissions'',
      ap_Port = envStr env ''PORT'' ''8080'',
      ap_MaxUploadMB = envInt64 env ''MAX_UPLOAD_SIZE_MB'' 128\<rparr>"

text \<open>The limit \<open>NewHandler\<close> computes, in bytes.\<close>

definition maxBytes :: "int64 \<Rightarrow> int64" where
  "maxBytes maxMB = maxMB * 1024 * 1024"

record BuildSettings =
  bs_Endpoint :: string
  bs_Brokers :: "string list"
  bs_Topic :: string
  bs_MaxLogBytes :: int

definition build_settings :: "environ \<Rightarrow> BuildSettings" where
  "build_settings env =
     \<lparr>bs_Endpoint = envStr env ''SEAWEEDFS_ENDPOINT'' seaweedfs,
      bs_Brokers = broker_list (envStr env ''REDPANDA_BROKERS'' redpanda),
      bs_Topic = envStr env ''KAFKA_TOPIC'' ''submission.lifecycle'',
      bs_MaxLogBytes = envInt env ''MAX_LOG_BYTES'' 4096\<rparr>"

record SandboxSettings =
  ss_Endpoint :: string
  ss_Brokers :: "string list"
  ss_Topic :: string
  ss_Config :: SandboxConfig

definition sandbox_settings :: "environ \<Rightarrow> SandboxSettings" where
  "sandbox_settings env =
     \<lparr>ss_Endpoint = envStr env ''SEAWEEDFS_ENDPOINT'' seaweedfs,
      ss_Brokers = broker_list (envStr env ''REDPANDA_BROKERS'' redpanda),
      ss_Topic = envStr env ''KAFKA_TOPIC'' ''submission.lifecycle'',
      ss_Config =
        \<lparr>Timeout = seconds (envInt env ''SANDBOX_TIMEOUT_SECONDS'' 60),
         MaxLogBytes = envInt env ''MAX_LOG_BYTES'' 4096,
         CpuRequest = envStr env ''SANDBOX_CPU_REQUEST'' ''2'',
         CpuLimit = envStr env ''SANDBOX_CPU_LIMIT'' ''2'',
         MemoryRequest = envStr env ''SANDBOX_MEMORY_REQUEST'' ''512Mi'',
         MemoryLimit = envStr env ''SANDBOX_MEMORY_LIMIT'' ''512Mi'',
         SeccompPath = envStrSet env ''SANDBOX_SECCOMP_PROFILE_PATH'' ''sandbox-seccomp.json'',
         SandboxUser = word_of_int (envInt env ''SANDBOX_RUN_AS_USER'' 65534),
         NodeSelectorK = envStrSet env ''SANDBOX_NODE_SELECTOR_KEY'' ''workload'',
         NodeSelectorV = envStrSet env ''SANDBOX_NODE_SELECTOR_VALUE'' ''sandbox'',
         TolerationK = envStrSet env ''SANDBOX_TOLERATION_KEY'' ''workload'',
         TolerationV = envStrSet env ''SANDBOX_TOLERATION_VALUE'' ''sandbox''\<rparr>\<rparr>"

record OrchSettings =
  or_Brokers :: "string list"
  or_Topic :: string
  or_Config :: OrchConfig

definition orch_settings :: "environ \<Rightarrow> OrchSettings" where
  "orch_settings env =
     (let brokers = broker_list (envStr env ''REDPANDA_BROKERS'' redpanda)
      in \<lparr>or_Brokers = brokers,
          or_Topic = envStr env ''KAFKA_TOPIC'' ''submission.lifecycle'',
          or_Config =
            \<lparr>NumBots = envInt env ''NUM_BOTS'' 50,
             DurationSeconds = envInt env ''DURATION_SECONDS'' 60,
             JobTimeoutSec = envInt env ''JOB_TIMEOUT_SECONDS'' 120,
             WarmupSeconds = envInt env ''WARMUP_SECONDS'' 15,
             RedpandaBrokers = Join (CHR '','') brokers,
             BotRunnerImage = envStr env ''BOT_RUNNER_IMAGE'' ''bot-runner:dev'',
             SandboxNamespace = envStr env ''SANDBOX_NAMESPACE'' ''sandboxes''\<rparr>\<rparr>)"

record IngesterSettings =
  is_Brokers :: "string list"
  is_DSN :: string
  is_Topic :: string
  is_RedisAddr :: string
  is_RedisPass :: string
  is_MaxLatencyUS :: float64
  is_MaxTPS :: float64

text \<open>An empty connection string is refused.\<close>

definition ingester_settings :: "environ \<Rightarrow> string + IngesterSettings" where
  "ingester_settings env =
     (let brokers = broker_list (envStr env ''REDPANDA_BROKERS'' redpanda);
          dsn = envStr env ''TIMESCALEDB_DSN'' []
      in if dsn = [] then Inl ''TIMESCALEDB_DSN must be set''
         else Inr \<lparr>is_Brokers = brokers, is_DSN = dsn, is_Topic = envStr env ''KAFKA_TOPIC'' ''bot.metrics'',
                is_RedisAddr = envStr env ''REDIS_ADDR'' ''redis.platform.svc.cluster.local:6379'',
                is_RedisPass = envStr env ''REDIS_PASSWORD'' [],
                is_MaxLatencyUS = envFloat env ''MAX_LATENCY_US'' (Fin 50000), is_MaxTPS = envFloat env ''MAX_TPS'' (Fin 1000)\<rparr>)"

record BoardSettings =
  bo_RedisAddr :: string
  bo_RedisPass :: string
  bo_Port :: string

definition board_settings :: "environ \<Rightarrow> BoardSettings" where
  "board_settings env =
     \<lparr>bo_RedisAddr = envStr env ''REDIS_ADDR'' ''redis.platform.svc.cluster.local:6379'',
      bo_RedisPass = envStr env ''REDIS_PASSWORD'' [], bo_Port = envStr env ''PORT'' ''8090''\<rparr>"

lemma orch_settings_ranges:
  "- (2 ^ 63) \<le> NumBots (or_Config (orch_settings env)) \<and> NumBots (or_Config (orch_settings env)) < 2 ^ 63"
  "- (2 ^ 63) \<le> DurationSeconds (or_Config (orch_settings env)) \<and> DurationSeconds (or_Config (orch_settings env)) < 2 ^ 63"
  by (simp_all add: orch_settings_def Let_def del: power_numeral) (rule envInt_range; simp)+

section \<open>Running\<close>

datatype resource = RPublisher | ROrchestrator | RConsumer | RIngester | RHealthServer | RRedis

datatype life = Opened resource | Closed resource

text \<open>What follows \<open>defer x.Close()\<close>: the rest of the function, and then the close.\<close>

definition deferring :: "resource \<Rightarrow> 'a \<times> life list \<Rightarrow> 'a \<times> life list" where
  "deferring r rest = (fst rest, Opened r # snd rest @ [Closed r])"

text \<open>The end of a consumer loop is an error of the service unless its context is over.\<close>

definition consumer_error :: "run_end \<Rightarrow> bool \<Rightarrow> string \<Rightarrow> string option" where
  "consumer_error e ctx_over msg = (if e = Cancelled \<or> ctx_over then None else Some (''consumer: '' @ msg))"

type_synonym run_result = "string option \<times> life list"

text \<open>The answers of constructors: an error text, or success.\<close>

type_synonym make = "string option"

definition api_run :: "make \<Rightarrow> make \<Rightarrow> make \<Rightarrow> run_result" where
  "api_run storage publisher serve =
     (case storage of Some e \<Rightarrow> (Some (''init storage: '' @ e), [])
      | None \<Rightarrow> (case publisher of Some e \<Rightarrow> (Some (''init publisher: '' @ e), [])
          | None \<Rightarrow> deferring RPublisher (serve, [])))"

definition build_run :: "make \<Rightarrow> make \<Rightarrow> make \<Rightarrow> run_end \<Rightarrow> bool \<Rightarrow> string \<Rightarrow> run_result" where
  "build_run publisher builder consumer loop_end ctx_over msg =
     (case publisher of Some e \<Rightarrow> (Some (''init publisher: '' @ e), [])
      | None \<Rightarrow> deferring RPublisher
          (case builder of Some e \<Rightarrow> (Some (''init builder: '' @ e), [])
           | None \<Rightarrow> (case consumer of Some e \<Rightarrow> (Some (''init consumer: '' @ e), [])
               | None \<Rightarrow> deferring RConsumer (consumer_error loop_end ctx_over msg, []))))"

definition sandbox_run :: "make \<Rightarrow> make \<Rightarrow> make \<Rightarrow> run_end \<Rightarrow> bool \<Rightarrow> string \<Rightarrow> run_result" where
  "sandbox_run publisher orchestrator consumer loop_end ctx_over msg =
     (case publisher of Some e \<Rightarrow> (Some (''init publisher: '' @ e), [])
      | None \<Rightarrow> deferring RPublisher
          (case orchestrator of Some e \<Rightarrow> (Some (''init orchestrator: '' @ e), [])
           | None \<Rightarrow> deferring ROrchestrator
               (case consumer of Some e \<Rightarrow> (Some (''init consumer: '' @ e), [])
                | None \<Rightarrow> deferring RConsumer (consumer_error loop_end ctx_over msg, []))))"

text \<open>The HTTP server of the bot orchestrator is shut down once the context is over.\<close>

definition orch_run :: "make \<Rightarrow> make \<Rightarrow> make \<Rightarrow> make \<Rightarrow> run_result" where
  "orch_run publisher orchestrator consumer shutdown =
     (case publisher of Some e \<Rightarrow> (Some (''init publisher: '' @ e), [])
      | None \<Rightarrow> deferring RPublisher
          (case orchestrator of Some e \<Rightarrow> (Some (''init orchestrator: '' @ e), [])
           | None \<Rightarrow> (case consumer of Some e \<Rightarrow> (Some (''init consumer: '' @ e), [])
               | None \<Rightarrow> deferring RConsumer
                   (case shutdown of Some e \<Rightarrow> (Some (''http server shutdown: '' @ e), []) | None \<Rightarrow> (None, [])))))"

text \<open>A failed shutdown of the health server is only logged.\<close>

definition ingester_run :: "environ \<Rightarrow> (IngesterSettings \<Rightarrow> make) \<Rightarrow> make \<Rightarrow> run_result" where
  "ingester_run env ingester consumer =
     (case ingester_settings env of Inl e \<Rightarrow> (Some e, [])
      | Inr s \<Rightarrow> (case ingester s of Some e \<Rightarrow> (Some (''init ingester: '' @ e), [])
          | None \<Rightarrow> deferring RIngester
              (case consumer of Some e \<Rightarrow> (Some (''init consumer: '' @ e), [])
               | None \<Rightarrow> deferring RConsumer (deferring RHealthServer (None, [])))))"

definition board_run :: "make \<Rightarrow> make \<Rightarrow> run_result" where
  "board_run frontend shutdown = deferring RRedis
     (case frontend of Some e \<Rightarrow> (Some (''fs.Sub: '' @ e), [])
      | None \<Rightarrow> (case shutdown of Some e \<Rightarrow> (Some (''http server shutdown: '' @ e), []) | None \<Rightarrow> (None, [])))"

text \<open>Every resource that is opened is closed, the last one first.\<close>

fun nested :: "resource list \<Rightarrow> life list \<Rightarrow> bool" where
  "nested held [] = (held = [])"
| "nested held (Opened r # ls) = nested (r # held) ls"
| "nested held (Closed r # ls) = (held \<noteq> [] \<and> hd held = r \<and> nested (tl held) ls)"

lemma nested_append: "nested xs ls \<Longrightarrow> nested (xs @ ys) (ls @ ms) = nested ys ms"
proof (induction xs ls rule: nested.induct)
  case (3 op r ls)
  then show ?case by (cases op) auto
qed auto

lemma nested_deferring: "nested [] (snd rest) \<Longrightarrow> nested [] (snd (deferring r rest))"
  using nested_append [of "[]" "snd rest" "[r]" "[Closed r]"] by (simp add: deferring_def)

lemma fst_deferring [simp]: "fst (deferring r rest) = fst rest"
  by (simp add: deferring_def)

lemma runs_release:
  "nested [] (snd (api_run a b c))" "nested [] (snd (build_run a b c e ctx msg))"
  "nested [] (snd (sandbox_run a b c e ctx msg))" "nested [] (snd (orch_run a b c d))"
  "nested [] (snd (ingester_run env f c))" "nested [] (snd (board_run a b))"
  by (auto simp: api_run_def build_run_def sandbox_run_def orch_run_def ingester_run_def board_run_def
    intro!: nested_deferring split: option.splits sum.splits)

end
