(* ===== verification/Runner_Main.thy ===== *)
theory Runner_Main
  imports Bot_Runner Configuration
begin

text \<open>
  The bot runner as a program (\<open>run\<close> in \<open>src/services/bot-runner/main.go\<close>): its configuration, the
  correctness phase, the load test and the publication; and the job in which the bot orchestrator starts
  it, whose environment is this configuration.
\<close>

section \<open>Configuration\<close>

record RunnerSettings =
  rn_Endpoint :: string
  rn_NumBots :: int
  rn_DurationSec :: int
  rn_TeamName :: string
  rn_SubmissionID :: string
  rn_Topic :: string
  rn_Brokers :: "string list"

definition runner_settings :: "environ \<Rightarrow> RunnerSettings" where
  "runner_settings env =
     \<lparr>rn_Endpoint = envStr env ''TARGET_ENDPOINT'' ''ws://localhost:8080/stream'',
      rn_NumBots = envInt env ''NUM_BOTS'' 10,
      rn_DurationSec = envInt env ''DURATION_SECONDS'' 30,
      rn_TeamName = envStr env ''TEAM_NAME'' ''unknown'',
      rn_SubmissionID = envStr env ''TEST_RUN_ID'' [],
      rn_Topic = envStr env ''KAFKA_TOPIC'' ''bot.metrics'',
      rn_Brokers = broker_list (envStr env ''REDPANDA_BROKERS'' [])\<rparr>"

section \<open>The run\<close>

text \<open>
  What a run meets: the Kafka client's construction, the score of the correctness phase against an
  endpoint, the load test (the bots' metrics, the time it took and whether its context was over at the
  end), whether the broker takes the record, and the time of publication.
\<close>

record 'h RunnerWorld =
  rw_client :: "string list \<Rightarrow> string option"
  rw_exam :: "string \<Rightarrow> float64"
  rw_load :: "string \<Rightarrow> (int64 \<times> Sequence) list \<Rightarrow> int64 \<Rightarrow> 'h BotMetrics list \<times> int64 \<times> bool"
  rw_broker_ok :: bool
  rw_now :: int64

datatype runner_end = RunnerPanicked | RunnerFailed string | RunnerDone

text \<open>A negative number of bots is a panic, when the slice of bots is made. Gives the end and what is on the topic.\<close>

definition runner_run ::
    "'h Histogram \<Rightarrow> ('h \<Rightarrow> 'h \<Rightarrow> int \<times> 'h) \<Rightarrow> 'h \<Rightarrow> 'h RunnerWorld \<Rightarrow> environ \<Rightarrow> runner_end \<times> (string \<times> BotMetricsEvent) list" where
  "runner_run H Merge h w env =
     (let s = runner_settings env; duration = seconds (rn_DurationSec s); has_client = (rn_Brokers s \<noteq> [])
      in case (if has_client then rw_client w (rn_Brokers s) else None) of
           Some e \<Rightarrow> (RunnerFailed (''failed to create kafka client: '' @ e), [])
         | None \<Rightarrow>
             (let score = rw_exam w (rn_Endpoint s)
              in if rn_NumBots s < 0 then (RunnerPanicked, [])
                 else case rw_load w (rn_Endpoint s) (assign_bots (nat (rn_NumBots s))) duration of
                   (bots, elapsed, ctx_over) \<Rightarrow>
                     (if ctx_over then RunnerFailed ''context deadline exceeded'' else RunnerDone,
                      run_finish ctx_over has_client (rw_broker_ok w) H Merge h bots elapsed
                        (rn_TeamName s) (rn_SubmissionID s) score (rw_now w))))"

section \<open>Started by the orchestrator\<close>

text \<open>The environment of the runner's container: the image's variables, overridden by those of the job.\<close>

definition job_environ :: "environ \<Rightarrow> Job \<Rightarrow> environ" where
  "job_environ base job = base ++ map_of (ct_Env (hd (job_Containers job)))"

lemma job_environ_lookup:
  "job_environ base (bot_job cfg event) ''TARGET_ENDPOINT'' = Some (''ws://'' @ sr_PodIP event @ '':'' @ dec (sr_WSPort event) @ ''/stream'')"
  "job_environ base (bot_job cfg event) ''NUM_BOTS'' = Some (dec (NumBots cfg))"
  "job_environ base (bot_job cfg event) ''DURATION_SECONDS'' = Some (dec (DurationSeconds cfg))"
  "job_environ base (bot_job cfg event) ''TEAM_NAME'' = Some (sr_TeamName event)"
  "job_environ base (bot_job cfg event) ''TEST_RUN_ID'' = Some (sr_SubmissionID event)"
  "job_environ base (bot_job cfg event) ''REDPANDA_BROKERS'' = Some (RedpandaBrokers cfg)"
  "job_environ base (bot_job cfg event) ''KAFKA_TOPIC'' = base ''KAFKA_TOPIC''"
  by (simp_all add: job_environ_def bot_job_def map_add_def)

lemma orch_brokers:
  "broker_list (envStr (e(''REDPANDA_BROKERS'' \<mapsto> RedpandaBrokers (or_Config (orch_settings env)))) ''REDPANDA_BROKERS'' []) =
     or_Brokers (orch_settings env)"
proof -
  have "broker_list (RedpandaBrokers (or_Config (orch_settings env))) = or_Brokers (orch_settings env)"
    by (simp add: orch_settings_def Let_def broker_list_Join broker_list_ok)
  then show ?thesis by (simp add: envStr_Some)
qed

lemma runner_of_job:
  "runner_settings (job_environ base (bot_job (or_Config (orch_settings env)) event)) =
     \<lparr>rn_Endpoint = ''ws://'' @ sr_PodIP event @ '':'' @ dec (sr_WSPort event) @ ''/stream'',
      rn_NumBots = NumBots (or_Config (orch_settings env)),
      rn_DurationSec = DurationSeconds (or_Config (orch_settings env)),
      rn_TeamName = (if sr_TeamName event = [] then ''unknown'' else sr_TeamName event),
      rn_SubmissionID = sr_SubmissionID event,
      rn_Topic = envStr base ''KAFKA_TOPIC'' ''bot.metrics'',
      rn_Brokers = or_Brokers (orch_settings env)\<rparr>"
proof -
  let ?cfg = "or_Config (orch_settings env)"
  let ?env = "job_environ base (bot_job ?cfg event)"
  have "envInt ?env ''NUM_BOTS'' 10 = NumBots ?cfg"
    by (rule envInt_dec [where key = "''NUM_BOTS''"]) (use orch_settings_ranges(1) [of env] job_environ_lookup(2) in blast)+
  moreover have "envInt ?env ''DURATION_SECONDS'' 30 = DurationSeconds ?cfg"
    by (rule envInt_dec [where key = "''DURATION_SECONDS''"]) (use orch_settings_ranges(2) [of env] job_environ_lookup(3) in blast)+
  moreover have "broker_list (envStr ?env ''REDPANDA_BROKERS'' []) = or_Brokers (orch_settings env)"
    using orch_brokers [of Map.empty env] by (simp add: envStr_def Getenv_def job_environ_lookup)
  moreover have "envStr ?env ''KAFKA_TOPIC'' ''bot.metrics'' = envStr base ''KAFKA_TOPIC'' ''bot.metrics''"
    by (simp add: envStr_def Getenv_def job_environ_lookup)
  moreover have "envStr ?env ''TARGET_ENDPOINT'' ''ws://localhost:8080/stream'' =
      ''ws://'' @ sr_PodIP event @ '':'' @ dec (sr_WSPort event) @ ''/stream''"
    "envStr ?env ''TEAM_NAME'' ''unknown'' = (if sr_TeamName event = [] then ''unknown'' else sr_TeamName event)"
    "envStr ?env ''TEST_RUN_ID'' [] = sr_SubmissionID event"
    by (simp_all add: envStr_def Getenv_def job_environ_lookup Let_def)
  ultimately show ?thesis by (simp add: runner_settings_def)
qed

section \<open>Sample data\<close>

definition demo_sandbox :: SandboxReadyEvent where
  "demo_sandbox = \<lparr>sr_Event = ''sandbox.ready'', sr_SubmissionID = ''u1'', sr_PodName = ''sandbox-u1'', sr_PodIP = ''10.0.0.7'',
     sr_HTTPPort = 8080, sr_WSPort = 8080, sr_TeamName = ''team'', sr_ReadyAt = 1\<rparr>"

definition no_histogram :: "unit Histogram" where
  "no_histogram = \<lparr>ValueAtQuantile = (\<lambda>_ _. 0), Max_value = (\<lambda>_. 0)\<rparr>"

definition idle_world :: "unit RunnerWorld" where
  "idle_world = \<lparr>rw_client = (\<lambda>_. None), rw_exam = (\<lambda>_. Fin 1), rw_load = (\<lambda>_ _ _. ([], 1000000000, False)),
     rw_broker_ok = True, rw_now = 7\<rparr>"

lemma default_orch:
  "or_Brokers (orch_settings Map.empty) = [redpanda]" "NumBots (or_Config (orch_settings Map.empty)) = 50"
proof -
  have "redpanda \<noteq> [] \<and> printable (hd redpanda) \<and> printable (last redpanda) \<and> CHR '','' \<notin> set redpanda" by code_simp
  then have "broker_ok redpanda" by (simp add: broker_ok_def trimmed_printable)
  then have "broker_list redpanda = [redpanda]" using broker_list_Join [of "[redpanda]"] by simp
  then show "or_Brokers (orch_settings Map.empty) = [redpanda]" "NumBots (or_Config (orch_settings Map.empty)) = 50"
    by (simp_all add: orch_settings_def Let_def envStr_None envInt_def Getenv_def)
qed

section \<open>Properties\<close>


text \<open>The endpoint of a sandbox, and the event of a run against it.\<close>

definition sandbox_endpoint :: "SandboxReadyEvent \<Rightarrow> string" where
  "sandbox_endpoint event = ''ws://'' @ sr_PodIP event @ '':'' @ dec (sr_WSPort event) @ ''/stream''"

definition run_event ::
    "'h Histogram \<Rightarrow> ('h \<Rightarrow> 'h \<Rightarrow> int \<times> 'h) \<Rightarrow> 'h \<Rightarrow> 'h RunnerWorld \<Rightarrow> SandboxReadyEvent \<Rightarrow> 'h BotMetrics list \<Rightarrow> int64 \<Rightarrow> BotMetricsEvent" where
  "run_event H Merge h w event bots elapsed =
     metrics_event H (merge Merge h bots) elapsed (sr_TeamName event) (sr_SubmissionID event) (sr_SubmissionID event)
       (rw_exam w (sandbox_endpoint event)) (rw_now w)"

text \<open>What such a run leaves on the topic, on every branch.\<close>

lemma runner_output:
  assumes "sr_SubmissionID event \<noteq> []" and "sr_TeamName event \<noteq> []"
    and "rw_load w (sandbox_endpoint event) (assign_bots (nat (NumBots (or_Config (orch_settings env)))))
      (seconds (DurationSeconds (or_Config (orch_settings env)))) = (bots, elapsed, over)"
  shows "snd (runner_run H Merge h w (job_environ base (bot_job (or_Config (orch_settings env)) event))) =
    (if or_Brokers (orch_settings env) \<noteq> [] \<and> rw_client w (or_Brokers (orch_settings env)) = None \<and>
        0 \<le> NumBots (or_Config (orch_settings env)) \<and> \<not> over \<and> rw_broker_ok w \<and>
        is_finite (e_TPS (run_event H Merge h w event bots elapsed)) \<and> is_finite (rw_exam w (sandbox_endpoint event))
     then [(sr_SubmissionID event, run_event H Merge h w event bots elapsed)] else [])"
proof -
  have f: "e_SubmissionID (run_event H Merge h w event bots elapsed) = sr_SubmissionID event"
    "e_CorrectnessScore (run_event H Merge h w event bots elapsed) = rw_exam w (sandbox_endpoint event)"
    by (simp_all add: run_event_def metrics_event_def Let_def)
  have e: "''ws://'' @ sr_PodIP event @ '':'' @ dec (sr_WSPort event) @ ''/stream'' = sandbox_endpoint event"
    by (simp add: sandbox_endpoint_def)
  show ?thesis
    unfolding runner_run_def runner_of_job e
    using assms f by (auto simp: Let_def run_finish_def publishMetrics_def run_event_def [symmetric] split: option.splits)
qed

text \<open>
  What a job leaves behind. A run started by the orchestrator publishes at most one event; it carries
  the submission and the team of the sandbox event, the score of the correctness phase against the
  sandbox's own endpoint, and the sums of what the bots of the load test against this endpoint counted.
  It publishes exactly when brokers are configured, the client could be made, the number of bots is not
  negative, the run is within its time, the broker takes the record and the measurements are finite.
\<close>

theorem job_publishes_run:
  assumes "sr_SubmissionID event \<noteq> []" and "sr_TeamName event \<noteq> []"
    and "rw_load w (sandbox_endpoint event) (assign_bots (nat (NumBots (or_Config (orch_settings env)))))
      (seconds (DurationSeconds (or_Config (orch_settings env)))) = (bots, elapsed, over)"
  shows "snd (runner_run H Merge h w (job_environ base (bot_job (or_Config (orch_settings env)) event))) =
    (if or_Brokers (orch_settings env) \<noteq> [] \<and> rw_client w (or_Brokers (orch_settings env)) = None \<and>
        0 \<le> NumBots (or_Config (orch_settings env)) \<and> \<not> over \<and> rw_broker_ok w \<and>
        is_finite (e_TPS (run_event H Merge h w event bots elapsed)) \<and> is_finite (rw_exam w (sandbox_endpoint event))
     then [(sr_SubmissionID event, run_event H Merge h w event bots elapsed)] else [])"
  using assms by (rule runner_output)

theorem job_publishes_run_witness:
  "\<exists>e. snd (runner_run no_histogram (\<lambda>_ _. (0, ())) () idle_world (job_environ Map.empty (bot_job (or_Config (orch_settings Map.empty)) demo_sandbox))) =
     [(''u1'', e)] \<and> e_TeamName e = ''team'' \<and> e_CorrectnessScore e = Fin 1"
proof -
  let ?e = "run_event no_histogram (\<lambda>_ _. (0, ())) () idle_world demo_sandbox [] 1000000000"
  have a: "sr_SubmissionID demo_sandbox \<noteq> []" "sr_TeamName demo_sandbox \<noteq> []"
    "rw_load idle_world (sandbox_endpoint demo_sandbox) (assign_bots (nat (NumBots (or_Config (orch_settings Map.empty)))))
      (seconds (DurationSeconds (or_Config (orch_settings Map.empty)))) = ([], 1000000000, False)"
    by (simp_all add: demo_sandbox_def idle_world_def)
  have "f_div (f64 0) (duration_Seconds 1000000000) = Fin 0" by code_simp
  then have f: "e_TPS ?e = Fin 0" by (simp add: run_event_def metrics_event_def merge_def)
  have c: "or_Brokers (orch_settings Map.empty) \<noteq> [] \<and> rw_client idle_world (or_Brokers (orch_settings Map.empty)) = None \<and>
      0 \<le> NumBots (or_Config (orch_settings Map.empty)) \<and> \<not> False \<and> rw_broker_ok idle_world \<and>
      is_finite (e_TPS ?e) \<and> is_finite (rw_exam idle_world (sandbox_endpoint demo_sandbox))"
    unfolding f by (simp add: default_orch idle_world_def is_finite_def)
  have "sr_SubmissionID demo_sandbox = ''u1''" by (simp add: demo_sandbox_def)
  then have "snd (runner_run no_histogram (\<lambda>_ _. (0, ())) () idle_world (job_environ Map.empty (bot_job (or_Config (orch_settings Map.empty)) demo_sandbox))) =
      [(''u1'', ?e)]"
    using trans [OF job_publishes_run [OF a] if_P [OF c]] by metis
  moreover have "e_TeamName ?e = ''team'' \<and> e_CorrectnessScore ?e = Fin 1"
    by (simp add: run_event_def metrics_event_def Let_def demo_sandbox_def idle_world_def)
  ultimately show ?thesis by blast
qed

end
