(* ===== verification/Fleet.thy ===== *)
theory Fleet
  imports Runner_Main Bot_Props
begin

text \<open>
  The load test of a run (\<open>run\<close> in \<open>src/services/bot-runner/main.go\<close>): the bots run concurrently, each
  announces its first connection in the channel \<open>readyCh\<close>, the main goroutine waits for a quorum of them,
  then for the end of all bots, and reads their metrics. One bot is the system of \<open>Load_Bot\<close>.
\<close>

section \<open>States and steps\<close>

datatype 'h fleet_phase = Warming | Waiting | Merging "'h BotMetrics list" | Discarded

record 'h Fleet =
  fl_bots :: "'h BotRun list"
  fl_connected :: "bool list"
  fl_ended :: "bool list"
  fl_readyCh :: nat
  fl_events :: "warmup_event list"
  fl_phase :: "'h fleet_phase"

definition bot_templates :: "nat \<Rightarrow> nat \<Rightarrow> stepTemplate list" where
  "bot_templates numBots i = map make_template (sq_Steps (snd (assign_bots numBots ! i)))"

text \<open>After the events \<open>evs\<close> the warm-up loop has ended or waits for another one.\<close>

definition warm_phase :: "nat \<Rightarrow> warmup_event list \<Rightarrow> 'h fleet_phase" where
  "warm_phase numBots evs = (if warmup numBots evs = None then Warming else Waiting)"

definition fleet_start :: "'h \<Rightarrow> nat \<Rightarrow> 'h Fleet" where
  "fleet_start h numBots =
     \<lparr>fl_bots = replicate numBots (bot_start h), fl_connected = replicate numBots False, fl_ended = replicate numBots False,
      fl_readyCh = 0, fl_events = [], fl_phase = warm_phase numBots []\<rparr>"

text \<open>The first connection of a bot is announced; the bot would wait for a place in the channel.\<close>

definition fleet_dial :: "nat \<Rightarrow> 'h Fleet \<Rightarrow> 'h Fleet" where
  "fleet_dial i f = f\<lparr>fl_connected := (fl_connected f)[i := True], fl_readyCh := Suc (fl_readyCh f)\<rparr>"

definition fleet_bot :: "nat \<Rightarrow> 'h BotRun \<Rightarrow> 'h Fleet \<Rightarrow> 'h Fleet" where
  "fleet_bot i s f = f\<lparr>fl_bots := (fl_bots f)[i := s]\<rparr>"

definition fleet_end :: "nat \<Rightarrow> 'h Fleet \<Rightarrow> 'h Fleet" where
  "fleet_end i f = f\<lparr>fl_ended := (fl_ended f)[i := True]\<rparr>"

definition fleet_event :: "nat \<Rightarrow> warmup_event \<Rightarrow> 'h Fleet \<Rightarrow> 'h Fleet" where
  "fleet_event numBots ev f =
     f\<lparr>fl_events := fl_events f @ [ev], fl_readyCh := (if ev = Ready then fl_readyCh f - 1 else fl_readyCh f),
       fl_phase := warm_phase numBots (fl_events f @ [ev])\<rparr>"

text \<open>\<open>wg.Wait\<close> has returned: the measurements are discarded when the context is over.\<close>

definition fleet_over :: "bool \<Rightarrow> 'h Fleet \<Rightarrow> 'h Fleet" where
  "fleet_over ctx_over f = f\<lparr>fl_phase := (if ctx_over then Discarded else Merging [])\<rparr>"

definition fleet_read :: "'h BotMetrics list \<Rightarrow> 'h Fleet \<Rightarrow> 'h Fleet" where
  "fleet_read ms f = f\<lparr>fl_phase := Merging (ms @ [metrics (fl_bots f ! length ms)])\<rparr>"

text \<open>
  The collector of a bot runs until the context is over, also beside a bot that has ended, and a reader until
  its connection is closed; the main goroutine reads the metrics without the bot's mutex.
\<close>

inductive fleet_step :: "(int \<Rightarrow> 'h \<Rightarrow> 'h) \<Rightarrow> nat \<Rightarrow> 'h Fleet \<Rightarrow> 'h Fleet \<Rightarrow> bool" for RecordValue and numBots where
  fs_dial: "i < numBots \<Longrightarrow> \<not> fl_connected f ! i \<Longrightarrow> \<not> fl_ended f ! i \<Longrightarrow> fl_readyCh f < numBots \<Longrightarrow>
     fleet_step RecordValue numBots f (fleet_dial i f)"
| fs_bot: "i < numBots \<Longrightarrow> fl_connected f ! i \<Longrightarrow> \<not> fl_ended f ! i \<Longrightarrow>
     bot_step RecordValue (int i) (bot_templates numBots i) (fl_bots f ! i) s \<Longrightarrow> fleet_step RecordValue numBots f (fleet_bot i s f)"
| fs_collect: "i < numBots \<Longrightarrow> distinct ids \<Longrightarrow> set ids = dom (pending (fl_bots f ! i)) \<Longrightarrow>
     fleet_step RecordValue numBots f (fleet_bot i (bot_collect t ids (fl_bots f ! i)) f)"
| fs_receive: "i < numBots \<Longrightarrow> fl_connected f ! i \<Longrightarrow>
     fleet_step RecordValue numBots f (fleet_bot i (bot_receive RecordValue t typ oid remaining (fl_bots f ! i)) f)"
| fs_end: "i < numBots \<Longrightarrow> fleet_step RecordValue numBots f (fleet_end i f)"
| fs_event: "fl_phase f = Warming \<Longrightarrow> (ev = Ready \<longrightarrow> 0 < fl_readyCh f) \<Longrightarrow> fleet_step RecordValue numBots f (fleet_event numBots ev f)"
| fs_over: "fl_phase f = Waiting \<Longrightarrow> list_all id (fl_ended f) \<Longrightarrow> fleet_step RecordValue numBots f (fleet_over ctx_over f)"
| fs_read: "fl_phase f = Merging ms \<Longrightarrow> length ms < numBots \<Longrightarrow> fleet_step RecordValue numBots f (fleet_read ms f)"

definition fleet_initial :: "'h \<Rightarrow> nat \<Rightarrow> 'h Fleet \<Rightarrow> bool" where
  "fleet_initial h numBots f \<longleftrightarrow> f = fleet_start h numBots"

section \<open>The invariant\<close>

text \<open>A run of the bot behind metrics that were read.\<close>

definition read_of :: "(int \<Rightarrow> 'h \<Rightarrow> 'h) \<Rightarrow> 'h \<Rightarrow> nat \<Rightarrow> 'h BotMetrics list \<Rightarrow> bool" where
  "read_of RecordValue h numBots ms \<longleftrightarrow>
     (\<forall>i < length ms. \<exists>s. bot_reachable RecordValue h (int i) (bot_templates numBots i) s \<and> metrics s = ms ! i)"

definition fleet_inv :: "(int \<Rightarrow> 'h \<Rightarrow> 'h) \<Rightarrow> 'h \<Rightarrow> nat \<Rightarrow> 'h Fleet \<Rightarrow> bool" where
  "fleet_inv RecordValue h numBots f \<longleftrightarrow>
     length (fl_bots f) = numBots \<and> length (fl_connected f) = numBots \<and> length (fl_ended f) = numBots \<and>
     (\<forall>i < numBots. bot_reachable RecordValue h (int i) (bot_templates numBots i) (fl_bots f ! i)) \<and>
     fl_readyCh f + count_list (fl_events f) Ready = count_list (fl_connected f) True \<and> length (fl_events f) \<le> numBots \<and>
     (fl_phase f = Warming \<longleftrightarrow> warmup numBots (fl_events f) = None) \<and>
     (\<forall>ms. fl_phase f = Merging ms \<longrightarrow> list_all id (fl_ended f) \<and> length ms \<le> numBots \<and> read_of RecordValue h numBots ms)"

lemma count_list_update:
  "i < length xs \<Longrightarrow> \<not> xs ! i \<Longrightarrow> count_list (xs[i := True]) True = Suc (count_list xs True)"
  by (induction xs arbitrary: i) (auto simp: nth_Cons split: nat.splits)

lemma count_list_bound: "count_list xs x \<le> length xs"
  by (induction xs) auto

lemma count_list_less: "i < length xs \<Longrightarrow> xs ! i \<noteq> x \<Longrightarrow> count_list xs x < length xs"
proof (induction xs arbitrary: i)
  case (Cons y ys)
  show ?case
  proof (cases i)
    case 0
    then show ?thesis using Cons.prems count_list_bound [of ys x] by (simp add: less_Suc_eq_le)
  next
    case (Suc j)
    then have "count_list ys x < length ys" using Cons.IH [of j] Cons.prems by simp
    then show ?thesis by simp
  qed
qed simp

text \<open>The warm-up loop waits only before its last turn.\<close>

lemma warmup_loop_waits: "warmup_loop k q c evs = None \<Longrightarrow> length evs < k"
  by (induction k q c evs rule: warmup_loop.induct) (auto split: warmup_event.splits if_splits)

lemma warm_phase_simps [simp]:
  "warm_phase n evs = Warming \<longleftrightarrow> warmup n evs = None" "warm_phase n evs \<noteq> Merging ms"
  by (simp_all add: warm_phase_def)

lemma fleet_inv_bot:
  assumes "fleet_inv R h n f" and "i < n" and "bot_step R (int i) (bot_templates n i) (fl_bots f ! i) s"
  shows "fleet_inv R h n (fleet_bot i s f)"
proof -
  have "bot_reachable R h (int i) (bot_templates n i) s"
    using assms bot_reachable_step [OF _ assms(3)] by (simp add: fleet_inv_def)
  then have "bot_reachable R h (int j) (bot_templates n j) ((fl_bots f)[i := s] ! j)" if "j < n" for j
    using assms(1,2) that by (cases "j = i") (simp_all add: fleet_inv_def)
  then show ?thesis using assms(1) by (simp add: fleet_inv_def fleet_bot_def)
qed

lemma fleet_inv_dial: "fleet_inv R h n f \<Longrightarrow> i < n \<Longrightarrow> \<not> fl_connected f ! i \<Longrightarrow> fleet_inv R h n (fleet_dial i f)"
  by (simp add: fleet_inv_def fleet_dial_def count_list_update)

lemma fleet_inv_end: "fleet_inv R h n f \<Longrightarrow> i < n \<Longrightarrow> fleet_inv R h n (fleet_end i f)"
  by (auto simp: fleet_inv_def fleet_end_def list_all_length nth_list_update)

lemma fleet_inv_event:
  assumes "fleet_inv R h n f" and "fl_phase f = Warming" and "ev = Ready \<longrightarrow> 0 < fl_readyCh f"
  shows "fleet_inv R h n (fleet_event n ev f)"
proof -
  have "length (fl_events f) < n"
    using assms(1,2) warmup_loop_waits unfolding fleet_inv_def warmup_def by blast
  moreover have "warm_phase n (fl_events f @ [ev]) = Warming \<longleftrightarrow> warmup n (fl_events f @ [ev]) = None" by simp
  ultimately show ?thesis using assms by (auto simp: fleet_inv_def fleet_event_def)
qed

lemma fleet_inv_over:
  assumes "fleet_inv R h n f" and "fl_phase f = Waiting" and "list_all id (fl_ended f)"
  shows "fleet_inv R h n (fleet_over ctx_over f)"
  using assms by (auto simp: fleet_inv_def fleet_over_def read_of_def)

lemma fleet_inv_read:
  assumes "fleet_inv R h n f" and "fl_phase f = Merging ms" and "length ms < n"
  shows "fleet_inv R h n (fleet_read ms f)"
proof -
  have "bot_reachable R h (int (length ms)) (bot_templates n (length ms)) (fl_bots f ! length ms)"
    using assms by (simp add: fleet_inv_def)
  then have "read_of R h n (ms @ [metrics (fl_bots f ! length ms)])"
    using assms by (auto simp: fleet_inv_def read_of_def nth_append less_Suc_eq)
  then show ?thesis using assms by (simp add: fleet_inv_def fleet_read_def)
qed

interpretation fleet: system_invariant "fleet_initial h n" "fleet_step R n" "fleet_inv R h n" for h n R
proof unfold_locales
  show "fleet_inv R h n f" if "fleet_initial h n f" for f :: "'a Fleet"
    using that by (simp add: fleet_initial_def fleet_inv_def fleet_start_def bot_reachable_start)
  show "fleet_inv R h n f'" if "fleet_inv R h n f" "fleet_step R n f f'" for f f' :: "'a Fleet"
    using that(2,1)
    by cases (auto intro: fleet_inv_bot fleet_inv_dial fleet_inv_end fleet_inv_event fleet_inv_over fleet_inv_read
      bot_step.collect bot_step.receive)
qed

abbreviation fleet_reachable :: "(int \<Rightarrow> 'h \<Rightarrow> 'h) \<Rightarrow> 'h \<Rightarrow> nat \<Rightarrow> 'h Fleet \<Rightarrow> bool" where
  "fleet_reachable R h n \<equiv> reach (fleet_initial h n) (fleet_step R n)"

lemma fleet_reachable_step: "fleet_reachable R h n f \<Longrightarrow> fleet_step R n f f' \<Longrightarrow> fleet_reachable R h n f'"
  by (rule reach_step)

text \<open>
  A bot never waits to announce its first connection, and the warm-up takes at most as many turns as there
  are bots.
\<close>

lemma ready_never_blocks:
  assumes "fleet_reachable R h n f"
  shows "i < n \<Longrightarrow> \<not> fl_connected f ! i \<Longrightarrow> fl_readyCh f < n" and "length (fl_events f) \<le> n"
  using fleet.inv_reach [OF assms] count_list_less [of i "fl_connected f" True] by (auto simp: fleet_inv_def)

section \<open>What is published\<close>

lemma runner_publishes:
  assumes "sr_SubmissionID event \<noteq> []" and "sr_TeamName event \<noteq> []"
    and "rw_load w (sandbox_endpoint event) (assign_bots (nat (NumBots (or_Config (orch_settings env)))))
      (seconds (DurationSeconds (or_Config (orch_settings env)))) = (bots, elapsed, over)"
    and "rec \<in> set (snd (runner_run H Merge h w (job_environ base (bot_job (or_Config (orch_settings env)) event))))"
  shows "rec = (sr_SubmissionID event, run_event H Merge h w event bots elapsed) \<and> \<not> over"
  using assms(4) unfolding runner_output [OF assms(1-3)] by (simp split: if_splits)

lemma run_event_counts:
  "e_OrdersSent (run_event H Merge h w event bots elapsed) = word_of_int (sum_list (map ordersSent bots))"
  "e_AcksRecv (run_event H Merge h w event bots elapsed) = word_of_int (sum_list (map acksRecv bots))"
  "e_FillsRecv (run_event H Merge h w event bots elapsed) = word_of_int (sum_list (map fillsRecv bots))"
proof -
  have "ordersSent (merge Merge h bots) = sum_list (map ordersSent bots)"
    "acksRecv (merge Merge h bots) = sum_list (map acksRecv bots)" "fillsRecv (merge Merge h bots) = sum_list (map fillsRecv bots)"
    unfolding merge_def
    by (simp_all add: fold_counter [of ordersSent, OF merge_bot_counts(1)] fold_counter [of acksRecv, OF merge_bot_counts(2)]
        fold_counter [of fillsRecv, OF merge_bot_counts(3)])
  then show "e_OrdersSent (run_event H Merge h w event bots elapsed) = word_of_int (sum_list (map ordersSent bots))"
    "e_AcksRecv (run_event H Merge h w event bots elapsed) = word_of_int (sum_list (map acksRecv bots))"
    "e_FillsRecv (run_event H Merge h w event bots elapsed) = word_of_int (sum_list (map fillsRecv bots))"
    by (simp_all add: run_event_def metrics_event_def Let_def)
qed

text \<open>The states of the bots behind the metrics that were read.\<close>

definition bot_states :: "(int \<Rightarrow> 'h \<Rightarrow> 'h) \<Rightarrow> 'h \<Rightarrow> nat \<Rightarrow> 'h BotRun list \<Rightarrow> bool" where
  "bot_states R h n ss \<longleftrightarrow> length ss = n \<and> (\<forall>i < n. bot_reachable R h (int i) (bot_templates n i) (ss ! i))"

lemma fleet_read_states:
  assumes "fleet_reachable R h n f" and "fl_phase f = Merging ms" and "length ms = n"
  obtains ss where "bot_states R h n ss" and "ms = map metrics ss"
proof -
  have "\<forall>i < n. \<exists>s. bot_reachable R h (int i) (bot_templates n i) s \<and> metrics s = ms ! i"
    using fleet.inv_reach [OF assms(1)] assms(2,3) by (simp add: fleet_inv_def read_of_def)
  then obtain g where g: "\<And>i. i < n \<Longrightarrow> bot_reachable R h (int i) (bot_templates n i) (g i) \<and> metrics (g i) = ms ! i"
    by metis
  show thesis
  proof (rule that)
    show "bot_states R h n (map g [0..<n])" using g by (simp add: bot_states_def)
    show "ms = map metrics (map g [0..<n])" using g assms(3) by (intro nth_equalityI) simp_all
  qed
qed

lemma bot_states_counts:
  assumes "bot_states R h n ss"
  shows "sum_list (map (acksRecv \<circ> metrics) ss) = 2 * sum_list (map n_acks ss)"
    and "sum_list (map (fillsRecv \<circ> metrics) ss) = 2 * sum_list (map n_fills ss)"
    and "sum_list (map inFlight ss) \<le> 21 * int n"
proof -
  have inv: "bot_inv s" if "s \<in> set ss" for s
    using assms that botrun.inv_reach by (fastforce simp: bot_states_def in_set_conv_nth)
  show "sum_list (map (acksRecv \<circ> metrics) ss) = 2 * sum_list (map n_acks ss)"
    "sum_list (map (fillsRecv \<circ> metrics) ss) = 2 * sum_list (map n_fills ss)"
    using inv by (simp_all add: bot_inv_def sum_list_const_mult [symmetric] cong: map_cong)
  have "sum_list (map inFlight ss) \<le> sum_list (map (\<lambda>_. 21) ss)" using inv by (intro sum_list_mono) (simp add: bot_inv_def)
  then show "sum_list (map inFlight ss) \<le> 21 * int n" using assms by (simp add: bot_states_def sum_list_triv)
qed

section \<open>Sample data\<close>

text \<open>One bot that sends an order and gets it acknowledged.\<close>

definition one_bot_env :: environ where
  "one_bot_env = [''NUM_BOTS'' \<mapsto> ''1'']"

definition one_order :: "unit BotRun" where
  "one_order = bot_register 0 0 (bot_templates 1 0 ! 0) (bot_start ())"

definition one_ack :: "unit BotRun" where
  "one_ack = bot_receive (\<lambda>_ _. ()) 1 ''ack'' (bot_choose_order 0 (bot_templates 1 0 ! 0) (bot_start ())) 0 one_order"

definition one_fleet :: "unit Fleet" where
  "one_fleet = fleet_read [] (fleet_over False (fleet_end 0 (fleet_event 1 Ready (fleet_bot 0 one_ack (fleet_bot 0 one_order
     (fleet_dial 0 (fleet_start () 1)))))))"

definition one_world :: "unit RunnerWorld" where
  "one_world = idle_world\<lparr>rw_load := \<lambda>_ _ _. ([metrics one_ack], 1000000000, False)\<rparr>"

lemma one_template: "bot_templates 1 0 \<noteq> []" "\<not> tm_isCancel (bot_templates 1 0 ! 0)" "warmup 1 [] = None" "warmup 1 [Ready] \<noteq> None"
  by code_simp+

lemma one_settings: "NumBots (or_Config (orch_settings one_bot_env)) = 1" "or_Brokers (orch_settings one_bot_env) \<noteq> []"
proof -
  have "Atoi ''1'' = Some 1" by code_simp
  then show "NumBots (or_Config (orch_settings one_bot_env)) = 1"
    by (simp add: orch_settings_def Let_def envInt_def Getenv_def one_bot_env_def)
  have "or_Brokers (orch_settings one_bot_env) = or_Brokers (orch_settings Map.empty)"
    by (simp add: orch_settings_def Let_def envStr_None one_bot_env_def)
  then show "or_Brokers (orch_settings one_bot_env) \<noteq> []" by (simp add: default_orch)
qed

lemma one_ack_counts: "ordersSent (metrics one_ack) = 1" "n_acks one_ack = 1" "n_fills one_ack = 0"
  by (simp_all add: one_ack_def one_order_def bot_receive_def bot_register_def bot_start_def bot_choose_order_def NewBotMetrics_def Let_def recordAck_def)

lemma one_fleet_reachable: "fleet_reachable (\<lambda>_ _. ()) () 1 one_fleet"
proof -
  let ?R = "\<lambda>(_::int) _. ()"
  let ?f1 = "fleet_dial 0 (fleet_start () 1)" let ?f2 = "fleet_bot 0 one_order ?f1" let ?f3 = "fleet_bot 0 one_ack ?f2"
  let ?f4 = "fleet_event 1 Ready ?f3" let ?f5 = "fleet_end 0 ?f4" let ?f6 = "fleet_over False ?f5"
  note step = fleet_reachable_step
  note d = fleet_dial_def fleet_bot_def fleet_event_def fleet_end_def fleet_over_def fleet_start_def warm_phase_def
  have "fleet_reachable ?R () 1 (fleet_start () 1)" by (rule reach_init) (simp add: fleet_initial_def)
  then have "fleet_reachable ?R () 1 ?f1" by (rule step) (rule fs_dial; simp add: fleet_start_def)
  then have "fleet_reachable ?R () 1 ?f2"
  proof (rule step [OF _ fs_bot])
    have "bot_step ?R 0 (bot_templates 1 0) (bot_start ()) (bot_register 0 0 (bot_templates 1 0 ! 0) (bot_start ()))"
      using bot_step.register [of "bot_start ()" "bot_templates 1 0" ?R 0 0] one_template by (simp add: bot_start_def)
    then show "bot_step ?R (int 0) (bot_templates 1 0) (fl_bots ?f1 ! 0) one_order" by (simp add: d one_order_def)
  qed (simp_all add: d)
  then have "fleet_reachable ?R () 1 ?f3"
  proof (rule step [OF _ fs_bot])
    show "bot_step ?R (int 0) (bot_templates 1 0) (fl_bots ?f2 ! 0) one_ack"
      unfolding one_ack_def by (simp add: d bot_step.receive)
  qed (simp_all add: d)
  then have "fleet_reachable ?R () 1 ?f4" by (rule step) (rule fs_event; use one_template in \<open>simp add: d\<close>)
  then have "fleet_reachable ?R () 1 ?f5" by (rule step) (rule fs_end; simp)
  then have "fleet_reachable ?R () 1 ?f6" by (rule step) (rule fs_over; use one_template in \<open>simp add: d\<close>)
  then show ?thesis unfolding one_fleet_def by (rule step) (rule fs_read; simp add: d)
qed

section \<open>Properties\<close>

text \<open>
  What is published counts what the bots did. When the load test ends, every bot's metrics are those of a
  state its own run can reach, and the published event, if there is one, holds the number of orders the bots
  have registered and twice the numbers of acks and fills they matched; together the bots never have more
  than 21 orders in flight each.
\<close>

theorem published_counts:
  assumes "fleet_reachable R h0 n f" and "fl_phase f = Merging ms" and "length ms = n"
    and "n = nat (NumBots (or_Config (orch_settings env)))"
    and "rw_load w (sandbox_endpoint event) (assign_bots n) (seconds (DurationSeconds (or_Config (orch_settings env)))) = (ms, elapsed, over)"
    and "sr_SubmissionID event \<noteq> []" and "sr_TeamName event \<noteq> []"
    and "rec \<in> set (snd (runner_run H Merge h w (job_environ base (bot_job (or_Config (orch_settings env)) event))))"
  shows "\<exists>ss. bot_states R h0 n ss \<and> fst rec = sr_SubmissionID event \<and>
    e_OrdersSent (snd rec) = word_of_int (\<Sum>s\<leftarrow>ss. ordersSent (metrics s)) \<and>
    e_AcksRecv (snd rec) = word_of_int (2 * (\<Sum>s\<leftarrow>ss. n_acks s)) \<and>
    e_FillsRecv (snd rec) = word_of_int (2 * (\<Sum>s\<leftarrow>ss. n_fills s)) \<and> (\<Sum>s\<leftarrow>ss. inFlight s) \<le> 21 * int n"
proof -
  obtain ss where ss: "bot_states R h0 n ss" "ms = map metrics ss" using fleet_read_states [OF assms(1-3)] .
  have "rec = (sr_SubmissionID event, run_event H Merge h w event ms elapsed)"
    using runner_publishes [OF assms(6,7) assms(5) [unfolded assms(4)] assms(8)] by simp
  then show ?thesis
    using ss bot_states_counts [OF ss(1)] run_event_counts [of H Merge h w event ms elapsed]
    by (intro exI [of _ ss]) (simp add: o_def)
qed

theorem published_counts_witness:
  "\<exists>rec ss. rec \<in> set (snd (runner_run no_histogram (\<lambda>_ _. (0, ())) () one_world
       (job_environ Map.empty (bot_job (or_Config (orch_settings one_bot_env)) demo_sandbox)))) \<and>
     bot_states (\<lambda>_ _. ()) () 1 ss \<and> e_OrdersSent (snd rec) = word_of_int (\<Sum>s\<leftarrow>ss. ordersSent (metrics s)) \<and>
     e_OrdersSent (snd rec) = 1 \<and> e_AcksRecv (snd rec) = 2"
proof -
  let ?ms = "[metrics one_ack]" let ?cfg = "or_Config (orch_settings one_bot_env)"
  let ?e = "run_event no_histogram (\<lambda>_ _. (0, ())) () one_world demo_sandbox ?ms 1000000000"
  let ?p = "snd (runner_run no_histogram (\<lambda>_ _. (0, ())) () one_world (job_environ Map.empty (bot_job ?cfg demo_sandbox)))"
  have a: "sr_SubmissionID demo_sandbox \<noteq> []" "sr_TeamName demo_sandbox \<noteq> []"
    "rw_load one_world (sandbox_endpoint demo_sandbox) (assign_bots (nat (NumBots ?cfg))) (seconds (DurationSeconds ?cfg)) = (?ms, 1000000000, False)"
    by (simp_all add: demo_sandbox_def one_world_def)
  have o: "ordersSent (merge (\<lambda>_ _. (0, ())) () ?ms) = 1"
    using one_ack_counts by (simp add: merge_def merge_bot_counts)
  have "f_div (f64 1) (duration_Seconds 1000000000) = Fin 1" by code_simp
  then have t: "e_TPS ?e = Fin 1" using o by (simp add: run_event_def metrics_event_def)
  have "or_Brokers (orch_settings one_bot_env) \<noteq> [] \<and> rw_client one_world (or_Brokers (orch_settings one_bot_env)) = None \<and>
      0 \<le> NumBots ?cfg \<and> \<not> False \<and> rw_broker_ok one_world \<and> is_finite (e_TPS ?e) \<and> is_finite (rw_exam one_world (sandbox_endpoint demo_sandbox))"
    unfolding t by (simp add: one_settings one_world_def idle_world_def is_finite_def)
  then have p: "?p = [(sr_SubmissionID demo_sandbox, ?e)]" using trans [OF runner_output [OF a] if_P] by blast
  have "fl_phase one_fleet = Merging ?ms" by (simp add: one_fleet_def fleet_read_def fleet_over_def fleet_end_def fleet_event_def fleet_bot_def
      fleet_dial_def fleet_start_def)
  note f = this
  have n: "length ?ms = 1" "1 = nat (NumBots ?cfg)" by (simp_all add: one_settings)
  have l: "rw_load one_world (sandbox_endpoint demo_sandbox) (assign_bots 1) (seconds (DurationSeconds ?cfg)) = (?ms, 1000000000, False)"
    by (simp add: one_world_def)
  have "(sr_SubmissionID demo_sandbox, ?e) \<in> set ?p" using p by simp
  from published_counts [OF one_fleet_reachable f n l a(1,2) this]
  obtain ss where ss: "bot_states (\<lambda>_ _. ()) () 1 ss" "e_OrdersSent ?e = word_of_int (\<Sum>s\<leftarrow>ss. ordersSent (metrics s))"
    by (elim exE conjE) simp
  have "e_OrdersSent ?e = 1" "e_AcksRecv ?e = 2"
    using one_ack_counts by (simp_all add: run_event_counts one_ack_def one_order_def bot_receive_def bot_register_def
        bot_start_def bot_choose_order_def NewBotMetrics_def Let_def recordAck_def)
  with p ss show ?thesis by (intro exI [of _ "(sr_SubmissionID demo_sandbox, ?e)"] exI [of _ ss]) simp
qed

end
