(* ===== verification/Orch_Consumer.thy ===== *)
theory Orch_Consumer
  imports Orchestration_Props
begin

text \<open>
  The consumer of the bot orchestrator (\<open>Consumer.Run\<close> in \<open>src/services/bot-orchestrator/consumer.go\<close> and
  the handler it gets from \<open>main.go\<close>): every \<open>sandbox.ready\<close> record is handled in its own goroutine, which
  commits the record's offset when the handler returns. The server of \<open>Bot_Orchestrator\<close> runs below;
  requests over HTTP come between.
\<close>

section \<open>States and steps\<close>

text \<open>
  The next offset to poll, the goroutines that have not entered the handler's critical section, those in
  \<open>Handle\<close>, the offsets whose handler has returned and whose commit is to be made, and the commits made, in
  order. \<open>gr_handled\<close> records the offsets whose handler returned.
\<close>

record Group =
  gr_server :: Server
  gr_next :: nat
  gr_started :: "(nat \<times> SandboxReadyEvent) list"
  gr_testing :: "(nat \<times> SandboxReadyEvent) list"
  gr_returned :: "nat list"
  gr_commits :: "nat list"
  gr_handled :: "nat set"

text \<open>The records of the partition are the function \<open>records\<close> of the offset.\<close>

definition group_poll :: "(nat \<Rightarrow> lifecycle) \<Rightarrow> Group \<Rightarrow> Group" where
  "group_poll records g =
     (let n = gr_next g; g' = g\<lparr>gr_next := Suc n\<rparr>
      in case decode_ready (records n) of None \<Rightarrow> g'
         | Some e \<Rightarrow> if sr_Event e \<noteq> ''sandbox.ready'' then g' else g'\<lparr>gr_started := gr_started g @ [(n, e)]\<rparr>)"

definition group_return :: "nat \<Rightarrow> Group \<Rightarrow> Group" where
  "group_return n g = g\<lparr>gr_returned := gr_returned g @ [n], gr_handled := insert n (gr_handled g)\<rparr>"

text \<open>The handler's check: a submission under test is ignored, and the handler returns.\<close>

definition group_enter :: "nat \<Rightarrow> SandboxReadyEvent \<Rightarrow> Group \<Rightarrow> Group" where
  "group_enter n e g =
     (let g' = g\<lparr>gr_started := remove1 (n, e) (gr_started g)\<rparr>
      in case begin_test e (gr_server g) of
           None \<Rightarrow> group_return n g'
         | Some s \<Rightarrow> g'\<lparr>gr_server := s, gr_testing := gr_testing g @ [(n, e)]\<rparr>)"

definition group_finish ::
    "OrchConfig \<Rightarrow> TestWorld \<Rightarrow> bool \<Rightarrow> int64 \<Rightarrow> nat \<Rightarrow> SandboxReadyEvent \<Rightarrow> Group \<Rightarrow> Group" where
  "group_finish cfg w pub_ok now n e g =
     group_return n (g\<lparr>gr_server := finish_test cfg w pub_ok now e (gr_server g), gr_testing := remove1 (n, e) (gr_testing g)\<rparr>)"

text \<open>A panic is recovered; the offset is not committed.\<close>

definition group_panic :: "nat \<Rightarrow> SandboxReadyEvent \<Rightarrow> Group \<Rightarrow> Group" where
  "group_panic n e g = g\<lparr>gr_server := release e (gr_server g), gr_testing := remove1 (n, e) (gr_testing g)\<rparr>"

text \<open>A commit that fails is only logged.\<close>

definition group_commit :: "bool \<Rightarrow> nat \<Rightarrow> Group \<Rightarrow> Group" where
  "group_commit ok n g =
     g\<lparr>gr_returned := remove1 n (gr_returned g), gr_commits := (if ok then gr_commits g @ [n] else gr_commits g)\<rparr>"

inductive group_step :: "OrchConfig \<Rightarrow> (nat \<Rightarrow> lifecycle) \<Rightarrow> Group \<Rightarrow> Group \<Rightarrow> bool" for cfg records where
  gs_poll: "group_step cfg records g (group_poll records g)"
| gs_enter: "(n, e) \<in> set (gr_started g) \<Longrightarrow> group_step cfg records g (group_enter n e g)"
| gs_finish: "(n, e) \<in> set (gr_testing g) \<Longrightarrow> group_step cfg records g (group_finish cfg w pub_ok now n e g)"
| gs_panic: "(n, e) \<in> set (gr_testing g) \<Longrightarrow> group_step cfg records g (group_panic n e g)"
| gs_commit: "n \<in> set (gr_returned g) \<Longrightarrow> group_step cfg records g (group_commit ok n g)"
| gs_run: "group_step cfg records g (g\<lparr>gr_server := snd (runHandler is_post body (gr_server g))\<rparr>)"
| gs_run_ends: "e \<in> set (testing (gr_server g)) \<Longrightarrow> e \<notin> snd ` set (gr_testing g) \<Longrightarrow>
     group_step cfg records g (g\<lparr>gr_server := finish_test cfg w pub_ok now e (gr_server g)\<rparr>)"

definition group_initial :: "Group \<Rightarrow> bool" where
  "group_initial g \<longleftrightarrow> gr_server g = server_start \<and> gr_started g = [] \<and> gr_testing g = [] \<and> gr_returned g = [] \<and>
     gr_commits g = [] \<and> gr_handled g = {}"

section \<open>The invariant\<close>

text \<open>
  Every offset is in at most one place: not yet entered, under test, returned or committed. Tests under
  way are tests of the server, and offsets are those of \<open>sandbox.ready\<close> records polled.
\<close>

definition ready_record :: "(nat \<Rightarrow> lifecycle) \<Rightarrow> nat \<Rightarrow> SandboxReadyEvent \<Rightarrow> bool" where
  "ready_record records n e \<longleftrightarrow> decode_ready (records n) = Some e \<and> sr_Event e = ''sandbox.ready''"

definition group_inv :: "(nat \<Rightarrow> lifecycle) \<Rightarrow> Group \<Rightarrow> bool" where
  "group_inv records g \<longleftrightarrow> server_inv (gr_server g) \<and>
     distinct (map fst (gr_started g) @ map fst (gr_testing g) @ gr_returned g @ gr_commits g) \<and>
     (\<forall>n e. (n, e) \<in> set (gr_started g) \<union> set (gr_testing g) \<longrightarrow> n < gr_next g \<and> n \<notin> gr_handled g \<and> ready_record records n e) \<and>
     distinct (map snd (gr_testing g)) \<and> snd ` set (gr_testing g) \<subseteq> set (testing (gr_server g)) \<and>
     set (gr_returned g) \<union> set (gr_commits g) \<subseteq> gr_handled g \<and>
     (\<forall>n \<in> gr_handled g. n < gr_next g \<and> (\<exists>e. ready_record records n e))"

lemma distinct_remove1_fst: "distinct (map fst xs) \<Longrightarrow> (n, e) \<in> set xs \<Longrightarrow> n \<notin> fst ` set (remove1 (n, e) xs) \<and> distinct (map fst (remove1 (n, e) xs))"
  by (induction xs) (auto simp: set_remove1_eq distinct_map image_iff)

lemma remove1_pairs:
  assumes "distinct (map fst xs)" and "(n, e) \<in> set xs"
  shows "set (remove1 (n, e) xs) = set xs - {(n, e)}" and "fst ` set (remove1 (n, e) xs) = fst ` set xs - {n}"
    and "distinct (map fst (remove1 (n, e) xs))"
proof -
  have d: "distinct xs" "inj_on fst (set xs)" using assms(1) by (simp_all add: distinct_map)
  then show s: "set (remove1 (n, e) xs) = set xs - {(n, e)}" by simp
  show "fst ` set (remove1 (n, e) xs) = fst ` set xs - {n}"
    unfolding s using inj_on_image_set_diff [OF d(2), of "set xs" "{(n, e)}"] assms(2) by simp
  show "distinct (map fst (remove1 (n, e) xs))" using assms(1) by (rule distinct_remove1_fst [OF _ assms(2), THEN conjunct2])
qed

lemma remove1_snds:
  assumes "distinct (map snd xs)" and "(n, e) \<in> set xs"
  shows "snd ` set (remove1 (n, e) xs) = snd ` set xs - {e}" and "distinct (map snd (remove1 (n, e) xs))"
proof -
  have d: "distinct xs" "inj_on snd (set xs)" using assms(1) by (simp_all add: distinct_map)
  then have s: "set (remove1 (n, e) xs) = set xs - {(n, e)}" by simp
  show "snd ` set (remove1 (n, e) xs) = snd ` set xs - {e}"
    unfolding s using inj_on_image_set_diff [OF d(2), of "set xs" "{(n, e)}"] assms(2) by simp
  show "distinct (map snd (remove1 (n, e) xs))" using d inj_on_subset [OF d(2)] by (simp add: distinct_map set_remove1_subset)
qed

lemma group_inv_pending:
  assumes "group_inv records g" and "(n, e) \<in> set (gr_started g) \<or> (n, e) \<in> set (gr_testing g)"
  shows "n < gr_next g" "n \<notin> gr_handled g" "ready_record records n e"
  using assms by (auto simp: group_inv_def)

lemma group_inv_handled: "group_inv records g \<Longrightarrow> n \<in> gr_handled g \<Longrightarrow> n < gr_next g \<and> (\<exists>e. ready_record records n e)"
  by (simp add: group_inv_def)

lemma group_next_inv: "group_inv records g \<Longrightarrow> group_inv records (g\<lparr>gr_next := Suc (gr_next g)\<rparr>)"
  unfolding group_inv_def by (simp del: map_append distinct_append) (blast intro: less_SucI)

lemma group_start_inv:
  assumes inv: "group_inv records g" and new: "n < gr_next g" "ready_record records n e" "n \<notin> gr_handled g"
    "n \<notin> fst ` set (gr_started g)" "n \<notin> fst ` set (gr_testing g)"
  shows "group_inv records (g\<lparr>gr_started := gr_started g @ [(n, e)]\<rparr>)"
proof -
  have "n \<notin> set (gr_returned g)" "n \<notin> set (gr_commits g)" using inv new(3) by (auto simp: group_inv_def)
  then have "distinct (map fst (gr_started g @ [(n, e)]) @ map fst (gr_testing g) @ gr_returned g @ gr_commits g)"
    using inv new(4,5) by (simp add: group_inv_def)
  then show ?thesis using inv new(1-3) unfolding group_inv_def by (simp del: map_append distinct_append)
qed

lemma group_poll_inv [keeps]:
  assumes inv: "group_inv records g"
  shows "group_inv records (group_poll records g)"
proof -
  let ?n = "gr_next g" and ?g = "g\<lparr>gr_next := Suc (gr_next g)\<rparr>"
  have new: "?n \<notin> gr_handled g" "?n \<notin> fst ` set (gr_started g)" "?n \<notin> fst ` set (gr_testing g)"
    using group_inv_handled [OF inv] group_inv_pending(1) [OF inv] by fastforce+
  show ?thesis
    using group_next_inv [OF inv] group_start_inv [OF group_next_inv [OF inv], of ?n] new
    by (auto simp: group_poll_def Let_def ready_record_def split: option.splits)
qed

lemma testing_release: "server_inv s \<Longrightarrow> set (testing (release e s)) = set (testing s) - {e}"
  by (auto simp: server_inv_def release_def distinct_map)

lemma testing_finish: "server_inv s \<Longrightarrow> set (testing (finish_test cfg w pub_ok now e s)) = set (testing s) - {e}"
  by (auto simp: server_inv_def finish_test_def release_def distinct_map split: prod.splits)

text \<open>A test leaves, with its server entry.\<close>

lemma group_leave_inv:
  assumes inv: "group_inv records g" and m: "(n, e) \<in> set (gr_testing g)"
    and s: "server_inv s" "set (testing s) = set (testing (gr_server g)) - {e}"
  shows "group_inv records (g\<lparr>gr_server := s, gr_testing := remove1 (n, e) (gr_testing g)\<rparr>)"
proof -
  have d: "distinct (map fst (gr_testing g))" "distinct (map snd (gr_testing g))" using inv by (simp_all add: group_inv_def)
  note r = remove1_pairs [OF d(1) m] remove1_snds [OF d(2) m]
  have "distinct (map fst (gr_started g) @ map fst (remove1 (n, e) (gr_testing g)) @ gr_returned g @ gr_commits g)"
  proof -
    have "fst ` set (gr_testing g) \<inter> X = {} \<Longrightarrow> (fst ` set (gr_testing g) - {n}) \<inter> X = {}" for X by blast
    moreover have "X \<inter> (fst ` set (gr_testing g) \<union> Y) = {} \<Longrightarrow> X \<inter> (fst ` set (gr_testing g) - {n} \<union> Y) = {}" for X Y by blast
    ultimately show ?thesis using inv r(2,3) unfolding group_inv_def by simp
  qed
  moreover have "snd ` set (remove1 (n, e) (gr_testing g)) \<subseteq> set (testing s)"
    using inv unfolding r(4) s(2) group_inv_def by blast
  moreover have "set (remove1 (n, e) (gr_testing g)) \<subseteq> set (gr_testing g)" by (simp add: set_remove1_subset)
  ultimately show ?thesis using inv s(1) r(5) unfolding group_inv_def by (simp del: map_append distinct_append) blast
qed

lemma group_return_inv:
  assumes inv: "group_inv records g" and n: "n < gr_next g" "ready_record records n e"
    and new: "n \<notin> fst ` set (gr_started g)" "n \<notin> fst ` set (gr_testing g)" "n \<notin> gr_handled g"
  shows "group_inv records (group_return n g)"
proof -
  have "n \<notin> set (gr_returned g)" "n \<notin> set (gr_commits g)" using inv new(3) by (auto simp: group_inv_def)
  then have "distinct (map fst (gr_started g) @ map fst (gr_testing g) @ (gr_returned g @ [n]) @ gr_commits g)"
    using inv new(1,2) by (simp add: group_inv_def)
  moreover have "m \<noteq> n" if "(m, x) \<in> set (gr_started g) \<union> set (gr_testing g)" for m x using that new(1,2) by force
  ultimately show ?thesis using inv n unfolding group_inv_def group_return_def
    by (simp del: map_append distinct_append) blast
qed

lemma group_unstart_inv:
  assumes inv: "group_inv records g" and m: "(n, e) \<in> set (gr_started g)"
  shows "group_inv records (g\<lparr>gr_started := remove1 (n, e) (gr_started g)\<rparr>)"
    and "n \<notin> fst ` set (remove1 (n, e) (gr_started g))" and "n \<notin> fst ` set (gr_testing g)"
proof -
  have d: "distinct (map fst (gr_started g))" using inv by (simp add: group_inv_def)
  note r = remove1_pairs [OF d m]
  show "n \<notin> fst ` set (remove1 (n, e) (gr_started g))" using r(2) by simp
  have "n \<in> fst ` set (gr_started g)" using m by force
  then show "n \<notin> fst ` set (gr_testing g)" using inv unfolding group_inv_def by auto
  have "distinct (map fst (remove1 (n, e) (gr_started g)) @ map fst (gr_testing g) @ gr_returned g @ gr_commits g)"
  proof -
    have "X \<inter> Y = {} \<Longrightarrow> (X - {n}) \<inter> Y = {}" for X Y :: "nat set" by blast
    then show ?thesis using inv r(2,3) unfolding group_inv_def by simp
  qed
  moreover have "set (remove1 (n, e) (gr_started g)) \<subseteq> set (gr_started g)" by (simp add: set_remove1_subset)
  ultimately show "group_inv records (g\<lparr>gr_started := remove1 (n, e) (gr_started g)\<rparr>)"
    using inv unfolding group_inv_def by (simp del: map_append distinct_append) blast
qed

lemma group_join_inv:
  assumes inv: "group_inv records g" and n: "n < gr_next g" "ready_record records n e" "n \<notin> gr_handled g"
    "n \<notin> fst ` set (gr_started g)" "n \<notin> fst ` set (gr_testing g)"
    and b: "begin_test e (gr_server g) = Some s"
  shows "group_inv records (g\<lparr>gr_server := s, gr_testing := gr_testing g @ [(n, e)]\<rparr>)"
proof -
  have si: "server_inv (gr_server g)" using inv by (simp add: group_inv_def)
  have "sr_SubmissionID e \<notin> activeTests (gr_server g)" and t: "testing s = e # testing (gr_server g)"
    using b by (auto simp: begin_test_def split: if_splits)
  then have "e \<notin> set (testing (gr_server g))" using si by (auto simp: server_inv_def)
  then have e: "e \<notin> snd ` set (gr_testing g)" using inv unfolding group_inv_def by blast
  have "n \<notin> set (gr_returned g)" "n \<notin> set (gr_commits g)" using inv n(3) by (auto simp: group_inv_def)
  then have "distinct (map fst (gr_started g) @ map fst (gr_testing g @ [(n, e)]) @ gr_returned g @ gr_commits g)"
    using inv n(4,5) by (simp add: group_inv_def)
  moreover have "distinct (map snd (gr_testing g @ [(n, e)]))" using inv e by (simp add: group_inv_def)
  moreover have "snd ` set (gr_testing g @ [(n, e)]) \<subseteq> set (testing s)" using inv t by (auto simp: group_inv_def)
  moreover have "(m, x) \<in> set (gr_started g) \<union> set (gr_testing g @ [(n, e)]) \<Longrightarrow> m < gr_next g \<and> m \<notin> gr_handled g \<and> ready_record records m x" for m x
    using group_inv_pending [OF inv] n by auto
  ultimately show ?thesis using inv begin_test_inv [OF b si]
    unfolding group_inv_def by (simp del: map_append distinct_append set_append)
qed

lemma group_enter_inv [keeps]:
  assumes inv: "group_inv records g" and m: "(n, e) \<in> set (gr_started g)"
  shows "group_inv records (group_enter n e g)"
proof -
  note u = group_unstart_inv [OF inv m] and p = group_inv_pending [OF inv disjI1 [OF m]]
  show ?thesis
    using group_return_inv [OF u(1), of n e] group_join_inv [OF u(1), of n e] u(2,3) p
    by (auto simp: group_enter_def Let_def split: option.splits)
qed

lemma group_finish_inv [keeps]:
  assumes inv: "group_inv records g" and m: "(n, e) \<in> set (gr_testing g)"
  shows "group_inv records (group_finish cfg w pub_ok now n e g)"
proof -
  have si: "server_inv (gr_server g)" and e: "e \<in> set (testing (gr_server g))" and d: "distinct (map fst (gr_testing g))"
    using inv m unfolding group_inv_def by auto
  have "n \<in> fst ` set (gr_testing g)" using m by force
  then have dj: "n \<notin> fst ` set (gr_started g)" using inv unfolding group_inv_def by auto
  note l = group_leave_inv [OF inv m finish_test_inv [OF si e] testing_finish [OF si]] and p = group_inv_pending [OF inv disjI2 [OF m]]
  show ?thesis unfolding group_finish_def
    by (rule group_return_inv [OF l]) (use p dj remove1_pairs(2) [OF d m] in auto)
qed

lemma group_panic_inv [keeps]:
  assumes inv: "group_inv records g" and m: "(n, e) \<in> set (gr_testing g)"
  shows "group_inv records (group_panic n e g)"
proof -
  have si: "server_inv (gr_server g)" and e: "e \<in> set (testing (gr_server g))" using inv m unfolding group_inv_def by auto
  show ?thesis unfolding group_panic_def
    by (rule group_leave_inv [OF inv m release_inv [OF si e] testing_release [OF si]])
qed

lemma group_commit_inv [keeps]:
  assumes inv: "group_inv records g" and m: "n \<in> set (gr_returned g)"
  shows "group_inv records (group_commit ok n g)"
proof -
  have d: "distinct (gr_returned g)" using inv by (simp add: group_inv_def)
  have "n \<in> gr_handled g" using inv m by (auto simp: group_inv_def)
  then have new: "n \<notin> fst ` set (gr_started g)" "n \<notin> fst ` set (gr_testing g)" using group_inv_pending(2) [OF inv] by fastforce+
  have sub: "X \<inter> (R \<union> C) = {} \<Longrightarrow> X \<inter> (R - {n} \<union> C) = {}"
    "X \<inter> (T \<union> (R \<union> C)) = {} \<Longrightarrow> X \<inter> (T \<union> (R - {n} \<union> C)) = {}" for X T R C :: "nat set" by blast+
  have "distinct (map fst (gr_started g) @ map fst (gr_testing g) @ gr_returned (group_commit ok n g) @ gr_commits (group_commit ok n g))"
  proof (cases ok)
    case True
    have "n \<notin> set (gr_commits g)" "(set (gr_returned g) - {n}) \<inter> insert n (set (gr_commits g)) = {}"
      using inv m by (auto simp: group_inv_def)
    then show ?thesis using inv d m True sub new by (simp add: group_inv_def group_commit_def)
  next
    case False
    have "(set (gr_returned g) - {n}) \<inter> set (gr_commits g) = {}" using inv by (auto simp: group_inv_def)
    then show ?thesis using inv d False sub by (simp add: group_inv_def group_commit_def)
  qed
  moreover have "set (gr_returned (group_commit ok n g)) \<union> set (gr_commits (group_commit ok n g)) \<subseteq> gr_handled g"
    using inv m set_remove1_subset [of n "gr_returned g"] by (auto simp: group_inv_def group_commit_def)
  ultimately show ?thesis using inv unfolding group_inv_def
    by (simp add: group_commit_def del: map_append distinct_append)
qed

lemma group_run_inv [keeps]:
  assumes inv: "group_inv records g"
  shows "group_inv records (g\<lparr>gr_server := snd (runHandler is_post body (gr_server g))\<rparr>)"
proof -
  have "set (testing (gr_server g)) \<subseteq> set (testing (snd (runHandler is_post body (gr_server g))))"
    by (auto simp: runHandler_def begin_test_def split: run_body.splits)
  then show ?thesis using inv runHandler_inv [of "gr_server g" is_post body]
    unfolding group_inv_def by (simp del: map_append distinct_append) blast
qed

lemma group_run_ends_inv [keeps]:
  assumes inv: "group_inv records g" and e: "e \<in> set (testing (gr_server g))" "e \<notin> snd ` set (gr_testing g)"
  shows "group_inv records (g\<lparr>gr_server := finish_test cfg w pub_ok now e (gr_server g)\<rparr>)"
proof -
  have si: "server_inv (gr_server g)" using inv by (simp add: group_inv_def)
  show ?thesis using inv finish_test_inv [OF si e(1)] testing_finish [OF si] e(2)
    unfolding group_inv_def by (simp del: map_append distinct_append) blast
qed

interpretation consumer_group: system_invariant group_initial "group_step cfg records" "group_inv records" for cfg records
proof unfold_locales
  show "group_inv records g" if "group_initial g" for g
    using that by (simp add: group_initial_def group_inv_def server_inv_def server_start_def)
  show "group_inv records g'" if "group_inv records g" "group_step cfg records g g'" for g g'
    using that(2,1) by (cases rule: group_step.cases) (simp_all add: keeps)
qed

abbreviation group_reachable :: "OrchConfig \<Rightarrow> (nat \<Rightarrow> lifecycle) \<Rightarrow> Group \<Rightarrow> bool" where
  "group_reachable cfg records \<equiv> reach group_initial (group_step cfg records)"

lemma group_reachable_step: "group_reachable cfg records g \<Longrightarrow> group_step cfg records g g' \<Longrightarrow> group_reachable cfg records g'"
  by (rule reach_step)

section \<open>A later record overtakes an earlier one\<close>

lemma overtaking:
  assumes n: "(n, e) \<in> set (gr_testing g)" and m: "(m, e') \<in> set (gr_testing g)" and nm: "n \<noteq> m"
  shows "\<exists>g'. (group_step cfg records)\<^sup>*\<^sup>* g g' \<and> gr_commits g' = gr_commits g @ [m] \<and> (n, e) \<in> set (gr_testing g')"
proof -
  let ?g1 = "group_finish cfg \<lparr>j_create = \<lambda>_. None, j_warmup_cancelled = False, j_watch = \<lambda>_. Inr [JobModified (Some (1, 0))], j_ctx_over = False\<rparr> True 0 m e' g"
  have s1: "group_step cfg records g ?g1" by (rule gs_finish [OF m])
  have "m \<in> set (gr_returned ?g1)" by (simp add: group_finish_def group_return_def)
  then have s2: "group_step cfg records ?g1 (group_commit True m ?g1)" by (rule gs_commit)
  have "gr_commits (group_commit True m ?g1) = gr_commits g @ [m]" by (simp add: group_commit_def group_finish_def group_return_def)
  moreover have "(n, e) \<in> set (gr_testing (group_commit True m ?g1))"
    using n nm by (simp add: group_commit_def group_finish_def group_return_def in_set_remove1)
  moreover have "(group_step cfg records)\<^sup>*\<^sup>* g (group_commit True m ?g1)"
    using s1 s2 by (meson converse_rtranclp_into_rtranclp rtranclp.rtrancl_refl)
  ultimately show ?thesis by blast
qed

section \<open>Sample runs\<close>

definition two_records :: "nat \<Rightarrow> lifecycle" where
  "two_records n = SandboxReady (demo_ready (if n = 0 then ''a'' else ''b''))"

definition group_start :: Group where
  "group_start = \<lparr>gr_server = server_start, gr_next = 0, gr_started = [], gr_testing = [], gr_returned = [], gr_commits = [], gr_handled = {}\<rparr>"

definition two_running :: Group where
  "two_running = group_enter 1 (demo_ready ''b'') (group_enter 0 (demo_ready ''a'') (group_poll two_records (group_poll two_records group_start)))"

lemma two_running_facts: "gr_testing two_running = [(0, demo_ready ''a''), (1, demo_ready ''b'')]" "gr_commits two_running = []"
  by (simp_all add: two_running_def group_poll_def group_enter_def begin_test_def group_start_def server_start_def two_records_def
    demo_ready_def Let_def)

lemma two_running_reachable: "group_reachable cfg two_records two_running"
proof -
  let ?g2 = "group_poll two_records (group_poll two_records group_start)"
  have "group_reachable cfg two_records group_start" by (rule reach_init) (simp add: group_initial_def group_start_def)
  then have "group_reachable cfg two_records ?g2" by (intro group_reachable_step [OF _ gs_poll])
  moreover have "(0, demo_ready ''a'') \<in> set (gr_started ?g2)"
    by (simp add: group_poll_def group_start_def two_records_def demo_ready_def Let_def)
  ultimately have "group_reachable cfg two_records (group_enter 0 (demo_ready ''a'') ?g2)" by (rule group_reachable_step [OF _ gs_enter])
  moreover have "(1, demo_ready ''b'') \<in> set (gr_started (group_enter 0 (demo_ready ''a'') ?g2))"
    by (simp add: group_poll_def group_enter_def begin_test_def group_start_def server_start_def two_records_def demo_ready_def Let_def)
  ultimately show ?thesis unfolding two_running_def by (rule group_reachable_step [OF _ gs_enter])
qed

section \<open>Properties\<close>



text \<open>
  C39. A test can be lost. Offsets are committed per record from concurrent goroutines: while the test of
  record \<open>n\<close> runs, the test of a later record \<open>m\<close> can end and commit \<open>m\<close>. A consumer that resumes behind
  the last commit, as after a crash, then starts behind record \<open>n\<close>, whose test never ended.
\<close>

theorem commit_overtakes:
  assumes "group_reachable cfg records g" and "(n, e) \<in> set (gr_testing g)" and "(m, e') \<in> set (gr_testing g)" and "n < m"
    and resume: "\<And>cs k. resume (cs @ [k]) = Suc k"
  shows "\<exists>g'. group_reachable cfg records g' \<and> (n, e) \<in> set (gr_testing g') \<and> n \<notin> gr_handled g' \<and> n < resume (gr_commits g')"
proof -
  obtain g' where g': "(group_step cfg records)\<^sup>*\<^sup>* g g'" "gr_commits g' = gr_commits g @ [m]" "(n, e) \<in> set (gr_testing g')"
    using overtaking [OF assms(2,3)] assms(4) by blast
  have r: "group_reachable cfg records g'" by (rule reach_steps [OF g'(1) assms(1)])
  have "n \<notin> gr_handled g'" by (rule group_inv_pending(2) [OF consumer_group.inv_reach [OF r] disjI2 [OF g'(3)]])
  with r g' resume assms(4) show ?thesis by (intro exI [of _ g']) simp
qed

theorem commit_overtakes_witness:
  "\<exists>g. group_reachable demo_orch_config two_records g \<and> (0, demo_ready ''a'') \<in> set (gr_testing g) \<and> 0 < Suc (last (gr_commits g))"
  using commit_overtakes [OF two_running_reachable, of 0 "demo_ready ''a''" 1 "demo_ready ''b''" "\<lambda>cs. Suc (last cs)" demo_orch_config]
  by (auto simp: two_running_facts)

end
