(* ===== verification/Ingester_Commits.thy ===== *)
theory Ingester_Commits
  imports Ingester_System
begin

text \<open>
  The offsets of the telemetry ingester (\<open>Consumer.Run\<close> in \<open>src/services/telemetry-ingester/consumer.go\<close>):
  after every poll it commits what it has polled, which by then is in the buffer of the ingester.
\<close>

section \<open>Delivering and committing\<close>

text \<open>\<open>cn_acked\<close> is how many of the delivered events are covered by the last commit.\<close>

record Consumption =
  cn_sys :: IngesterSystem
  cn_acked :: nat

definition cons_commit :: "bool \<Rightarrow> Consumption \<Rightarrow> Consumption" where
  "cons_commit ok c = (if ok then c\<lparr>cn_acked := length (y_delivered (cn_sys c))\<rparr> else c)"

inductive cons_step :: "Consumption \<Rightarrow> Consumption \<Rightarrow> bool" where
  co_ingester: "ingester_step (cn_sys c) y \<Longrightarrow> cons_step c (c\<lparr>cn_sys := y\<rparr>)"
| co_commit: "cons_step c (cons_commit ok c)"

definition cons_initial :: "float64 \<Rightarrow> float64 \<Rightarrow> Consumption \<Rightarrow> bool" where
  "cons_initial L T c \<longleftrightarrow> ingester_initial L T (cn_sys c) \<and> cn_acked c = 0"

definition cons_inv :: "float64 \<Rightarrow> float64 \<Rightarrow> Consumption \<Rightarrow> bool" where
  "cons_inv L T c \<longleftrightarrow> ingester_inv L T (cn_sys c) \<and> cn_acked c \<le> length (y_delivered (cn_sys c))"

lemma delivered_grows: "ingester_step y y' \<Longrightarrow> length (y_delivered y) \<le> length (y_delivered y')"
  by (erule ingester_step.cases) (auto simp: sys_take_def sys_write_def split: option.splits)

interpretation consumption: system_invariant "cons_initial L T" cons_step "cons_inv L T" for L T
proof unfold_locales
  show "cons_inv L T c" if "cons_initial L T c" for c
    using that ingester.inv_init by (simp add: cons_initial_def cons_inv_def)
  show "cons_inv L T c'" if "cons_inv L T c" "cons_step c c'" for c c'
    using that(2,1)
  proof cases
    case (co_ingester y)
    then show ?thesis using that(1) ingester.inv_step [OF _ co_ingester(2)] delivered_grows [OF co_ingester(2)]
      by (auto simp: cons_inv_def)
  qed (auto simp: cons_inv_def cons_commit_def)
qed

lemma consumption_ingester: "reach (cons_initial L T) cons_step c \<Longrightarrow> reach (ingester_initial L T) ingester_step (cn_sys c)"
proof (induction rule: reach.induct)
  case (reach_init c)
  then show ?case by (intro reach.reach_init) (simp add: cons_initial_def)
next
  case (reach_step c c')
  from reach_step(2,3) show ?case by cases (auto simp: cons_commit_def intro: reach.reach_step)
qed

section \<open>Committed and lost\<close>

lemma failing_flush: "y_flushing y = Some pairs \<Longrightarrow>
  sys_write (\<lambda>n. \<lparr>w_ctx_done = False, w_send = cancelled_driver, w_time = 0\<rparr>) y = y\<lparr>y_flushing := None, y_closed := y_closing y\<rparr>"
proof -
  let ?ws = "\<lambda>n :: nat. \<lparr>w_ctx_done = False, w_send = cancelled_driver, w_time = 0\<rparr>"
  have "\<not> attempt_ok (?ws n) pairs db" if "pairs \<noteq> []" for n db
    using that by (cases pairs) (simp_all add: attempt_ok_def cancelled_driver_def batch_of_def pair_queries_def)
  then have "flush_loop 3 0 ?ws pairs db = db" if "pairs \<noteq> []" for db
    using that flush_loop_result [of ?ws 3 0 pairs db] cancelled_driver_atomic by (simp add: numeral_3_eq_3 upt_conv_Cons)
  then show "y_flushing y = Some pairs \<Longrightarrow> sys_write ?ws y = y\<lparr>y_flushing := None, y_closed := y_closing y\<rparr>"
    by (simp add: sys_write_def)
qed

text \<open>
  A committed event can be lost. From every state in which no flush runs, the next event can be
  delivered and its offset committed, and the flush that should write it can fail three times: then the
  event is committed, has no row, and is neither in the buffer nor being written, so neither the ingester
  nor a redelivery brings it back.
\<close>

theorem committed_event_lost:
  assumes r: "reach (cons_initial L T) cons_step c" and idle: "y_flushing (cn_sys c) = None" "\<not> y_closing (cn_sys c)"
  shows "\<exists>c'. reach (cons_initial L T) cons_step c' \<and> y_delivered (cn_sys c') = y_delivered (cn_sys c) @ [event] \<and>
    cn_acked c' = length (y_delivered (cn_sys c')) \<and> telemetry_events (y_db (cn_sys c')) = telemetry_events (y_db (cn_sys c)) \<and>
    eventBuffer (y_ingester (cn_sys c')) = [] \<and> y_flushing (cn_sys c') = None"
proof -
  let ?ws = "\<lambda>n :: nat. \<lparr>w_ctx_done = False, w_send = cancelled_driver, w_time = 0\<rparr>"
  define y1 where "y1 = sys_deliver True [] event (cn_sys c)"
  define c2 where "c2 = cons_commit True (c\<lparr>cn_sys := y1\<rparr>)"
  have s2: "cn_sys c2 = y1" "cn_acked c2 = length (y_delivered y1)" by (simp_all add: c2_def cons_commit_def)
  have idle1: "y_flushing y1 = None" "\<not> y_closing y1" using idle by (simp_all add: y1_def sys_deliver_def split_beta)
  have "reach (cons_initial L T) cons_step (c\<lparr>cn_sys := y1\<rparr>)"
    using r by (rule reach_step) (rule co_ingester, unfold y1_def, rule y_deliver)
  then have "reach (cons_initial L T) cons_step c2" unfolding c2_def by (rule reach_step) (rule co_commit)
  then have "reach (cons_initial L T) cons_step (c2\<lparr>cn_sys := sys_take y1\<rparr>)"
    by (rule reach_step) (rule co_ingester, unfold s2, rule y_tick [OF idle1])
  then have "reach (cons_initial L T) cons_step (c2\<lparr>cn_sys := sys_take y1\<rparr>\<lparr>cn_sys := sys_write ?ws (sys_take y1)\<rparr>)"
    by (rule reach_step) (rule co_ingester, simp, rule y_write; simp add: sys_take_def cancelled_driver_atomic)
  moreover have "sys_write ?ws (sys_take y1) = (sys_take y1)\<lparr>y_flushing := None, y_closed := y_closing y1\<rparr>"
    using failing_flush [of "sys_take y1" "eventBuffer (y_ingester y1)"] by (simp add: sys_take_def)
  ultimately show ?thesis
    by (intro exI [of _ "c2\<lparr>cn_sys := sys_take y1\<rparr>\<lparr>cn_sys := sys_write ?ws (sys_take y1)\<rparr>"])
      (simp add: s2 sys_take_def y1_def)
qed

theorem committed_event_lost_witness:
  "\<exists>c. reach (cons_initial (Fin 50000) (Fin 1000)) cons_step c \<and> y_delivered (cn_sys c) = [demo_event ''a'' 100 500] \<and>
     cn_acked c = 1 \<and> telemetry_events (y_db (cn_sys c)) = [] \<and> eventBuffer (y_ingester (cn_sys c)) = []"
proof -
  let ?c = "\<lparr>cn_sys = demo_system, cn_acked = 0\<rparr>"
  have "reach (cons_initial (Fin 50000) (Fin 1000)) cons_step ?c"
    by (rule reach_init) (simp add: cons_initial_def ingester_initial_def demo_system_def NewIngester_def demo_db_def Let_def)
  from committed_event_lost [OF this, of "demo_event ''a'' 100 500"] show ?thesis
    by (auto simp: demo_system_def demo_db_def)
qed

end
