(* ===== verification/Storage.thy ===== *)
theory Storage
  imports Submission_Props Build_Props Sandbox_Props
begin

text \<open>
  The object store as the services use it (\<open>src/services/submission-api/storage.go\<close> and
  \<open>src/services/build-service/storage.go\<close>): which object of which bucket an address is made for. The S3
  client is a parameter: \<open>sign op bucket key lifetime\<close> gives an address or an error, and the direct calls
  give an error or succeed.
\<close>

section \<open>Operations\<close>

datatype s3_op = PutObject | GetObject

type_synonym signer = "s3_op \<Rightarrow> string \<Rightarrow> string \<Rightarrow> int \<Rightarrow> go_error + string"

record Storage =
  sto_bucket :: string

text \<open>\<open>config\<close> is the error of loading the client's configuration, if there is one.\<close>

definition NewStorage :: "go_error option \<Rightarrow> string \<Rightarrow> go_error + Storage" where
  "NewStorage config bucket =
     (let bucket = (if bucket = [] then ''submissions'' else bucket)
      in case config of Some e \<Rightarrow> Inl (wrap ''load config'' e) | None \<Rightarrow> Inr \<lparr>sto_bucket = bucket\<rparr>)"

definition PresignUpload :: "signer \<Rightarrow> Storage \<Rightarrow> string \<Rightarrow> int \<Rightarrow> go_error + string" where
  "PresignUpload sign s key lifetime =
     (case sign PutObject (sto_bucket s) key lifetime of
        Inl e \<Rightarrow> Inl (wrap (''presign put object '' @ key) e) | Inr url \<Rightarrow> Inr url)"

definition Upload :: "(string \<Rightarrow> string \<Rightarrow> 'b \<Rightarrow> go_error option) \<Rightarrow> Storage \<Rightarrow> string \<Rightarrow> 'b \<Rightarrow> go_error option" where
  "Upload put s key r = map_option (wrap (''put object '' @ key)) (put (sto_bucket s) key r)"

definition Delete :: "(string \<Rightarrow> string \<Rightarrow> go_error option) \<Rightarrow> Storage \<Rightarrow> string \<Rightarrow> go_error option" where
  "Delete del s key = map_option (wrap (''delete object '' @ key)) (del (sto_bucket s) key)"

text \<open>The build service always uses the bucket \<open>submissions\<close>.\<close>

definition srcBucket :: string where
  "srcBucket = ''submissions''"

definition GeneratePresignedGetURL :: "signer \<Rightarrow> string \<Rightarrow> int \<Rightarrow> go_error + string" where
  "GeneratePresignedGetURL sign key expiry =
     (case sign GetObject srcBucket key expiry of
        Inl e \<Rightarrow> Inl (wrap (''presign get object '' @ key) e) | Inr url \<Rightarrow> Inr url)"

definition GeneratePresignedPutURL :: "signer \<Rightarrow> string \<Rightarrow> int \<Rightarrow> go_error + string" where
  "GeneratePresignedPutURL sign key expiry =
     (case sign PutObject srcBucket key expiry of
        Inl e \<Rightarrow> Inl (wrap (''presign put object '' @ key) e) | Inr url \<Rightarrow> Inr url)"

text \<open>Addresses are valid for fifteen minutes; the services' signers, as their handlers use them.\<close>

definition lifetime :: int where
  "lifetime = 15 * 60 * 1000000000"

definition api_presign :: "signer \<Rightarrow> Storage \<Rightarrow> string \<Rightarrow> go_error + string" where
  "api_presign sign s key = PresignUpload sign s key lifetime"

definition signing :: "signer \<Rightarrow> BuildWorld \<Rightarrow> BuildWorld" where
  "signing sign w = w\<lparr>w_presign_get := \<lambda>key. GeneratePresignedGetURL sign key lifetime,
     w_presign_put := \<lambda>key. GeneratePresignedPutURL sign key lifetime\<rparr>"

section \<open>The way of an artifact\<close>

text \<open>What an address is good for, as the store reads it.\<close>

definition signed :: "signer \<Rightarrow> (string \<Rightarrow> s3_op \<times> string \<times> string) \<Rightarrow> bool" where
  "signed sign resolve \<longleftrightarrow> (\<forall>op bucket key t url. sign op bucket key t = Inr url \<longrightarrow> resolve url = (op, bucket, key))"

lemma PresignUpload_signed: "signed sign resolve \<Longrightarrow> PresignUpload sign s key t = Inr url \<Longrightarrow> resolve url = (PutObject, sto_bucket s, key)"
  by (auto simp: signed_def PresignUpload_def split: sum.splits)

lemma GeneratePresignedGetURL_signed:
  "signed sign resolve \<Longrightarrow> GeneratePresignedGetURL sign key t = Inr url \<Longrightarrow> resolve url = (GetObject, srcBucket, key)"
  by (auto simp: signed_def GeneratePresignedGetURL_def split: sum.splits)

lemma GeneratePresignedPutURL_signed:
  "signed sign resolve \<Longrightarrow> GeneratePresignedPutURL sign key t = Inr url \<Longrightarrow> resolve url = (PutObject, srcBucket, key)"
  by (auto simp: signed_def GeneratePresignedPutURL_def split: sum.splits)

lemma accepted_url:
  assumes "handleSubmitInit body uuid presign tm pending = (InitAccepted rs, pending')"
  shows "presign (artifact_key uuid) = Inr (rs_PresignedURL rs) \<and> rs_ArtifactKey rs = artifact_key uuid \<and> rs_SubmissionID rs = uuid"
  using assms by (auto simp: handleSubmitInit_def split: option.splits if_splits sum.splits)

text \<open>The addresses the containers of a build pod get.\<close>

definition source_url :: "Pod \<Rightarrow> string option" where
  "source_url pod = map_of (concat (map ct_Env (pod_Init pod))) ''SOURCE_URL''"

definition binary_url :: "Pod \<Rightarrow> string option" where
  "binary_url pod = map_of (concat (map ct_Env (pod_Init pod))) ''BINARY_UPLOAD_URL''"

lemma build_pod_urls: "source_url (build_pod n img cmd src dst) = Some src" "binary_url (build_pod n img cmd src dst) = Some dst"
  by (simp_all add: source_url_def binary_url_def build_pod_def blank_container_def)

section \<open>A signer\<close>

text \<open>An address that names the operation, the length of the bucket's name, the bucket and the key.\<close>

definition demo_sign :: signer where
  "demo_sign op bucket key t = Inr ((case op of PutObject \<Rightarrow> CHR ''p'' | GetObject \<Rightarrow> CHR ''g'') # dec_nat (length bucket) @ CHR '':'' # bucket @ key)"

definition demo_resolve :: "string \<Rightarrow> s3_op \<times> string \<times> string" where
  "demo_resolve url =
     (let n = digits_val (takeWhile is_digit (tl url)); rest = tl (dropWhile is_digit (tl url))
      in (if hd url = CHR ''p'' then PutObject else GetObject, take n rest, drop n rest))"

lemma demo_signed: "signed demo_sign demo_resolve"
proof -
  have c: "\<not> is_digit (CHR '':'')" by code_simp
  have d: "list_all is_digit (dec_nat n)" for n using dec_nat_digits by (simp add: list_all_iff)
  have "takeWhile is_digit (dec_nat n @ CHR '':'' # r) = dec_nat n" "dropWhile is_digit (dec_nat n @ CHR '':'' # r) = CHR '':'' # r" for n r
    using c d [of n] by (simp_all add: takeWhile_append dropWhile_append list_all_iff)
  then show ?thesis by (auto simp: signed_def demo_sign_def demo_resolve_def Let_def split: s3_op.splits)
qed

section \<open>Properties\<close>

text \<open>
  The way of an artifact through the object store. The address the API hands out stores the source
  under the submission's key in the API's bucket; the build pod of the submission fetches this key and
  stores the binary under \<open>builds/\<close>, both in the bucket \<open>submissions\<close>, where the sandbox downloads it from.
  So the build fetches what the client has stored exactly when the API uses this bucket as well.
\<close>

theorem artifact_flow:
  assumes sg: "signed sign resolve"
    and api: "handleSubmitInit body uuid (api_presign sign s) tm pending = (InitAccepted rs, pending')"
    and ev: "sc_SubmissionID event = rs_SubmissionID rs" "sc_ArtifactPath event = rs_ArtifactKey rs"
    and pod: "build_ready (signing sign w) event pod"
  shows "resolve (rs_PresignedURL rs) = (PutObject, sto_bucket s, artifact_key uuid) \<and>
    map_option resolve (source_url pod) = Some (GetObject, ''submissions'', artifact_key uuid) \<and>
    map_option resolve (binary_url pod) = Some (PutObject, ''submissions'', ''builds/'' @ uuid @ ''/binary'') \<and>
    (map_option (snd \<circ> resolve) (source_url pod) = Some (snd (resolve (rs_PresignedURL rs))) \<longleftrightarrow> sto_bucket s = ''submissions'')"
proof -
  note a = accepted_url [OF api]
  have u: "resolve (rs_PresignedURL rs) = (PutObject, sto_bucket s, artifact_key uuid)"
    using PresignUpload_signed [OF sg] a unfolding api_presign_def by blast
  from pod obtain img cmd src dst where p: "GeneratePresignedGetURL sign (sc_ArtifactPath event) lifetime = Inr src"
    "GeneratePresignedPutURL sign (''builds/'' @ sc_SubmissionID event @ ''/binary'') lifetime = Inr dst"
    "pod = build_pod (''build-'' @ sc_SubmissionID event) img cmd src dst"
    by (auto simp: build_ready_def signing_def)
  have "resolve src = (GetObject, srcBucket, artifact_key uuid)" "resolve dst = (PutObject, srcBucket, ''builds/'' @ uuid @ ''/binary'')"
    using GeneratePresignedGetURL_signed [OF sg p(1)] GeneratePresignedPutURL_signed [OF sg p(2)] a ev by simp_all
  then show ?thesis using u by (auto simp: p(3) build_pod_urls srcBucket_def)
qed

theorem artifact_flow_witness:
  "\<exists>rs pending' pod. handleSubmitInit (Some demo_request) ''u1'' (api_presign demo_sign \<lparr>sto_bucket = ''archive''\<rparr>) 100 Map.empty = (InitAccepted rs, pending') \<and>
     demo_resolve (rs_PresignedURL rs) = (PutObject, ''archive'', ''submissions/u1.tar.gz'') \<and>
     map_option demo_resolve (source_url pod) = Some (GetObject, ''submissions'', ''submissions/u1.tar.gz'')"
proof -
  let ?w = "demo_build_world PodSucceeded" and ?s = "\<lparr>sto_bucket = ''archive''\<rparr>"
  obtain url where url: "api_presign demo_sign ?s (artifact_key ''u1'') = Inr url"
    by (simp add: api_presign_def PresignUpload_def demo_sign_def)
  obtain rs pending' where h: "handleSubmitInit (Some demo_request) ''u1'' (api_presign demo_sign ?s) 100 Map.empty = (InitAccepted rs, pending')"
    "rs_SubmissionID rs = ''u1''" "rs_ArtifactKey rs = artifact_key ''u1''"
    using demo_team url by (simp add: handleSubmitInit_def demo_request_def allowedLanguages_def maxTeamNameLen_def)
  obtain src dst where sd: "GeneratePresignedGetURL demo_sign (sc_ArtifactPath demo_created) lifetime = Inr src"
    "GeneratePresignedPutURL demo_sign (''builds/'' @ sc_SubmissionID demo_created @ ''/binary'') lifetime = Inr dst"
    by (simp add: GeneratePresignedGetURL_def GeneratePresignedPutURL_def demo_sign_def)
  obtain img cmd where ic: "buildImages (sc_Language demo_created) = Some img" "buildCommands (sc_Language demo_created) = Some cmd"
    by (simp add: demo_created_def buildImages_def buildCommands_def)
  have pod: "build_ready (signing demo_sign ?w) demo_created (build_pod (''build-'' @ sc_SubmissionID demo_created) img cmd src dst)"
    using sd ic by (auto simp: build_ready_def signing_def demo_build_world_def)
  have ev: "sc_SubmissionID demo_created = rs_SubmissionID rs" "sc_ArtifactPath demo_created = rs_ArtifactKey rs"
    using h(2,3) by (simp_all add: demo_created_def artifact_key_def)
  from artifact_flow [OF demo_signed h(1) ev pod] h(1) show ?thesis unfolding artifact_key_def by auto
qed

end
