(* ===== verification/Startup.thy ===== *)
theory Startup
  imports Configuration Storage
begin

text \<open>
  The constructors the services call when they start (\<open>NewPublisher\<close>, \<open>NewConsumer\<close>, \<open>NewBuilder\<close>,
  \<open>NewOrchestrator\<close>, \<open>NewIngester\<close>), the clients they configure, and each service's start from its
  environment. Whether a client can be made is for the client libraries to say: they are arguments that
  take the options and answer with an error, or not.
\<close>

section \<open>Clients of the broker\<close>

record KafkaOpts =
  ko_SeedBrokers :: "string list"
  ko_ConsumerGroup :: "string option"
  ko_ConsumeTopics :: "string list"
  ko_DisableAutoCommit :: bool

type_synonym kafka = "KafkaOpts \<Rightarrow> string option"

definition producer_opts :: "string list \<Rightarrow> KafkaOpts" where
  "producer_opts brokers =
     \<lparr>ko_SeedBrokers = brokers, ko_ConsumerGroup = None, ko_ConsumeTopics = [], ko_DisableAutoCommit = False\<rparr>"

definition consumer_opts :: "string \<Rightarrow> string list \<Rightarrow> string \<Rightarrow> KafkaOpts" where
  "consumer_opts groupName brokers topic =
     \<lparr>ko_SeedBrokers = brokers, ko_ConsumerGroup = Some groupName, ko_ConsumeTopics = [topic], ko_DisableAutoCommit = True\<rparr>"

record KafkaClient =
  kc_opts :: KafkaOpts
  kc_topic :: string

text \<open>The publishers of the four services are made alike; two of the consumers pass on the error as it is.\<close>

definition NewPublisher :: "kafka \<Rightarrow> string list \<Rightarrow> string \<Rightarrow> string + KafkaClient" where
  "NewPublisher NewClient brokers topic =
     (case NewClient (producer_opts brokers) of Some e \<Rightarrow> Inl (''new kafka client: '' @ e)
      | None \<Rightarrow> Inr \<lparr>kc_opts = producer_opts brokers, kc_topic = topic\<rparr>)"

definition build_NewConsumer :: "kafka \<Rightarrow> string list \<Rightarrow> string \<Rightarrow> string + KafkaClient" where
  "build_NewConsumer NewClient brokers topic =
     (let opts = consumer_opts ''build-service'' brokers topic
      in case NewClient opts of Some e \<Rightarrow> Inl (''new kafka client: '' @ e) | None \<Rightarrow> Inr \<lparr>kc_opts = opts, kc_topic = topic\<rparr>)"

definition sandbox_NewConsumer :: "kafka \<Rightarrow> string list \<Rightarrow> string \<Rightarrow> string + KafkaClient" where
  "sandbox_NewConsumer NewClient brokers topic =
     (let opts = consumer_opts ''sandbox-orchestrator'' brokers topic
      in case NewClient opts of Some e \<Rightarrow> Inl (''new kafka client: '' @ e) | None \<Rightarrow> Inr \<lparr>kc_opts = opts, kc_topic = topic\<rparr>)"

definition orch_NewConsumer :: "kafka \<Rightarrow> string list \<Rightarrow> string \<Rightarrow> string + KafkaClient" where
  "orch_NewConsumer NewClient brokers topic =
     (let opts = consumer_opts ''bot-orchestrator'' brokers topic
      in case NewClient opts of Some e \<Rightarrow> Inl e | None \<Rightarrow> Inr \<lparr>kc_opts = opts, kc_topic = topic\<rparr>)"

definition ingester_NewConsumer :: "kafka \<Rightarrow> string list \<Rightarrow> string \<Rightarrow> string + KafkaClient" where
  "ingester_NewConsumer NewClient brokers topic =
     (let opts = consumer_opts ''telemetry-ingester'' brokers topic
      in case NewClient opts of Some e \<Rightarrow> Inl e | None \<Rightarrow> Inr \<lparr>kc_opts = opts, kc_topic = topic\<rparr>)"

section \<open>Clients of the store and the cluster\<close>

text \<open>The object store is addressed by path, with fixed credentials.\<close>

record S3Client =
  s3_Region :: string
  s3_BaseEndpoint :: string
  s3_UsePathStyle :: bool

text \<open>What the libraries answer: errors of the AWS configuration, the cluster's configuration and its client.\<close>

record Platform =
  pf_aws :: "string option"
  pf_incluster :: "string option"
  pf_clientset :: "string option"

record Builder =
  bl_s3Client :: S3Client
  bl_maxLogBytes :: int

definition NewBuilder :: "Platform \<Rightarrow> string \<Rightarrow> int \<Rightarrow> string + Builder" where
  "NewBuilder p seaweedfsEndpoint maxLogBytes =
     (case pf_aws p of Some e \<Rightarrow> Inl (''load aws config: '' @ e)
      | None \<Rightarrow>
          (let s3 = \<lparr>s3_Region = ''us-east-1'', s3_BaseEndpoint = seaweedfsEndpoint, s3_UsePathStyle = True\<rparr>
           in case pf_incluster p of Some e \<Rightarrow> Inl (''k8s in-cluster config: '' @ e)
              | None \<Rightarrow> (case pf_clientset p of Some e \<Rightarrow> Inl (''k8s clientset: '' @ e)
                  | None \<Rightarrow> Inr \<lparr>bl_s3Client = s3, bl_maxLogBytes = maxLogBytes\<rparr>)))"

record SandboxOrchestrator =
  so_seaweedfsEndpoint :: string
  so_s3Client :: S3Client
  so_cfg :: SandboxConfig

definition sandbox_NewOrchestrator :: "Platform \<Rightarrow> string \<Rightarrow> SandboxConfig \<Rightarrow> string + SandboxOrchestrator" where
  "sandbox_NewOrchestrator p seaweedfsEndpoint cfg =
     (case pf_aws p of Some e \<Rightarrow> Inl (''load aws config: '' @ e)
      | None \<Rightarrow>
          (let s3 = \<lparr>s3_Region = ''us-east-1'', s3_BaseEndpoint = seaweedfsEndpoint, s3_UsePathStyle = True\<rparr>
           in case pf_incluster p of Some e \<Rightarrow> Inl (''k8s in-cluster config: '' @ e)
              | None \<Rightarrow> (case pf_clientset p of Some e \<Rightarrow> Inl (''k8s clientset: '' @ e)
                  | None \<Rightarrow> Inr \<lparr>so_seaweedfsEndpoint = seaweedfsEndpoint, so_s3Client = s3, so_cfg = cfg\<rparr>)))"

record BotOrchestrator =
  bo_publisher :: KafkaClient
  bo_cfg :: OrchConfig

definition orch_NewOrchestrator :: "Platform \<Rightarrow> KafkaClient \<Rightarrow> OrchConfig \<Rightarrow> string + BotOrchestrator" where
  "orch_NewOrchestrator p publisher cfg =
     (case pf_incluster p of Some e \<Rightarrow> Inl (''in-cluster config: '' @ e)
      | None \<Rightarrow> (case pf_clientset p of Some e \<Rightarrow> Inl (''k8s client: '' @ e)
          | None \<Rightarrow> Inr \<lparr>bo_publisher = publisher, bo_cfg = cfg\<rparr>))"

section \<open>The ingester\<close>

text \<open>
  \<open>NewIngester\<close> with its connections: the turns of the two retry loops give the outcome, if there is
  one, and what is held then. Only then is the ceiling of the latency looked at.
\<close>

datatype holding = RedisClient | PostgresPool | FlushTicker

definition StartIngester ::
    "connect_turn list \<Rightarrow> pg_turn list \<Rightarrow> float64 \<Rightarrow> float64 \<Rightarrow> (error + Ingester) option \<times> holding list" where
  "StartIngester rts pts maxLatencyUS maxTPS =
     (case fst (connectRedis rts) of
        None \<Rightarrow> (None, [RedisClient])
      | Some (Inl e) \<Rightarrow> (Some (Inl e), [])
      | Some (Inr _) \<Rightarrow>
          (case fst (connectPostgres pts) of
             None \<Rightarrow> (None, [RedisClient])
           | Some (Inl e) \<Rightarrow> (Some (Inl e), [])
           | Some (Inr _) \<Rightarrow> (Some (NewIngester maxLatencyUS maxTPS), [RedisClient, PostgresPool, FlushTicker])))"

text \<open>A cancelled start holds nothing; a refused ceiling leaves everything open.\<close>

lemma connectRedis_error: "fst (connectRedis_loop b rts) = Some (Inl e) \<Longrightarrow> e = ContextDone"
proof (induction b rts rule: connectRedis_loop.induct)
  case (2 b t ts)
  then show ?case by (cases "connectRedis_loop (next_backoff b) ts") (auto split: if_splits)
qed simp

lemma connectPostgres_error: "fst (connectPostgres_loop b pts) = Some (Inl e) \<Longrightarrow> e = ContextDone"
proof (induction b pts rule: connectPostgres_loop.induct)
  case (2 b t ts)
  then show ?case by (cases "connectPostgres_loop (next_backoff b) ts") (auto split: if_splits)
qed simp

lemma start_cancelled: "fst (StartIngester rts pts l t) = Some (Inl ContextDone) \<Longrightarrow> snd (StartIngester rts pts l t) = []"
  by (auto simp: StartIngester_def NewIngester_def Let_def split: option.splits sum.splits if_splits)

lemma refused_start_leaks:
  "fst (StartIngester rts pts l t) = Some (Inl ConfigError) \<Longrightarrow>
   snd (StartIngester rts pts l t) = [RedisClient, PostgresPool, FlushTicker]"
  by (auto simp: StartIngester_def connectRedis_def connectPostgres_def dest: connectRedis_error connectPostgres_error split: option.splits sum.splits)

text \<open>
  A ceiling that is not a number passes the check, which asks only whether it is at most zero; then every
  score is not a number, and no event ever reaches the leaderboard.
\<close>

lemma nan_ceiling_silences_board:
  assumes "env ''MAX_LATENCY_US'' = Some ''nan''" and "ingester_settings env = Inr s"
  shows "is_MaxLatencyUS s = NaN" and "NewIngester (is_MaxLatencyUS s) t = Inr \<lparr>maxAcceptableLatencyUS = NaN, maxAcceptableTPS = t, eventBuffer = []\<rparr>"
    and "maxAcceptableLatencyUS ing = NaN \<Longrightarrow> snd (Handle up tm event ing r) = r"
proof -
  show nan: "is_MaxLatencyUS s = NaN"
  proof -
    have "envFloat env ''MAX_LATENCY_US'' (Fin 50000) = NaN"
      by (simp only: envFloat_def Getenv_def assms(1) option.case Let_def ParseFloat_examples(1)) simp
    moreover have "is_MaxLatencyUS s = envFloat env ''MAX_LATENCY_US'' (Fin 50000)"
      using assms(2) unfolding ingester_settings_def Let_def by (clarsimp split: if_splits)
    ultimately show ?thesis by simp
  qed
  then show "NewIngester (is_MaxLatencyUS s) t = Inr \<lparr>maxAcceptableLatencyUS = NaN, maxAcceptableTPS = t, eventBuffer = []\<rparr>"
    by (simp add: NewIngester_def)
  have a: "f_add NaN z = NaN" "f_add z NaN = NaN" "f_mul NaN z = NaN" "f_div z NaN = NaN" "f_sub z NaN = NaN" for z
    by (cases z; simp add: f_sub_def)+
  assume "maxAcceptableLatencyUS ing = NaN"
  then have "computeScore (maxAcceptableLatencyUS ing) m event = NaN" for m by (simp add: computeScore_def a)
  then show "snd (Handle up tm event ing r) = r"
    by (simp add: Handle_def updateLeaderboard_def json_Marshal_entry_def make_entry_def is_finite_def)
qed

section \<open>From the environment to the run\<close>

definition made :: "string + 'a \<Rightarrow> make" where
  "made r = (case r of Inl e \<Rightarrow> Some e | Inr _ \<Rightarrow> None)"

definition build_main :: "kafka \<Rightarrow> Platform \<Rightarrow> environ \<Rightarrow> run_end \<Rightarrow> bool \<Rightarrow> string \<Rightarrow> run_result" where
  "build_main NewClient p env loop_end ctx_over msg =
     (let s = build_settings env
      in build_run (made (NewPublisher NewClient (bs_Brokers s) (bs_Topic s)))
           (made (NewBuilder p (bs_Endpoint s) (bs_MaxLogBytes s)))
           (made (build_NewConsumer NewClient (bs_Brokers s) (bs_Topic s))) loop_end ctx_over msg)"

definition sandbox_main :: "kafka \<Rightarrow> Platform \<Rightarrow> environ \<Rightarrow> run_end \<Rightarrow> bool \<Rightarrow> string \<Rightarrow> run_result" where
  "sandbox_main NewClient p env loop_end ctx_over msg =
     (let s = sandbox_settings env
      in sandbox_run (made (NewPublisher NewClient (ss_Brokers s) (ss_Topic s)))
           (made (sandbox_NewOrchestrator p (ss_Endpoint s) (ss_Config s)))
           (made (sandbox_NewConsumer NewClient (ss_Brokers s) (ss_Topic s))) loop_end ctx_over msg)"

definition orch_main :: "kafka \<Rightarrow> Platform \<Rightarrow> environ \<Rightarrow> make \<Rightarrow> run_result" where
  "orch_main NewClient p env shutdown =
     (let s = orch_settings env; pub = NewPublisher NewClient (or_Brokers s) (or_Topic s)
      in orch_run (made pub)
           (case pub of Inl _ \<Rightarrow> None | Inr k \<Rightarrow> made (orch_NewOrchestrator p k (or_Config s)))
           (made (orch_NewConsumer NewClient (or_Brokers s) (or_Topic s))) shutdown)"

text \<open>
  Services that are configured with one topic are wired together: what the publishers write to is what
  the consumers read, each consumer group is of its own and sees every record, and no offset is committed
  but by the code.
\<close>

lemma lifecycle_wired:
  assumes "NewPublisher k (ap_Brokers (api_settings e1)) (ap_Topic (api_settings e1)) = Inr p"
    and "build_NewConsumer k (bs_Brokers (build_settings e2)) (bs_Topic (build_settings e2)) = Inr b"
    and "sandbox_NewConsumer k (ss_Brokers (sandbox_settings e3)) (ss_Topic (sandbox_settings e3)) = Inr s"
    and "orch_NewConsumer k (or_Brokers (orch_settings e4)) (or_Topic (orch_settings e4)) = Inr o'"
    and "Getenv e1 ''KAFKA_TOPIC'' = t" "Getenv e2 ''KAFKA_TOPIC'' = t" "Getenv e3 ''KAFKA_TOPIC'' = t" "Getenv e4 ''KAFKA_TOPIC'' = t"
  shows "\<forall>c \<in> {b, s, o'}. ko_ConsumeTopics (kc_opts c) = [kc_topic p] \<and> kc_topic c = kc_topic p \<and> ko_DisableAutoCommit (kc_opts c)"
    and "distinct (map (ko_ConsumerGroup \<circ> kc_opts) [b, s, o'])"
proof -
  note d = NewPublisher_def build_NewConsumer_def sandbox_NewConsumer_def orch_NewConsumer_def Let_def
  have p: "kc_topic p = ap_Topic (api_settings e1)" using assms(1) by (auto simp: d split: option.splits)
  have b: "b = \<lparr>kc_opts = consumer_opts ''build-service'' (bs_Brokers (build_settings e2)) (bs_Topic (build_settings e2)), kc_topic = bs_Topic (build_settings e2)\<rparr>"
    using assms(2) by (auto simp: d split: option.splits)
  have s: "s = \<lparr>kc_opts = consumer_opts ''sandbox-orchestrator'' (ss_Brokers (sandbox_settings e3)) (ss_Topic (sandbox_settings e3)), kc_topic = ss_Topic (sandbox_settings e3)\<rparr>"
    using assms(3) by (auto simp: d split: option.splits)
  have o: "o' = \<lparr>kc_opts = consumer_opts ''bot-orchestrator'' (or_Brokers (orch_settings e4)) (or_Topic (orch_settings e4)), kc_topic = or_Topic (orch_settings e4)\<rparr>"
    using assms(4) by (auto simp: d split: option.splits)
  have "bs_Topic (build_settings e2) = kc_topic p" "ss_Topic (sandbox_settings e3) = kc_topic p" "or_Topic (orch_settings e4) = kc_topic p"
    using assms(5-8) by (simp_all add: p api_settings_def build_settings_def sandbox_settings_def orch_settings_def envStr_def Let_def)
  then show "\<forall>c \<in> {b, s, o'}. ko_ConsumeTopics (kc_opts c) = [kc_topic p] \<and> kc_topic c = kc_topic p \<and> ko_DisableAutoCommit (kc_opts c)"
    by (simp add: b s o consumer_opts_def)
  show "distinct (map (ko_ConsumerGroup \<circ> kc_opts) [b, s, o'])" by (simp add: b s o consumer_opts_def)
qed

text \<open>
  The brokers need not agree: the submission API does not trim its list. With a blank after the comma it
  gives the client an address that begins with the blank; the build service never does.
\<close>

lemma api_brokers_untrimmed:
  assumes "env ''REDPANDA_BROKERS'' = Some ''a:1, b:1''"
  shows "ap_Brokers (api_settings env) = [''a:1'', '' b:1'']" and "\<not> broker_ok '' b:1''"
    and "list_all broker_ok (bs_Brokers (build_settings env))"
proof -
  have e: "envStr env ''REDPANDA_BROKERS'' d = ''a:1, b:1''" for d using assms by (simp add: envStr_Some)
  have "Split (CHR '','') ''a:1, b:1'' = [''a:1'', '' b:1'']" by code_simp
  then show "ap_Brokers (api_settings env) = [''a:1'', '' b:1'']" unfolding api_settings_def e by simp
  have "CHR '' '' = char_of (32::nat)" by code_simp
  then have "[CHR '' ''] \<in> set spaces" by (simp add: spaces_def space_bytes_def)
  then have "\<not> trimmed '' b:1''" unfolding trimmed_def list_all_iff by force
  then show "\<not> broker_ok '' b:1''" by (simp add: broker_ok_def)
  show "list_all broker_ok (bs_Brokers (build_settings env))" by (simp add: build_settings_def broker_list_ok)
qed

end
