(* ===== verification/Shutdown.thy ===== *)
theory Shutdown
  imports Submission_Props Orchestration_Props
begin

text \<open>
  How two services end after a signal: \<open>run\<close> of \<open>src/services/submission-api/main.go\<close> and of
  \<open>src/services/bot-orchestrator/main.go\<close>. \<open>Shutdown\<close> of Go's HTTP server closes the listener at once, so
  that \<open>ListenAndServe\<close> returns, and itself returns when no request is in progress or its time is over.
  What waits for which of the two decides what the end of the process cuts off.
\<close>

section \<open>The submission API\<close>

text \<open>
  The goroutine of \<open>Shutdown\<close> is not waited for: \<open>run\<close> returns once \<open>ListenAndServe\<close> has, closes the
  publisher, and the process ends. Requests that have been read before may be served until then.
\<close>

record ApiProcess =
  pr_api :: Api
  pr_signalled :: bool
  pr_refusing :: bool
  pr_exited :: bool

definition api_signal :: "ApiProcess \<Rightarrow> ApiProcess" where
  "api_signal p = p\<lparr>pr_signalled := True\<rparr>"

definition api_shutdown :: "ApiProcess \<Rightarrow> ApiProcess" where
  "api_shutdown p = p\<lparr>pr_refusing := True\<rparr>"

definition api_return :: "ApiProcess \<Rightarrow> ApiProcess" where
  "api_return p = p\<lparr>pr_exited := True\<rparr>"

inductive process_step :: "ApiProcess \<Rightarrow> ApiProcess \<Rightarrow> bool" where
  ps_serve: "\<not> pr_exited p \<Longrightarrow> api_step (pr_api p) a \<Longrightarrow> process_step p (p\<lparr>pr_api := a\<rparr>)"
| ps_signal: "\<not> pr_exited p \<Longrightarrow> process_step p (api_signal p)"
| ps_shutdown: "\<not> pr_exited p \<Longrightarrow> pr_signalled p \<Longrightarrow> process_step p (api_shutdown p)"
| ps_return: "\<not> pr_exited p \<Longrightarrow> pr_refusing p \<Longrightarrow> process_step p (api_return p)"

inductive_cases process_stepE: "process_step p q"

definition process_initial :: "ApiProcess \<Rightarrow> bool" where
  "process_initial p \<longleftrightarrow> p = \<lparr>pr_api = api_start, pr_signalled = False, pr_refusing = False, pr_exited = False\<rparr>"

abbreviation process_reachable :: "ApiProcess \<Rightarrow> bool" where
  "process_reachable \<equiv> reach process_initial process_step"

lemma process_reachable_step: "process_reachable p \<Longrightarrow> process_step p q \<Longrightarrow> process_reachable q"
  by (rule reach_step)

text \<open>The requests are those of the handlers' system; the process ends only after a signal.\<close>

definition process_inv :: "ApiProcess \<Rightarrow> bool" where
  "process_inv p \<longleftrightarrow> api_reachable (pr_api p) \<and> (pr_refusing p \<longrightarrow> pr_signalled p) \<and> (pr_exited p \<longrightarrow> pr_refusing p)"

interpretation process: system_invariant process_initial process_step process_inv
proof unfold_locales
  show "process_inv p" if "process_initial p" for p
    using that by (simp add: process_initial_def process_inv_def api_start_reachable)
  show "process_inv q" if "process_inv p" "process_step p q" for p q
    using that(2,1)
    by (cases rule: process_step.cases)
      (auto simp: process_inv_def api_signal_def api_shutdown_def api_return_def intro: api_reachable_step)
qed

lemma exited_stays: "process_step\<^sup>*\<^sup>* p q \<Longrightarrow> pr_exited p \<Longrightarrow> q = p"
proof (induction rule: rtranclp_induct)
  case (step q r)
  then show ?case by (auto elim: process_stepE)
qed simp

lemma api_may_end:
  assumes "\<not> pr_exited p"
  shows "process_step\<^sup>*\<^sup>* p (api_return (api_shutdown (api_signal p)))"
proof -
  have "process_step p (api_signal p)" using assms by (rule ps_signal)
  moreover have "process_step (api_signal p) (api_shutdown (api_signal p))"
    using assms by (intro ps_shutdown) (simp_all add: api_signal_def)
  moreover have "process_step (api_shutdown (api_signal p)) (api_return (api_shutdown (api_signal p)))"
    using assms by (intro ps_return) (simp_all add: api_signal_def api_shutdown_def)
  ultimately show ?thesis by (meson converse_rtranclp_into_rtranclp rtranclp.rtrancl_refl)
qed

section \<open>The bot orchestrator\<close>

text \<open>
  Here \<open>run\<close> waits for \<open>Shutdown\<close> and then for the HTTP server and the consumer loop; the goroutines of
  the tests are in no wait group. A shutdown that runs out of time ends \<open>run\<close> with an error.
\<close>

record OrchProcess =
  oc_server :: Server
  oc_requests :: nat
  oc_signalled :: bool
  oc_refusing :: bool
  oc_drained :: bool
  oc_loop_over :: bool
  oc_exited :: "string option option"

definition oc_answer :: "bool \<Rightarrow> run_body \<Rightarrow> OrchProcess \<Rightarrow> OrchProcess" where
  "oc_answer is_post body p = p\<lparr>oc_requests := oc_requests p - 1, oc_server := snd (runHandler is_post body (oc_server p))\<rparr>"

definition oc_expire :: "string \<Rightarrow> OrchProcess \<Rightarrow> OrchProcess" where
  "oc_expire e p = p\<lparr>oc_exited := Some (Some (''http server shutdown: '' @ e))\<rparr>"

definition oc_return :: "OrchProcess \<Rightarrow> OrchProcess" where
  "oc_return p = p\<lparr>oc_exited := Some None\<rparr>"

inductive ending_step :: "OrchConfig \<Rightarrow> OrchProcess \<Rightarrow> OrchProcess \<Rightarrow> bool" for cfg where
  es_accept: "oc_exited p = None \<Longrightarrow> \<not> oc_refusing p \<Longrightarrow> ending_step cfg p (p\<lparr>oc_requests := Suc (oc_requests p)\<rparr>)"
| es_answer: "oc_exited p = None \<Longrightarrow> 0 < oc_requests p \<Longrightarrow> ending_step cfg p (oc_answer is_post body p)"
| es_consume: "oc_exited p = None \<Longrightarrow> \<not> oc_loop_over p \<Longrightarrow>
    ending_step cfg p (p\<lparr>oc_server := consume_ready record (oc_server p)\<rparr>)"
| es_finish: "oc_exited p = None \<Longrightarrow> e \<in> set (testing (oc_server p)) \<Longrightarrow>
    ending_step cfg p (p\<lparr>oc_server := finish_test cfg w pub_ok now e (oc_server p)\<rparr>)"
| es_panic: "oc_exited p = None \<Longrightarrow> e \<in> set (testing (oc_server p)) \<Longrightarrow>
    ending_step cfg p (p\<lparr>oc_server := release e (oc_server p)\<rparr>)"
| es_signal: "oc_exited p = None \<Longrightarrow> ending_step cfg p (p\<lparr>oc_signalled := True\<rparr>)"
| es_shutdown: "oc_exited p = None \<Longrightarrow> oc_signalled p \<Longrightarrow> ending_step cfg p (p\<lparr>oc_refusing := True\<rparr>)"
| es_drain: "oc_exited p = None \<Longrightarrow> oc_refusing p \<Longrightarrow> oc_requests p = 0 \<Longrightarrow> ending_step cfg p (p\<lparr>oc_drained := True\<rparr>)"
| es_expire: "oc_exited p = None \<Longrightarrow> oc_refusing p \<Longrightarrow> ending_step cfg p (oc_expire e p)"
| es_loop_over: "oc_exited p = None \<Longrightarrow> oc_signalled p \<Longrightarrow> ending_step cfg p (p\<lparr>oc_loop_over := True\<rparr>)"
| es_return: "oc_exited p = None \<Longrightarrow> oc_drained p \<Longrightarrow> oc_loop_over p \<Longrightarrow> ending_step cfg p (oc_return p)"

definition ending_initial :: "OrchProcess \<Rightarrow> bool" where
  "ending_initial p \<longleftrightarrow> p = \<lparr>oc_server = server_start, oc_requests = 0, oc_signalled = False, oc_refusing = False,
     oc_drained = False, oc_loop_over = False, oc_exited = None\<rparr>"

abbreviation ending_reachable :: "OrchConfig \<Rightarrow> OrchProcess \<Rightarrow> bool" where
  "ending_reachable cfg \<equiv> reach ending_initial (ending_step cfg)"

definition ending_inv :: "OrchConfig \<Rightarrow> OrchProcess \<Rightarrow> bool" where
  "ending_inv cfg p \<longleftrightarrow> server_reachable cfg (oc_server p) \<and> (oc_refusing p \<longrightarrow> oc_signalled p) \<and>
     (oc_drained p \<longrightarrow> oc_refusing p \<and> oc_requests p = 0) \<and> (oc_loop_over p \<longrightarrow> oc_signalled p) \<and>
     (oc_exited p = Some None \<longrightarrow> oc_drained p \<and> oc_loop_over p)"

lemma ending_server: "ending_step cfg p q \<Longrightarrow> oc_server q = oc_server p \<or> server_step cfg (oc_server p) (oc_server q)"
  by (cases rule: ending_step.cases)
    (auto simp: oc_answer_def oc_expire_def oc_return_def intro: server_step.intros)

interpretation ending: system_invariant ending_initial "ending_step cfg" "ending_inv cfg" for cfg
proof unfold_locales
  show "ending_inv cfg p" if "ending_initial p" for p
    using that reach_init [of server_init server_start] by (simp add: ending_initial_def ending_inv_def server_init_def)
  show "ending_inv cfg q" if "ending_inv cfg p" "ending_step cfg p q" for p q
  proof -
    have "server_reachable cfg (oc_server q)"
      using that(1) ending_server [OF that(2)] by (auto simp: ending_inv_def intro: reach_step)
    with that(1) show ?thesis
      by (cases rule: ending_step.cases [OF that(2)]) (auto simp: ending_inv_def oc_answer_def oc_expire_def oc_return_def)
  qed
qed

lemma orch_ended_stays: "(ending_step cfg)\<^sup>*\<^sup>* p q \<Longrightarrow> oc_exited p \<noteq> None \<Longrightarrow> q = p"
proof (induction rule: rtranclp_induct)
  case (step q r)
  then show ?case by (auto elim: ending_step.cases)
qed simp

text \<open>A regular end leaves no request unanswered and no loop running.\<close>

lemma orch_end_drained: "ending_reachable cfg p \<Longrightarrow> oc_exited p = Some None \<Longrightarrow> oc_requests p = 0 \<and> oc_loop_over p"
  using ending.inv_reach [of cfg p] by (simp add: ending_inv_def)

text \<open>But it does not wait for the tests: one that runs may be cut off, with its sandbox and no report.\<close>

lemma orch_end_cuts_tests:
  assumes "oc_exited p = None" and "oc_requests p = 0"
  shows "\<exists>q. (ending_step cfg)\<^sup>*\<^sup>* p q \<and> oc_exited q = Some None \<and> oc_server q = oc_server p"
proof -
  let ?a = "p\<lparr>oc_signalled := True\<rparr>" let ?b = "?a\<lparr>oc_refusing := True\<rparr>"
  let ?c = "?b\<lparr>oc_drained := True\<rparr>" let ?d = "?c\<lparr>oc_loop_over := True\<rparr>"
  have "ending_step cfg p ?a" using assms by (intro es_signal)
  moreover have "ending_step cfg ?a ?b" using assms by (intro es_shutdown) simp_all
  moreover have "ending_step cfg ?b ?c" using assms by (intro es_drain) simp_all
  moreover have "ending_step cfg ?c ?d" using assms by (intro es_loop_over) simp_all
  moreover have "ending_step cfg ?d (oc_return ?d)" using assms by (intro es_return) simp_all
  ultimately have "(ending_step cfg)\<^sup>*\<^sup>* p (oc_return ?d)"
    by (meson converse_rtranclp_into_rtranclp rtranclp.rtrancl_refl)
  then show ?thesis by (intro exI [of _ "oc_return ?d"]) (simp add: oc_return_def)
qed

section \<open>Properties\<close>

definition demo_process :: ApiProcess where
  "demo_process = \<lparr>pr_api = confirm_load ''u1'' demo_submitted, pr_signalled = False, pr_refusing = False, pr_exited = False\<rparr>"

lemma demo_process_reachable: "process_reachable demo_process"
proof -
  let ?p = "\<lambda>a. \<lparr>pr_api = a, pr_signalled = False, pr_refusing = False, pr_exited = False\<rparr>"
  have s: "process_reachable (?p b)" if "process_reachable (?p a)" "api_step a b" for a b
    using process_reachable_step [OF that(1)] ps_serve [of "?p a" b] that(2) by simp
  have "process_reachable (?p api_start)" by (rule reach_init) (simp add: process_initial_def)
  then have "process_reachable (?p demo_submitted)" unfolding demo_submitted_def by (rule s) (rule api_init)
  then show ?thesis unfolding demo_process_def by (rule s) (rule api_load)
qed



end
