(* ===== verification/Json.thy ===== *)
theory Json
  imports Environment
begin

text \<open>
  JSON as the package \<open>encoding/json\<close> writes and reads it, on byte strings: quoting with its escapes, the
  tokens, and a parser that is a machine over the tokens with a stack of open arrays and objects, like the
  scanner of the package. Texts that are not UTF-8 are repaired, as the package does, with the replacement
  character.
\<close>

section \<open>Characters\<close>

definition hex_digit :: "nat \<Rightarrow> char" where
  "hex_digit n = char_of (if n < 10 then 48 + n else 87 + n)"

definition hex_val :: "char \<Rightarrow> nat option" where
  "hex_val c = (if is_hex c then Some (digit_val c) else None)"

text \<open>The encoding of a code point; what is none is encoded as the replacement character.\<close>

definition replacement :: string where
  "replacement = [CHR 0xEF, CHR 0xBF, CHR 0xBD]"

definition encode_rune :: "nat \<Rightarrow> string" where
  "encode_rune r =
     (if r < 0x80 then [char_of r]
      else if r < 0x800 then [char_of (0xC0 + r div 64), char_of (0x80 + r mod 64)]
      else if 0xD800 \<le> r \<and> r < 0xE000 \<or> 0x110000 \<le> r then replacement
      else if r < 0x10000 then [char_of (0xE0 + r div 4096), char_of (0x80 + r div 64 mod 64), char_of (0x80 + r mod 64)]
      else [char_of (0xF0 + r div 262144), char_of (0x80 + r div 4096 mod 64), char_of (0x80 + r div 64 mod 64), char_of (0x80 + r mod 64)])"

text \<open>Bytes that belong to no encoding are replaced.\<close>

function (sequential) sanitize :: "string \<Rightarrow> string" where
  "sanitize [] = []"
| "sanitize (c # cs) =
     (case utf8_head (c # cs) of None \<Rightarrow> replacement @ sanitize cs
      | Some n \<Rightarrow> take n (c # cs) @ sanitize (drop n (c # cs)))"
  by pat_completeness auto
termination by (relation "measure length") (auto dest: utf8_head_size)

lemma sanitize_valid: "ValidString s \<Longrightarrow> sanitize s = s"
proof (induction s rule: sanitize.induct)
  case (2 c cs)
  then obtain n where n: "utf8_head (c # cs) = Some n" "ValidString (drop n (c # cs))" by (auto split: option.splits)
  then show ?case using "2.IH"(2) [OF n] by simp
qed simp

section \<open>Writing strings\<close>

definition html_unsafe :: "char \<Rightarrow> bool" where
  "html_unsafe c \<longleftrightarrow> c \<in> {CHR ''<'', CHR ''>'', CHR ''&''}"

definition escape_byte :: "char \<Rightarrow> string" where
  "escape_byte c =
     (if c = CHR 0x22 \<or> c = CHR 0x5C then [CHR 0x5C, c]
      else if c = CHR 0x08 then [CHR 0x5C, CHR ''b'']
      else if c = CHR 0x0C then [CHR 0x5C, CHR ''f'']
      else if c = CHR 0x0A then [CHR 0x5C, CHR ''n'']
      else if c = CHR 0x0D then [CHR 0x5C, CHR ''r'']
      else if c = CHR 0x09 then [CHR 0x5C, CHR ''t'']
      else if byte c < 32 \<or> html_unsafe c
      then [CHR 0x5C, CHR ''u'', CHR ''0'', CHR ''0'', hex_digit (byte c div 16), hex_digit (byte c mod 16)]
      else [c])"

text \<open>The line and paragraph separators are escaped as well.\<close>

definition separator :: "string \<Rightarrow> bool" where
  "separator s \<longleftrightarrow> s = [CHR 0xE2, CHR 0x80, CHR 0xA8] \<or> s = [CHR 0xE2, CHR 0x80, CHR 0xA9]"

function (sequential) quote_body :: "string \<Rightarrow> string" where
  "quote_body [] = []"
| "quote_body (c # cs) =
     (if byte c < 128 then escape_byte c @ quote_body cs
      else case utf8_head (c # cs) of
          None \<Rightarrow> [CHR 0x5C] @ ''ufffd'' @ quote_body cs
        | Some n \<Rightarrow>
            (let e = take n (c # cs)
             in (if separator e then [CHR 0x5C] @ ''u202'' @ [hex_digit (byte (last e) mod 16)] else e)) @
            quote_body (drop n (c # cs)))"
  by pat_completeness auto
termination by (relation "measure length") (auto dest: utf8_head_size)

definition quote_string :: "string \<Rightarrow> string" where
  "quote_string s = [CHR 0x22] @ quote_body s @ [CHR 0x22]"

section \<open>Reading strings\<close>

fun hex4 :: "string \<Rightarrow> (nat \<times> string) option" where
  "hex4 (a # b # c # d # s) =
     (case (hex_val a, hex_val b, hex_val c, hex_val d) of
        (Some u, Some v, Some w, Some x) \<Rightarrow> Some (((u * 16 + v) * 16 + w) * 16 + x, s)
      | _ \<Rightarrow> None)"
| "hex4 _ = None"

lemma hex4_length: "hex4 s = Some (r, t) \<Longrightarrow> length t < length s"
  by (cases s rule: hex4.cases) (auto split: option.splits)

definition surrogate :: "nat \<Rightarrow> bool" where
  "surrogate r \<longleftrightarrow> 0xD800 \<le> r \<and> r < 0xE000"

text \<open>
  The code point of an escape \<open>\u\<close>: two escapes that form a surrogate pair stand for one character; a
  surrogate on its own stands for the replacement character.
\<close>

definition second_escape :: "string \<Rightarrow> (nat \<times> string) option" where
  "second_escape s = (case s of b # u # t \<Rightarrow> if b = CHR 0x5C \<and> u = CHR ''u'' then hex4 t else None | _ \<Rightarrow> None)"

definition read_u :: "string \<Rightarrow> (string \<times> string) option" where
  "read_u s =
     (case hex4 s of None \<Rightarrow> None
      | Some (r, t) \<Rightarrow>
          if \<not> surrogate r then Some (encode_rune r, t)
          else (case second_escape t of
                  Some (r2, t2) \<Rightarrow>
                    if r < 0xDC00 \<and> 0xDC00 \<le> r2 \<and> r2 < 0xE000
                    then Some (encode_rune (0x10000 + (r - 0xD800) * 1024 + (r2 - 0xDC00)), t2)
                    else Some (replacement, t)
                | None \<Rightarrow> Some (replacement, t)))"

lemma second_escape_length: "second_escape s = Some (r, t) \<Longrightarrow> length t < length s"
  by (auto simp: second_escape_def split: list.splits if_splits dest: hex4_length)

lemma read_u_length: "read_u s = Some (e, t) \<Longrightarrow> length t < length s"
  by (auto simp: read_u_def split: option.splits if_splits dest!: hex4_length second_escape_length)

definition simple_escape :: "char \<Rightarrow> char option" where
  "simple_escape c =
     (if c \<in> {CHR 0x22, CHR 0x5C, CHR ''/''} then Some c
      else if c = CHR ''b'' then Some (CHR 0x08)
      else if c = CHR ''f'' then Some (CHR 0x0C)
      else if c = CHR ''n'' then Some (CHR 0x0A)
      else if c = CHR ''r'' then Some (CHR 0x0D)
      else if c = CHR ''t'' then Some (CHR 0x09)
      else None)"

definition put :: "string \<Rightarrow> (string \<times> string) option \<Rightarrow> (string \<times> string) option" where
  "put e = map_option (\<lambda>(x, rest). (e @ x, rest))"

text \<open>The text up to the closing quote, and what follows it.\<close>

function (sequential) read_string :: "string \<Rightarrow> (string \<times> string) option" where
  "read_string [] = None"
| "read_string (c # cs) =
     (if c = CHR 0x22 then Some ([], cs)
      else if c = CHR 0x5C then
        (case cs of [] \<Rightarrow> None
         | e # es \<Rightarrow>
             if e = CHR ''u'' then (case read_u es of None \<Rightarrow> None | Some (x, t) \<Rightarrow> put x (read_string t))
             else (case simple_escape e of None \<Rightarrow> None | Some d \<Rightarrow> put [d] (read_string es)))
      else if byte c < 32 then None
      else if byte c < 128 then put [c] (read_string cs)
      else (case utf8_head (c # cs) of
              None \<Rightarrow> put replacement (read_string cs)
            | Some n \<Rightarrow> put (take n (c # cs)) (read_string (drop n (c # cs)))))"
  by pat_completeness auto
termination by (relation "measure length") (auto dest: utf8_head_size read_u_length)

lemma put_simps [simp]: "put e None = None" "put e (Some (x, t)) = Some (e @ x, t)"
  by (simp_all add: put_def)

lemma put_Some: "put e r = Some (x, t) \<Longrightarrow> \<exists>y. r = Some (y, t)"
  by (auto simp: put_def)

declare read_string.simps [simp del]

lemma read_string_quote: "read_string (CHR 0x22 # s) = Some ([], s)"
  by (simp add: read_string.simps)

lemma read_string_u: "read_u s = Some (x, t) \<Longrightarrow> read_string (CHR 0x5C # CHR ''u'' # s) = put x (read_string t)"
  by (simp add: read_string.simps)

lemma read_string_escape:
  "simple_escape e = Some d \<Longrightarrow> read_string (CHR 0x5C # e # s) = put [d] (read_string s)"
  by (subst read_string.simps) (auto simp: simple_escape_def)

lemma read_string_plain:
  "c \<noteq> CHR 0x22 \<Longrightarrow> c \<noteq> CHR 0x5C \<Longrightarrow> 32 \<le> byte c \<Longrightarrow> byte c < 128 \<Longrightarrow> read_string (c # s) = put [c] (read_string s)"
  by (subst read_string.simps) simp

lemma byte_quote: "byte (CHR 0x22) = 34" "byte (CHR 0x5C) = 92"
  by (simp_all add: byte_def)

lemma read_string_rune:
  "128 \<le> byte c \<Longrightarrow> utf8_head (c # s) = Some n \<Longrightarrow> read_string (c # s) = put (take n (c # s)) (read_string (drop n (c # s)))"
  by (subst read_string.simps) (auto simp: byte_quote)

lemma read_string_length: "read_string s = Some (x, t) \<Longrightarrow> length t < length s"
proof (induction s arbitrary: x rule: read_string.induct)
  case (2 c cs)
  note def = "2.prems" [unfolded read_string.simps]
  consider "c = CHR 0x22" | "c = CHR 0x5C" | "c \<noteq> CHR 0x22" "c \<noteq> CHR 0x5C" by blast
  then show ?case
  proof cases
    case 1
    then show ?thesis using def by simp
  next
    case c: 2
    then obtain e es where cs: "cs = e # es" using def by (cases cs) auto
    show ?thesis
    proof (cases "e = CHR ''u''")
      case True
      then obtain y u where y: "read_u es = Some (y, u)" using def c cs by (auto split: option.splits)
      then obtain z where z: "read_string u = Some (z, t)" using def c cs True put_Some by fastforce
      have "length t < length u" using "2.IH"(1) [OF _ c cs True y refl z] c by simp
      then show ?thesis using read_u_length [OF y] cs by simp
    next
      case False
      then obtain d where d: "simple_escape e = Some d" using def c cs by (auto split: option.splits)
      then obtain z where z: "read_string es = Some (z, t)" using def c cs False put_Some by fastforce
      have "length t < length es" using "2.IH"(2) [OF _ c cs False d z] c by simp
      then show ?thesis using cs by simp
    qed
  next
    case c: 3
    then have b: "\<not> byte c < 32" using def by auto
    show ?thesis
    proof (cases "byte c < 128")
      case True
      then obtain z where z: "read_string cs = Some (z, t)" using def c b put_Some by fastforce
      show ?thesis using "2.IH"(3) [OF c b True z] by simp
    next
      case False
      show ?thesis
      proof (cases "utf8_head (c # cs)")
        case None
        then obtain z where z: "read_string cs = Some (z, t)" using def c b False put_Some by fastforce
        show ?thesis using "2.IH"(4) [OF c b False None z] by simp
      next
        case (Some n)
        then obtain z where z: "read_string (drop n (c # cs)) = Some (z, t)" using def c b False put_Some by fastforce
        show ?thesis using "2.IH"(5) [OF c b False Some z] utf8_head_size [OF Some] by simp
      qed
    qed
  qed
qed (simp add: read_string.simps)

section \<open>What is written is read\<close>

lemma char_of_eqI: "byte c = n \<Longrightarrow> char_of n = c"
  by (auto simp: byte_def)

lemmas hex_simps = hex_val_def is_hex_def is_digit_def digit_val_def lower_def byte_def

lemma hex_letters:
  "hex_digit 10 = CHR ''a''" "hex_digit 11 = CHR ''b''" "hex_digit 12 = CHR ''c''"
  "hex_digit 13 = CHR ''d''" "hex_digit 14 = CHR ''e''" "hex_digit 15 = CHR ''f''"
  by (simp_all add: hex_digit_def char_of_eqI byte_def)

lemma hex_val_letters:
  "hex_val (CHR ''a'') = Some 10" "hex_val (CHR ''b'') = Some 11" "hex_val (CHR ''c'') = Some 12"
  "hex_val (CHR ''d'') = Some 13" "hex_val (CHR ''e'') = Some 14" "hex_val (CHR ''f'') = Some 15"
  by (simp_all add: hex_simps)

lemma hex_val_numerals: "hex_val (CHR ''0'') = Some 0" "hex_val (CHR ''2'') = Some 2"
  by (simp_all add: hex_simps)

lemma hex_val_digit:
  assumes "n < 16"
  shows "hex_val (hex_digit n) = Some n"
proof (cases "n < 10")
  case True
  then show ?thesis by (simp add: hex_val_def hex_digit_def is_hex_def is_digit_def digit_val_def)
next
  case False
  with assms consider "n = 10" | "n = 11" | "n = 12" | "n = 13" | "n = 14" | "n = 15" by linarith
  then show ?thesis by cases (simp_all add: hex_letters hex_val_letters)
qed

lemma char_of_byte: "char_of (byte c) = c"
  by (simp add: byte_def)

lemma byte_less: "byte c < 256"
  using of_char_mod_256 [of c, where 'a = nat] mod_less_divisor [of 256 "of_char c :: nat"] by (simp add: byte_def)

lemma byte_inject: "byte c = byte d \<longleftrightarrow> c = d"
  by (metis char_of_byte)

lemma ascii_head: "byte c < 128 \<Longrightarrow> utf8_head (c # cs) = Some 1"
  by (simp add: utf8_head_def utf8_lead_def)

lemma read_u_byte:
  assumes "byte c < 128"
  shows "read_u (CHR ''0'' # CHR ''0'' # hex_digit (byte c div 16) # hex_digit (byte c mod 16) # s) = Some ([c], s)"
proof -
  have "byte c div 16 < 16" "byte c mod 16 < 16" "byte c div 16 * 16 + byte c mod 16 = byte c" using assms by simp_all
  moreover have "encode_rune (byte c) = [c]" using assms by (simp add: encode_rune_def char_of_byte)
  ultimately show ?thesis using assms by (simp add: read_u_def hex_val_digit hex_val_numerals surrogate_def)
qed

lemma simple_escapes:
  "simple_escape (CHR 0x22) = Some (CHR 0x22)" "simple_escape (CHR 0x5C) = Some (CHR 0x5C)"
  "simple_escape (CHR ''b'') = Some (CHR 0x08)" "simple_escape (CHR ''f'') = Some (CHR 0x0C)"
  "simple_escape (CHR ''n'') = Some (CHR 0x0A)" "simple_escape (CHR ''r'') = Some (CHR 0x0D)"
  "simple_escape (CHR ''t'') = Some (CHR 0x09)"
  by (simp_all add: simple_escape_def)

lemma read_escape_byte:
  assumes "byte c < 128"
  shows "read_string (escape_byte c @ s) = put [c] (read_string s)"
proof -
  consider "c = CHR 0x22" | "c = CHR 0x5C" | "c = CHR 0x08" | "c = CHR 0x0C" | "c = CHR 0x0A" | "c = CHR 0x0D" | "c = CHR 0x09"
    | "c \<notin> {CHR 0x22, CHR 0x5C, CHR 0x08, CHR 0x0C, CHR 0x0A, CHR 0x0D, CHR 0x09}" by blast
  then show ?thesis
  proof cases
    case 8
    show ?thesis
    proof (cases "byte c < 32 \<or> html_unsafe c")
      case True
      then have "escape_byte c = [CHR 0x5C, CHR ''u'', CHR ''0'', CHR ''0'', hex_digit (byte c div 16), hex_digit (byte c mod 16)]"
        using 8 by (simp add: escape_byte_def)
      then show ?thesis using read_string_u [OF read_u_byte [OF assms, of s]] by simp
    next
      case False
      then have "escape_byte c = [c]" using 8 by (simp add: escape_byte_def)
      then show ?thesis using read_string_plain [of c s] 8 False assms by simp
    qed
  qed (simp_all add: escape_byte_def read_string_escape simple_escapes)
qed

lemma read_replacement: "read_string (CHR 0x5C # CHR ''u'' # CHR ''f'' # CHR ''f'' # CHR ''f'' # CHR ''d'' # s) = put replacement (read_string s)"
proof (rule read_string_u)
  have "encode_rune 65533 = replacement" by (simp add: encode_rune_def replacement_def char_of_eqI byte_def)
  then show "read_u (CHR ''f'' # CHR ''f'' # CHR ''f'' # CHR ''d'' # s) = Some (replacement, s)"
    by (simp add: read_u_def surrogate_def hex_val_letters)
qed

lemma read_separator:
  assumes "separator e"
  shows "read_string (CHR 0x5C # CHR ''u'' # CHR ''2'' # CHR ''0'' # CHR ''2'' # hex_digit (byte (last e) mod 16) # s) = put e (read_string s)"
proof (rule read_string_u)
  have r: "encode_rune 8232 = [CHR 0xE2, CHR 0x80, CHR 0xA8]" "encode_rune 8233 = [CHR 0xE2, CHR 0x80, CHR 0xA9]"
    by (simp_all add: encode_rune_def char_of_eqI byte_def)
  have "byte (CHR 0xA8) mod 16 = 8" "byte (CHR 0xA9) mod 16 = 9" by (simp_all add: byte_def)
  then show "read_u (CHR ''2'' # CHR ''0'' # CHR ''2'' # hex_digit (byte (last e) mod 16) # s) = Some (e, s)"
    using assms r by (auto simp: separator_def read_u_def hex_val_numerals hex_val_digit surrogate_def)
qed

lemma put_put: "put a (put b r) = put (a @ b) r"
  by (cases r) auto

text \<open>A quoted text is read back, repaired, and what follows it is left.\<close>

lemma read_quoted: "read_string (quote_body s @ CHR 0x22 # rest) = Some (sanitize s, rest)"
proof (induction s rule: sanitize.induct)
  case (2 c cs)
  show ?case
  proof (cases "byte c < 128")
    case True
    then have "sanitize (c # cs) = c # sanitize cs" by (simp add: ascii_head)
    moreover have "read_string (quote_body cs @ CHR 0x22 # rest) = Some (sanitize cs, rest)"
      using "2.IH"(2) [OF ascii_head [OF True]] by simp
    ultimately show ?thesis using read_escape_byte [OF True, of "quote_body cs @ CHR 0x22 # rest"] True by simp
  next
    case False
    show ?thesis
    proof (cases "utf8_head (c # cs)")
      case None
      then show ?thesis using "2.IH"(1) [OF None] False read_replacement [of "quote_body cs @ CHR 0x22 # rest"] by simp
    next
      case (Some n)
      let ?e = "take n (c # cs)" and ?t = "quote_body (drop n (c # cs)) @ CHR 0x22 # rest"
      note IH = "2.IH"(2) [OF Some]
      have n: "1 \<le> n" "n \<le> length (c # cs)" using utf8_head_size [OF Some] by simp_all
      have "read_string ((if separator ?e then [CHR 0x5C] @ ''u202'' @ [hex_digit (byte (last ?e) mod 16)] else ?e) @ ?t) = put ?e (read_string ?t)"
      proof (cases "separator ?e")
        case True
        then show ?thesis using read_separator [OF True, of ?t] by simp
      next
        case sep: False
        obtain es where e: "?e = c # es" using n(1) by (cases n) auto
        have "utf8_head (?e @ ?t) = Some n" by (rule utf8_head_local [OF Some])
        then have "read_string (?e @ ?t) = put (take n (?e @ ?t)) (read_string (drop n (?e @ ?t)))"
          using read_string_rune [of c "es @ ?t" n] e False by simp
        moreover have "length ?e = n" using n(2) by simp
        ultimately show ?thesis using sep by simp
      qed
      then show ?thesis using IH Some False by (simp add: Let_def)
    qed
  qed
qed (simp add: read_string_quote)

declare sanitize.simps [simp del]

end
