(* ===== verification/Json_Value.thy ===== *)
theory Json_Value
  imports Json
begin

text \<open>
  JSON values: their tokens, the parser as a machine over tokens, and printing. A number keeps its text;
  what it means is for the field it is read into.
\<close>

datatype json = JNull | JBool bool | JNum string | JStr string | JArr "json list" | JObj "(string \<times> json) list"

section \<open>Tokens\<close>

datatype token = LBrace | RBrace | LBrack | RBrack | Colon | Comma | TStr string | TNum string | TTrue | TFalse | TNull

text \<open>
  A number: an optional minus sign, digits without a leading zero, an optional fraction and an optional
  exponent.
\<close>

definition read_int :: "string \<Rightarrow> (string \<times> string) option" where
  "read_int s =
     (let ds = takeWhile is_digit s; u = dropWhile is_digit s
      in if ds = [] then None
         else if hd ds = CHR ''0'' then Some ([hd ds], tl ds @ u)
         else Some (ds, u))"

definition read_fraction :: "string \<Rightarrow> (string \<times> string) option" where
  "read_fraction s =
     (case s of [] \<Rightarrow> Some ([], s)
      | c # t \<Rightarrow>
          if c = CHR ''.'' then
            (let ds = takeWhile is_digit t in if ds = [] then None else Some (c # ds, dropWhile is_digit t))
          else Some ([], s))"

definition read_power :: "string \<Rightarrow> (string \<times> string) option" where
  "read_power s =
     (case s of [] \<Rightarrow> Some ([], s)
      | c # t \<Rightarrow>
          if c = CHR ''e'' \<or> c = CHR ''E'' then
            (let (sg, u) = (case t of [] \<Rightarrow> ([], t) | d # v \<Rightarrow> if d = CHR ''+'' \<or> d = CHR ''-'' then ([d], v) else ([], t));
                 ds = takeWhile is_digit u
             in if ds = [] then None else Some (c # sg @ ds, dropWhile is_digit u))
          else Some ([], s))"

definition read_number :: "string \<Rightarrow> (string \<times> string) option" where
  "read_number s =
     (let (m, t) = (case s of [] \<Rightarrow> ([], s) | c # t \<Rightarrow> if c = CHR ''-'' then ([c], t) else ([], s))
      in case read_int t of None \<Rightarrow> None
         | Some (i, u) \<Rightarrow>
             (case read_fraction u of None \<Rightarrow> None
              | Some (f, v) \<Rightarrow>
                  (case read_power v of None \<Rightarrow> None
                   | Some (p, w) \<Rightarrow> Some (m @ i @ f @ p, w))))"

lemma read_int_length: "read_int s = Some (i, u) \<Longrightarrow> s = i @ u \<and> i \<noteq> []"
proof -
  assume r: "read_int s = Some (i, u)"
  have s: "s = takeWhile is_digit s @ dropWhile is_digit s" by simp
  show ?thesis
  proof (cases "takeWhile is_digit s")
    case Nil
    then show ?thesis using r by (simp add: read_int_def)
  next
    case (Cons d ds)
    then have "s = d # ds @ dropWhile is_digit s" using s by simp
    then show ?thesis using r Cons by (auto simp: read_int_def Let_def split: if_splits)
  qed
qed

lemma read_fraction_length: "read_fraction s = Some (f, u) \<Longrightarrow> s = f @ u"
  by (auto simp: read_fraction_def Let_def split: list.splits if_splits)

lemma read_power_length: "read_power s = Some (p, u) \<Longrightarrow> s = p @ u"
  by (auto simp: read_power_def Let_def split: list.splits if_splits)

lemma read_number_length: "read_number s = Some (t, u) \<Longrightarrow> s = t @ u \<and> t \<noteq> []"
  by (auto simp: read_number_def split: list.splits if_splits option.splits
      dest!: read_int_length read_fraction_length read_power_length)

definition blank :: "char \<Rightarrow> bool" where
  "blank c \<longleftrightarrow> c \<in> {CHR '' '', CHR 0x09, CHR 0x0A, CHR 0x0D}"

definition punctuation :: "char \<Rightarrow> token option" where
  "punctuation c =
     (if c = CHR ''{'' then Some LBrace else if c = CHR ''}'' then Some RBrace
      else if c = CHR ''['' then Some LBrack else if c = CHR '']'' then Some RBrack
      else if c = CHR '':'' then Some Colon else if c = CHR '','' then Some Comma else None)"

definition literal :: "string \<Rightarrow> (token \<times> string) option" where
  "literal s =
     (if prefix ''true'' s then Some (TTrue, drop 4 s)
      else if prefix ''false'' s then Some (TFalse, drop 5 s)
      else if prefix ''null'' s then Some (TNull, drop 4 s) else None)"

text \<open>The next token of a text that does not begin with a blank.\<close>

definition next_token :: "string \<Rightarrow> (token \<times> string) option" where
  "next_token s =
     (case s of [] \<Rightarrow> None
      | c # cs \<Rightarrow>
          (case punctuation c of Some t \<Rightarrow> Some (t, cs)
           | None \<Rightarrow>
               if c = CHR 0x22 then map_option (\<lambda>(x, u). (TStr x, u)) (read_string cs)
               else if c = CHR ''-'' \<or> is_digit c then map_option (\<lambda>(x, u). (TNum x, u)) (read_number s)
               else literal s))"

lemma literal_length: "literal s = Some (t, u) \<Longrightarrow> length u < length s"
  by (auto simp: literal_def prefix_def split: if_splits)

lemma read_number_shorter: "read_number s = Some (t, u) \<Longrightarrow> length u < length s"
  using read_number_length [of s t u] by auto

lemma next_token_length: "next_token s = Some (t, u) \<Longrightarrow> length u < length s"
  by (auto simp: next_token_def less_SucI split: list.splits option.splits if_splits
      dest: literal_length read_string_length read_number_shorter)

function (sequential) tokens :: "string \<Rightarrow> token list option" where
  "tokens [] = Some []"
| "tokens (c # cs) =
     (if blank c then tokens cs
      else (case next_token (c # cs) of None \<Rightarrow> None
            | Some (t, u) \<Rightarrow> map_option (Cons t) (tokens u)))"
  by pat_completeness auto
termination by (relation "measure length") (auto dest: next_token_length)

declare tokens.simps [simp del]

section \<open>The parser\<close>

text \<open>
  What may come next: a value, a value or the end of the array just opened, a key or the end of the object
  just opened, a key, a colon after a key, a comma or an end, or nothing.
\<close>

datatype expecting = Value | ElementOrEnd | KeyOrEnd | Key | ColonAfter string | More | Done json

text \<open>The open arrays and objects, the inner one first; an object keeps the key whose value is read.\<close>

datatype open_frame = InArr "json list" | InObj "(string \<times> json) list" string

type_synonym machine = "expecting \<times> open_frame list"

fun completed :: "json \<Rightarrow> open_frame list \<Rightarrow> machine" where
  "completed v [] = (Done v, [])"
| "completed v (InArr vs # st) = (More, InArr (vs @ [v]) # st)"
| "completed v (InObj ms k # st) = (More, InObj (ms @ [(k, v)]) k # st)"

definition max_depth :: nat where
  "max_depth = 10000"

fun begin_value :: "token \<Rightarrow> open_frame list \<Rightarrow> machine option" where
  "begin_value (TStr s) st = Some (completed (JStr s) st)"
| "begin_value (TNum t) st = Some (completed (JNum t) st)"
| "begin_value TTrue st = Some (completed (JBool True) st)"
| "begin_value TFalse st = Some (completed (JBool False) st)"
| "begin_value TNull st = Some (completed JNull st)"
| "begin_value LBrace st = (if length st < max_depth then Some (KeyOrEnd, InObj [] [] # st) else None)"
| "begin_value LBrack st = (if length st < max_depth then Some (ElementOrEnd, InArr [] # st) else None)"
| "begin_value _ st = None"

fun machine_step :: "machine \<Rightarrow> token \<Rightarrow> machine option" where
  "machine_step (Value, st) t = begin_value t st"
| "machine_step (ElementOrEnd, st) t =
     (case (t, st) of (RBrack, InArr vs # st') \<Rightarrow> Some (completed (JArr vs) st') | _ \<Rightarrow> begin_value t st)"
| "machine_step (KeyOrEnd, st) t =
     (case (t, st) of (RBrace, InObj ms k # st') \<Rightarrow> Some (completed (JObj ms) st') | (TStr k, _) \<Rightarrow> Some (ColonAfter k, st) | _ \<Rightarrow> None)"
| "machine_step (Key, st) t = (case t of TStr k \<Rightarrow> Some (ColonAfter k, st) | _ \<Rightarrow> None)"
| "machine_step (ColonAfter k, st) t =
     (case (t, st) of (Colon, InObj ms _ # st') \<Rightarrow> Some (Value, InObj ms k # st') | _ \<Rightarrow> None)"
| "machine_step (More, st) t =
     (case (t, st) of
        (Comma, InArr _ # _) \<Rightarrow> Some (Value, st)
      | (Comma, InObj _ _ # _) \<Rightarrow> Some (Key, st)
      | (RBrack, InArr vs # st') \<Rightarrow> Some (completed (JArr vs) st')
      | (RBrace, InObj ms _ # st') \<Rightarrow> Some (completed (JObj ms) st')
      | _ \<Rightarrow> None)"
| "machine_step (Done v, st) t = None"

fun machine_run :: "machine \<Rightarrow> token list \<Rightarrow> machine option" where
  "machine_run m [] = Some m"
| "machine_run m (t # ts) = (case machine_step m t of None \<Rightarrow> None | Some m' \<Rightarrow> machine_run m' ts)"

definition parse_tokens :: "token list \<Rightarrow> json option" where
  "parse_tokens ts = (case machine_run (Value, []) ts of Some (Done v, []) \<Rightarrow> Some v | _ \<Rightarrow> None)"

definition json_parse :: "string \<Rightarrow> json option" where
  "json_parse s = (case tokens s of None \<Rightarrow> None | Some ts \<Rightarrow> parse_tokens ts)"

section \<open>Printing\<close>

fun json_print :: "json \<Rightarrow> string" where
  "json_print JNull = ''null''"
| "json_print (JBool b) = (if b then ''true'' else ''false'')"
| "json_print (JNum t) = t"
| "json_print (JStr s) = quote_string s"
| "json_print (JArr vs) = CHR ''['' # Join (CHR '','') (map json_print vs) @ '']''"
| "json_print (JObj ms) = CHR ''{'' # Join (CHR '','') (map (\<lambda>(k, v). quote_string k @ CHR '':'' # json_print v) ms) @ ''}''"

text \<open>The tokens of a value, its strings repaired.\<close>

fun separate :: "token list list \<Rightarrow> token list" where
  "separate [] = []"
| "separate [ts] = ts"
| "separate (ts # tss) = ts @ Comma # separate tss"

fun clean :: "json \<Rightarrow> json" where
  "clean (JStr s) = JStr (sanitize s)"
| "clean (JArr vs) = JArr (map clean vs)"
| "clean (JObj ms) = JObj (map (\<lambda>(k, v). (sanitize k, clean v)) ms)"
| "clean v = v"

fun value_tokens :: "json \<Rightarrow> token list" where
  "value_tokens JNull = [TNull]"
| "value_tokens (JBool b) = [if b then TTrue else TFalse]"
| "value_tokens (JNum t) = [TNum t]"
| "value_tokens (JStr s) = [TStr s]"
| "value_tokens (JArr vs) = LBrack # separate (map value_tokens vs) @ [RBrack]"
| "value_tokens (JObj ms) = LBrace # separate (map (\<lambda>(k, v). TStr k # Colon # value_tokens v) ms) @ [RBrace]"

text \<open>The values nested at most \<^term>\<open>n\<close> deep, and those that can be printed: numbers are number texts.\<close>

fun nests :: "nat \<Rightarrow> json \<Rightarrow> bool" where
  "nests n (JArr vs) \<longleftrightarrow> 0 < n \<and> list_all (nests (n - 1)) vs"
| "nests n (JObj ms) \<longleftrightarrow> 0 < n \<and> list_all (\<lambda>(k, v). nests (n - 1) v) ms"
| "nests n _ \<longleftrightarrow> True"

definition number_text :: "string \<Rightarrow> bool" where
  "number_text t \<longleftrightarrow> read_number t = Some (t, [])"

fun printable_json :: "json \<Rightarrow> bool" where
  "printable_json (JNum t) = number_text t"
| "printable_json (JArr vs) = list_all printable_json vs"
| "printable_json (JObj ms) = list_all (\<lambda>(k, v). printable_json v) ms"
| "printable_json _ = True"

section \<open>The parser reads the tokens of a value\<close>

lemma separate_Cons: "separate (ts # tss) = ts @ concat (map (Cons Comma) tss)"
  by (induction tss arbitrary: ts) simp_all

lemma value_tokens_head: "\<exists>t ts. value_tokens v = t # ts \<and> t \<noteq> RBrack"
  by (cases v) auto

lemma element_as_value: "machine_run (ElementOrEnd, st) (value_tokens v @ ts) = machine_run (Value, st) (value_tokens v @ ts)"
  using value_tokens_head [of v] by (auto split: token.splits)

text \<open>A value is read in any context: its tokens take the machine to the state after the value.\<close>

definition reads :: "nat \<Rightarrow> json \<Rightarrow> bool" where
  "reads n v \<longleftrightarrow> (\<forall>st ts. length st + n \<le> max_depth \<longrightarrow>
      machine_run (Value, st) (value_tokens v @ ts) = machine_run (completed v st) ts)"

lemma readsD: "reads n v \<Longrightarrow> length st + n \<le> max_depth \<Longrightarrow>
    machine_run (Value, st) (value_tokens v @ ts) = machine_run (completed v st) ts"
  by (simp add: reads_def)

lemma read_elements:
  "list_all (reads n) vs \<Longrightarrow> Suc (length st + n) \<le> max_depth \<Longrightarrow>
     machine_run (More, InArr us # st) (concat (map (\<lambda>v. Comma # value_tokens v) vs) @ RBrack # ts)
       = machine_run (completed (JArr (us @ vs)) st) ts"
  by (induction vs arbitrary: us) (simp_all add: readsD [of n])

lemma read_members:
  "list_all (\<lambda>(k, v). reads n v) ms \<Longrightarrow> Suc (length st + n) \<le> max_depth \<Longrightarrow>
     machine_run (More, InObj us k # st)
         (concat (map (\<lambda>(k, v). Comma # TStr k # Colon # value_tokens v) ms) @ RBrace # ts)
       = machine_run (completed (JObj (us @ ms)) st) ts"
proof (induction ms arbitrary: us k)
  case Nil
  then show ?case by simp
next
  case (Cons m ms)
  then show ?case by (cases m) (simp add: readsD [of n])
qed

lemma read_array:
  assumes "list_all (reads n) vs" shows "reads (Suc n) (JArr vs)"
proof (cases vs)
  case Nil
  then show ?thesis by (simp add: reads_def)
next
  case (Cons w ws)
  show ?thesis
    unfolding reads_def
  proof (intro allI impI)
    fix st :: "open_frame list" and ts
    assume d: "length st + Suc n \<le> max_depth"
    have w: "machine_run (ElementOrEnd, InArr [] # st) (value_tokens w @ us)
               = machine_run (More, InArr [w] # st) us" for us
      using assms d by (simp add: Cons element_as_value readsD [of n])
    show "machine_run (Value, st) (value_tokens (JArr vs) @ ts) = machine_run (completed (JArr vs) st) ts"
      using assms d read_elements [of n ws st "[w]" ts] by (simp add: Cons separate_Cons w comp_def)
  qed
qed

lemma read_object:
  assumes "list_all (\<lambda>(k, v). reads n v) ms" shows "reads (Suc n) (JObj ms)"
proof (cases ms)
  case Nil
  then show ?thesis by (simp add: reads_def)
next
  case (Cons m ns)
  obtain k w where m: "m = (k, w)" by (cases m)
  show ?thesis
    unfolding reads_def
  proof (intro allI impI)
    fix st :: "open_frame list" and ts
    assume d: "length st + Suc n \<le> max_depth"
    have w: "machine_run (Value, InObj [] k # st) (value_tokens w @ us)
               = machine_run (More, InObj [(k, w)] k # st) us" for us
      using assms d by (simp add: Cons m readsD [of n])
    show "machine_run (Value, st) (value_tokens (JObj ms) @ ts) = machine_run (completed (JObj ms) st) ts"
      using assms d read_members [of n ns st "[(k, w)]" k ts]
      by (simp add: Cons m separate_Cons w comp_def case_prod_unfold)
  qed
qed

lemma read_value: "nests n v \<Longrightarrow> reads n v"
proof (induction n v rule: nests.induct)
  case (1 n vs)
  then have "list_all (reads (n - 1)) vs" by (auto simp: list_all_iff)
  then show ?case using 1 read_array [of "n - 1" vs] by simp
next
  case (2 n ms)
  then have "list_all (\<lambda>(k, v). reads (n - 1) v) ms" by (auto simp: list_all_iff)
  then show ?case using 2 read_object [of "n - 1" ms] by simp
qed (simp_all add: reads_def)

lemma parse_value_tokens: "nests max_depth v \<Longrightarrow> parse_tokens (value_tokens v) = Some v"
  using readsD [OF read_value, of max_depth v "[]" "[]"] by (simp add: parse_tokens_def)

section \<open>The tokens of a printed value\<close>

definition ends_value :: "string \<Rightarrow> bool" where
  "ends_value s \<longleftrightarrow> s = [] \<or> hd s \<in> {CHR '','', CHR '']'', CHR ''}'', CHR 0x0A}"

lemma tokens_punctuation: "punctuation c = Some t \<Longrightarrow> tokens (c # cs) = map_option (Cons t) (tokens cs)"
proof -
  assume p: "punctuation c = Some t"
  then have "\<not> blank c" by (auto simp: blank_def punctuation_def)
  with p show ?thesis by (simp add: tokens.simps next_token_def)
qed

lemma tokens_string: "tokens (quote_string s @ rest) = map_option (Cons (TStr (sanitize s))) (tokens rest)"
  by (simp add: quote_string_def tokens.simps(2) blank_def next_token_def punctuation_def read_quoted)

lemma not_digits: "\<not> is_digit (CHR '','')" "\<not> is_digit (CHR '']'')" "\<not> is_digit (CHR ''}'')"
  "\<not> is_digit (CHR ''.'')" "\<not> is_digit (CHR ''e'')" "\<not> is_digit (CHR ''E'')" "\<not> is_digit (CHR ''-'')"
  "\<not> is_digit (CHR ''+'')" "\<not> is_digit (CHR 0x0A)"
  by (simp_all add: is_digit_def byte_def)

lemma ends_value_cases:
  "ends_value s \<Longrightarrow> (s = [] \<Longrightarrow> P) \<Longrightarrow>
     (\<And>c t. s = c # t \<Longrightarrow> \<not> is_digit c \<Longrightarrow> c \<noteq> CHR ''.'' \<Longrightarrow> c \<noteq> CHR ''e'' \<Longrightarrow> c \<noteq> CHR ''E'' \<Longrightarrow> P) \<Longrightarrow> P"
  by (cases s) (auto simp: ends_value_def not_digits)

lemma ends_value_split:
  "ends_value s \<Longrightarrow> takeWhile is_digit (t @ s) = takeWhile is_digit t \<and> dropWhile is_digit (t @ s) = dropWhile is_digit t @ s"
  by (induction t) (auto elim!: ends_value_cases)

lemma read_int_append: "ends_value s \<Longrightarrow> read_int t = Some (i, u) \<Longrightarrow> read_int (t @ s) = Some (i, u @ s)"
  by (auto simp: read_int_def Let_def ends_value_split split: if_splits)

lemma read_fraction_append:
  "ends_value s \<Longrightarrow> read_fraction t = Some (f, u) \<Longrightarrow> read_fraction (t @ s) = Some (f, u @ s)"
  by (cases t) (auto simp: read_fraction_def Let_def ends_value_split split: if_splits elim!: ends_value_cases)

lemma read_power_append:
  assumes s: "ends_value s" and p: "read_power t = Some (p, u)"
  shows "read_power (t @ s) = Some (p, u @ s)"
proof (cases t)
  case Nil
  then show ?thesis using p s by (auto simp: read_power_def elim!: ends_value_cases)
next
  case (Cons c t')
  show ?thesis
  proof (cases t')
    case Nil
    then show ?thesis using p s Cons by (auto simp: read_power_def Let_def split: if_splits)
  next
    case (Cons d t'')
    then show ?thesis using p s \<open>t = c # t'\<close> ends_value_split [OF s, of t'] ends_value_split [OF s, of t'']
      by (auto simp: read_power_def Let_def split: if_splits)
  qed
qed

lemma read_number_append:
  assumes s: "ends_value s" and r: "read_number t = Some (x, u)"
  shows "read_number (t @ s) = Some (x, u @ s)"
proof -
  obtain c t' where t: "t = c # t'"
    using r by (cases t) (auto simp: read_number_def read_int_def)
  define m u1 where "m = (if c = CHR ''-'' then [c] else [])" and "u1 = (if c = CHR ''-'' then t' else t)"
  have n: "read_number (t @ v) = (case read_int (u1 @ v) of None \<Rightarrow> None
      | Some (i, u) \<Rightarrow> (case read_fraction u of None \<Rightarrow> None
        | Some (f, v) \<Rightarrow> (case read_power v of None \<Rightarrow> None | Some (p, w) \<Rightarrow> Some (m @ i @ f @ p, w))))" for v
    unfolding m_def u1_def read_number_def t by (cases "c = CHR ''-''") (simp_all only: append_Cons append_Nil list.case simp_thms if_True if_False Let_def prod.case)
  obtain i u2 where i: "read_int u1 = Some (i, u2)" using r n [of "[]"] by (cases "read_int u1") auto
  obtain f u3 where f: "read_fraction u2 = Some (f, u3)" using r n [of "[]"] i by (cases "read_fraction u2") auto
  obtain p u4 where p: "read_power u3 = Some (p, u4)" using r n [of "[]"] i f by (cases "read_power u3") auto
  show ?thesis
    using r n [of "[]"] n [of s] i f p read_int_append [OF s i] read_fraction_append [OF s f] read_power_append [OF s p]
    by simp
qed

lemma number_head: "number_text (c # t) \<Longrightarrow> c = CHR ''-'' \<or> is_digit c"
  by (auto simp: number_text_def read_number_def read_int_def split: if_splits)

lemma tokens_number:
  assumes n: "number_text t" and e: "ends_value rest"
  shows "tokens (t @ rest) = map_option (Cons (TNum t)) (tokens rest)"
proof -
  obtain c t' where t: "t = c # t'"
    using n by (cases t) (auto simp: number_text_def read_number_def read_int_def)
  have h: "c = CHR ''-'' \<or> is_digit c" using n number_head t by simp
  have q: "\<not> blank c" "punctuation c = None" "c \<noteq> CHR 0x22"
    using h by (auto simp: blank_def punctuation_def is_digit_def byte_def)
  have r: "read_number (c # t' @ rest) = Some (t, rest)"
    using read_number_append [OF e, of t t "[]"] n t by (simp add: number_text_def)
  show ?thesis using q h r by (simp add: t tokens.simps(2) next_token_def)
qed

lemma literals: "literal (''null'' @ s) = Some (TNull, s)" "literal (''true'' @ s) = Some (TTrue, s)"
  "literal (''false'' @ s) = Some (TFalse, s)"
  by (simp_all add: literal_def)

lemma tokens_literal:
  "tokens (''null'' @ s) = map_option (Cons TNull) (tokens s)"
  "tokens (''true'' @ s) = map_option (Cons TTrue) (tokens s)"
  "tokens (''false'' @ s) = map_option (Cons TFalse) (tokens s)"
  using literals [of s]
  by (simp_all add: tokens.simps(2) next_token_def blank_def punctuation_def is_digit_def byte_def)

lemma grow:
  "map_option ((@) (us @ vs)) r = map_option (\<lambda>x. us @ vs @ x) r"
  "map_option ((@) (t # us)) r = map_option (\<lambda>x. t # us @ x) r"
  by (cases r; simp)+

text \<open>A value is lexed in any context that does not extend a number.\<close>

definition lexes :: "json \<Rightarrow> bool" where
  "lexes v \<longleftrightarrow> (\<forall>s. ends_value s \<longrightarrow>
      tokens (json_print v @ s) = map_option ((@) (value_tokens (clean v))) (tokens s))"

lemma lexesD: "lexes v \<Longrightarrow> ends_value s \<Longrightarrow>
    tokens (json_print v @ s) = map_option ((@) (value_tokens (clean v))) (tokens s)"
  by (simp add: lexes_def)

lemma ends_value_mark: "ends_value (CHR '','' # s)" "ends_value (CHR '']'' # s)" "ends_value (CHR ''}'' # s)"
  by (simp_all add: ends_value_def)

lemma punctuations: "punctuation (CHR ''{'') = Some LBrace" "punctuation (CHR ''}'') = Some RBrace"
  "punctuation (CHR ''['') = Some LBrack" "punctuation (CHR '']'') = Some RBrack"
  "punctuation (CHR '':'') = Some Colon" "punctuation (CHR '','') = Some Comma"
  by (simp_all add: punctuation_def)

lemmas tokens_marks = punctuations [THEN tokens_punctuation]

lemma Join_Cons: "Join sep (x # xs) = x @ concat (map (\<lambda>y. sep # y) xs)"
  by (induction xs arbitrary: x) simp_all

lemma lex_tail:
  "list_all (\<lambda>(p, ts). \<forall>s. ends_value s \<longrightarrow> tokens (p @ s) = map_option ((@) ts) (tokens s)) xs \<Longrightarrow> ends_value s \<Longrightarrow>
     tokens (concat (map (\<lambda>(p, ts). CHR '','' # p) xs) @ s)
       = map_option ((@) (concat (map (\<lambda>(p, ts). Comma # ts) xs))) (tokens s)
     \<and> ends_value (concat (map (\<lambda>(p, ts). CHR '','' # p) xs) @ s)"
proof (induction xs)
  case Nil
  then show ?case by (cases "tokens s") simp_all
next
  case (Cons x xs)
  then show ?case by (cases x) (simp add: tokens_marks ends_value_mark grow option.map_comp comp_def)
qed

text \<open>The printed parts of an array or an object, with their tokens, between the two marks.\<close>

lemma lex_parts:
  assumes xs: "list_all (\<lambda>(p, ts). \<forall>s. ends_value s \<longrightarrow> tokens (p @ s) = map_option ((@) ts) (tokens s)) xs"
    and s: "ends_value s"
  shows "tokens (Join (CHR '','') (map fst xs) @ s) = map_option ((@) (separate (map snd xs))) (tokens s)"
proof (cases xs)
  case Nil
  then show ?thesis by (cases "tokens s") simp_all
next
  case (Cons x ys)
  obtain p ts where x: "x = (p, ts)" by (cases x)
  show ?thesis
    using xs lex_tail [of ys s] s
    by (simp add: Cons x Join_Cons separate_Cons grow option.map_comp comp_def case_prod_unfold)
qed

lemma lex_value: "printable_json v \<Longrightarrow> lexes v"
proof (induction v rule: printable_json.induct)
  case (1 t)
  then show ?case by (auto simp: lexes_def tokens_number grow)
next
  case (2 vs)
  have xs: "list_all (\<lambda>(p, ts). \<forall>s. ends_value s \<longrightarrow> tokens (p @ s) = map_option ((@) ts) (tokens s))
      (map (\<lambda>v. (json_print v, value_tokens (clean v))) vs)"
    using 2 by (auto simp: list_all_iff lexes_def)
  show ?case
    unfolding lexes_def
    using lex_parts [OF xs] by (auto simp: tokens_marks ends_value_mark grow option.map_comp comp_def)
next
  case (3 ms)
  have xs: "list_all (\<lambda>(p, ts). \<forall>s. ends_value s \<longrightarrow> tokens (p @ s) = map_option ((@) ts) (tokens s))
      (map (\<lambda>(k, v). (quote_string k @ CHR '':'' # json_print v, TStr (sanitize k) # Colon # value_tokens (clean v))) ms)"
    using 3 by (auto simp: list_all_iff lexes_def tokens_string tokens_marks grow option.map_comp comp_def)
  show ?case
    unfolding lexes_def
    using lex_parts [OF xs]
    by (auto simp: tokens_marks ends_value_mark grow option.map_comp comp_def case_prod_unfold)
qed (auto simp: lexes_def tokens_literal [simplified] tokens_string grow)

lemma tokens_value: "printable_json v \<Longrightarrow> tokens (json_print v) = Some (value_tokens (clean v))"
  using lexesD [OF lex_value, of v "[]"] by (simp add: ends_value_def tokens.simps)

lemma fits_clean: "nests n (clean v) = nests n v"
  by (induction n v rule: nests.induct) (auto simp: list_all_iff case_prod_unfold)

lemma parse_print:
  "printable_json v \<Longrightarrow> nests max_depth v \<Longrightarrow> json_parse (json_print v) = Some (clean v)"
  by (simp add: json_parse_def tokens_value parse_value_tokens fits_clean)

text \<open>
  \<open>json.Encoder\<close> ends a value with a line feed; \<open>json.Decoder\<close> reads one value and leaves the rest of the
  text alone.
\<close>

definition json_encode :: "json \<Rightarrow> string" where
  "json_encode v = json_print v @ [CHR 0x0A]"

fun finished :: "expecting \<Rightarrow> json option" where
  "finished (Done v) = Some v"
| "finished _ = None"

function first_value :: "machine \<Rightarrow> string \<Rightarrow> json option" where
  "first_value m [] = None"
| "first_value m (c # cs) =
     (if blank c then first_value m cs
      else (case next_token (c # cs) of None \<Rightarrow> None
            | Some (t, u) \<Rightarrow>
                (case machine_step m t of None \<Rightarrow> None
                 | Some m' \<Rightarrow> (case finished (fst m') of Some v \<Rightarrow> Some v | None \<Rightarrow> first_value m' u))))"
  by pat_completeness auto
termination by (relation "measure (\<lambda>(m, s). length s)") (auto dest: next_token_length)

definition json_decode :: "string \<Rightarrow> json option" where
  "json_decode s = first_value (Value, []) s"

lemma tokens_newline: "tokens [CHR 0x0A] = Some []"
  by (simp add: tokens.simps blank_def)

lemma parse_encode:
  "printable_json v \<Longrightarrow> nests max_depth v \<Longrightarrow> json_parse (json_encode v) = Some (clean v)"
  using lexesD [OF lex_value, of v "[CHR 0x0A]"]
  by (simp add: ends_value_def json_encode_def json_parse_def tokens_newline parse_value_tokens fits_clean)

lemma done_run: "machine_run (Done v, st) ts = Some (Done w, st') \<Longrightarrow> ts = [] \<and> w = v"
  by (cases ts) auto

lemma first_value_run:
  "tokens s = Some ts \<Longrightarrow> machine_run m ts = Some (Done v, []) \<Longrightarrow> finished (fst m) = None \<Longrightarrow> first_value m s = Some v"
proof (induction m s arbitrary: ts rule: first_value.induct)
  case (1 m)
  then show ?case by (simp add: tokens.simps)
next
  case (2 m c cs)
  show ?case
  proof (cases "blank c")
    case True
    then show ?thesis using 2 by (simp add: tokens.simps)
  next
    case False
    obtain t u us where t: "next_token (c # cs) = Some (t, u)" "tokens u = Some us" "ts = t # us"
      using "2.prems"(1) False by (auto simp: tokens.simps split: option.splits)
    obtain m' where m: "machine_step m t = Some m'" "machine_run m' us = Some (Done v, [])"
      using "2.prems"(2) t by (auto split: option.splits)
    show ?thesis
    proof (cases "finished (fst m')")
      case None
      then have "first_value m' u = Some v" using "2.IH"(2) [OF False t(1) refl m(1) None t(2) m(2)] by simp
      then show ?thesis using m t None False by simp
    next
      case (Some w)
      then obtain st where w: "m' = (Done w, st)" by (cases m'; cases "fst m'") auto
      then have "w = v" using done_run m(2) by blast
      then show ?thesis using m t w False by simp
    qed
  qed
qed

lemma decode_parse: "json_parse s = Some v \<Longrightarrow> json_decode s = Some v"
proof -
  assume "json_parse s = Some v"
  then obtain ts where "tokens s = Some ts" "machine_run (Value, []) ts = Some (Done v, [])"
    by (auto simp: json_parse_def parse_tokens_def split: option.splits expecting.splits list.splits prod.splits)
  then show ?thesis unfolding json_decode_def by (rule first_value_run) simp
qed

end
