(* ===== verification/Decimal_Text.thy ===== *)
theory Decimal_Text
  imports Json_Value
begin

text \<open>
  Decimal texts with a sign, a fraction and an exponent, as the printers of the program make them: they
  are JSON numbers, and \<open>strconv.ParseFloat\<close> reads their value.
\<close>

section \<open>Decimal texts\<close>

lemma foldl_digits: "foldl (\<lambda>v c. 10 * v + (byte c - 48)) v ds = v * 10 ^ length ds + digits_val ds"
proof (induction ds arbitrary: v)
  case (Cons d ds)
  show ?case
    using Cons [of "10 * v + (byte d - 48)"] Cons [of "byte d - 48"] by (simp add: digits_val_def algebra_simps)
qed (simp add: digits_val_def)

lemma digits_val_append: "digits_val (xs @ ys) = digits_val xs * 10 ^ length ys + digits_val ys"
  using foldl_digits [of "digits_val xs" ys] by (simp add: digits_val_def)

lemma digits_val_zeros [simp]: "digits_val (replicate k (CHR ''0'')) = 0"
  by (induction k) (simp_all add: digits_val_def byte_def)

lemma dec_nat_length: "n < 10 ^ k \<Longrightarrow> 0 < k \<Longrightarrow> length (dec_nat n) \<le> k"
proof (induction k arbitrary: n)
  case (Suc k)
  show ?case
  proof (cases "n < 10")
    case True
    then show ?thesis by (subst dec_nat.simps) simp
  next
    case False
    then have k: "0 < k" using Suc.prems by (cases k) auto
    have "n div 10 < 10 ^ k" using Suc.prems by (simp add: less_mult_imp_div_less mult.commute)
    then show ?thesis using Suc.IH [of "n div 10"] k False by (subst dec_nat.simps) simp
  qed
qed simp

lemma dec_nat_head: "hd (dec_nat n) = CHR ''0'' \<Longrightarrow> n = 0"
proof (induction n rule: dec_nat.induct)
  case (1 n)
  show ?case
  proof (cases "n < 10")
    case True
    then have "byte (hd (dec_nat n)) = 48 + n" by (subst dec_nat.simps) simp
    then show ?thesis using 1 by (simp add: byte_def)
  next
    case False
    then have "hd (dec_nat n) = hd (dec_nat (n div 10))"
      by (subst dec_nat.simps) (simp add: dec_nat_not_empty)
    then show ?thesis using 1 False by simp
  qed
qed

lemma digit_val_digit: "is_digit c \<Longrightarrow> digit_val c = byte c - 48"
  by (simp add: digit_val_def)

lemma not_digit_marks: "\<not> is_digit (CHR ''_'')" "\<not> is_digit (CHR ''.'')"
  by (simp_all add: is_digit_def byte_def)

lemma read_mantissa_digits:
  "list_all is_digit ds \<Longrightarrow> read_mantissa False dot v k seen (ds @ r)
     = read_mantissa False dot (foldl (\<lambda>v c. 10 * v + (byte c - 48)) v ds)
         (if dot then k + length ds else k) (seen \<or> ds \<noteq> []) r"
proof (induction ds arbitrary: v k seen)
  case (Cons d ds)
  have "d \<noteq> CHR ''_''" "d \<noteq> CHR ''.''" using Cons.prems not_digit_marks by auto
  then show ?case using Cons by (simp add: digit_val_digit)
qed simp

lemma underscores_digits:
  "list_all is_digit ds \<Longrightarrow> underscores_ok False saw ds = (saw \<noteq> SawUnderscore \<or> ds \<noteq> [])"
  by (induction ds arbitrary: saw) auto

lemma underscores_point:
  "list_all is_digit ds \<Longrightarrow> saw \<noteq> SawUnderscore \<Longrightarrow> list_all is_digit es \<Longrightarrow> underscores_ok False saw (ds @ CHR ''.'' # es)"
  by (induction ds arbitrary: saw) (auto simp: not_digit_marks underscores_digits)

definition with_sign :: "bool \<Rightarrow> string \<Rightarrow> string" where
  "with_sign neg s = (if neg then CHR ''-'' # s else s)"

lemma sign_of_with_sign: "s \<noteq> [] \<Longrightarrow> is_digit (hd s) \<Longrightarrow> sign_of (with_sign neg s) = (neg, s)"
  by (cases s rule: sign_of.cases) (auto simp: with_sign_def is_digit_def byte_def)

lemma lower_digit: "is_digit c \<Longrightarrow> lower c = c" "lower (CHR ''.'') = CHR ''.''"
  by (simp_all add: lower_def is_digit_def byte_def)

lemma digit_not_letter: "is_digit c \<Longrightarrow> c \<notin> {CHR ''x'', CHR ''b'', CHR ''o'', CHR ''i'', CHR ''n''}"
  by (auto simp: is_digit_def byte_def)

section \<open>Fraction and exponent\<close>

definition exponent_text :: "(bool \<times> string) option \<Rightarrow> string" where
  "exponent_text E = (case E of None \<Rightarrow> [] | Some (eneg, X) \<Rightarrow> CHR ''e'' # (if eneg then CHR ''-'' else CHR ''+'') # X)"

definition decimal_text :: "bool \<Rightarrow> string \<Rightarrow> string \<Rightarrow> (bool \<times> string) option \<Rightarrow> string" where
  "decimal_text neg A B E = with_sign neg (A @ (if B = [] then [] else CHR ''.'' # B) @ exponent_text E)"

definition exponent_value :: "(bool \<times> string) option \<Rightarrow> rat" where
  "exponent_value E = (case E of None \<Rightarrow> 1
     | Some (eneg, X) \<Rightarrow> 10 powi (if eneg then - int (digits_val X) else int (digits_val X)))"

definition decimal_value :: "bool \<Rightarrow> string \<Rightarrow> string \<Rightarrow> (bool \<times> string) option \<Rightarrow> rat" where
  "decimal_value neg A B E =
     (if neg then - 1 else 1) * (of_nat (digits_val (A @ B)) / 10 ^ length B) * exponent_value E"

definition decimal_ok :: "string \<Rightarrow> string \<Rightarrow> (bool \<times> string) option \<Rightarrow> bool" where
  "decimal_ok A B E \<longleftrightarrow> A \<noteq> [] \<and> list_all is_digit A \<and> (hd A = CHR ''0'' \<longrightarrow> tl A = []) \<and> list_all is_digit B \<and>
     (case E of None \<Rightarrow> True | Some (eneg, X) \<Rightarrow> X \<noteq> [] \<and> list_all is_digit X \<and> digits_val X < 10000)"

lemma no_underscore: "CHR ''_'' \<notin> set s \<Longrightarrow> saw \<noteq> SawUnderscore \<Longrightarrow> underscores_ok False saw s"
  by (induction s arbitrary: saw) auto

lemma digits_no_underscore: "list_all is_digit s \<Longrightarrow> CHR ''_'' \<notin> set s"
  using not_digit_marks by (auto simp: list_all_iff)

lemma read_exponent_digits:
  "list_all is_digit ds \<Longrightarrow> foldl (\<lambda>v c. 10 * v + (byte c - 48)) e ds < 10000 \<Longrightarrow>
     read_exponent e ds = (foldl (\<lambda>v c. 10 * v + (byte c - 48)) e ds, [])"
proof (induction ds arbitrary: e)
  case (Cons d ds)
  have "d \<noteq> CHR ''_''" using Cons.prems not_digit_marks by auto
  moreover have "e \<le> foldl (\<lambda>v c. 10 * v + (byte c - 48)) (10 * e + (byte d - 48)) ds"
  proof -
    have "e \<le> 10 * e + (byte d - 48)" by simp
    also have "\<dots> \<le> (10 * e + (byte d - 48)) * 10 ^ length ds + digits_val ds"
      by (simp add: trans_le_add1)
    finally show ?thesis by (simp add: foldl_digits)
  qed
  ultimately show ?case using Cons by (simp add: digit_val_digit)
qed simp

lemma readFloat_decimal:
  assumes ok: "decimal_ok A B E"
  shows "readFloat (decimal_text neg A B E) = Some (decimal_value neg A B E)"
proof -
  let ?F = "if B = [] then [] else CHR ''.'' # B"
  let ?t = "A @ ?F @ exponent_text E"
  have A: "A \<noteq> []" "list_all is_digit A" and B: "list_all is_digit B" using ok by (simp_all add: decimal_ok_def)
  obtain a as where a: "A = a # as" "is_digit a" using A by (cases A) auto
  have s: "sign_of (with_sign neg ?t) = (neg, ?t)" using a by (intro sign_of_with_sign) simp_all
  have second: "lower x \<notin> set ''box''" if "?t = a # x # ys" for x ys
  proof -
    have "is_digit x \<or> x = CHR ''.'' \<or> x = CHR ''e''"
      using that a A B by (cases as) (auto simp: exponent_text_def split: if_splits option.splits)
    moreover have "lower (CHR ''e'') = CHR ''e''" by (simp add: lower_def byte_def)
    ultimately show ?thesis using digit_not_letter [of x] by (auto simp: lower_digit)
  qed
  have nu: "CHR ''_'' \<notin> set ?t"
    using A B ok digits_no_underscore by (auto simp: exponent_text_def decimal_ok_def split: option.splits)
  have u: "underscoreOK (with_sign neg ?t)"
  proof (cases "tl ?t")
    case Nil
    then have "?t = [a]" using a by simp
    then show ?thesis unfolding underscoreOK_def s using no_underscore [OF nu] a(2) by simp
  next
    case (Cons x ys)
    then have t: "?t = a # x # ys" using a by simp
    show ?thesis unfolding underscoreOK_def s using no_underscore [OF nu, of SawStart] second [OF t] unfolding t by simp
  qed
  have h: "(case ?t of c # x # d # cs \<Rightarrow> if c = CHR ''0'' \<and> lower x = CHR ''x'' then (True, d # cs) else (False, ?t)
      | _ \<Rightarrow> (False, ?t)) = (False, ?t)"
    using second a by (auto split: list.split)
  have m: "read_mantissa False False 0 0 False ?t = (digits_val (A @ B), length B, True, exponent_text E)"
  proof -
    have stop: "read_mantissa False dot v k True (exponent_text E) = (v, k, True, exponent_text E)" for dot v k
      by (auto simp: exponent_text_def is_digit_def byte_def split: option.split)
    show ?thesis
      using read_mantissa_digits [OF A(2), of False 0 0 False "?F @ exponent_text E"]
        read_mantissa_digits [OF B, of True "digits_val A" 0 True "exponent_text E"] A(1)
      by (auto simp: stop digits_val_def)
  qed
  show ?thesis
  proof (cases E)
    case None
    then show ?thesis
      unfolding decimal_text_def readFloat_def s Let_def prod.case h m
      using u by (simp add: exponent_text_def decimal_value_def exponent_value_def)
  next
    case (Some e)
    obtain eneg X where e: "e = (eneg, X)" by (cases e)
    have X: "X \<noteq> []" "list_all is_digit X" "digits_val X < 10000" using ok by (simp_all add: decimal_ok_def Some e)
    have x: "read_exponent 0 X = (digits_val X, [])"
      using read_exponent_digits [OF X(2), of 0] X(3) by (simp add: digits_val_def)
    have g: "sign_of ((if eneg then CHR ''-'' else CHR ''+'') # X) = (eneg, X)" by simp
    have hx: "is_digit (hd X)" using X(1,2) by (cases X) auto
    have le: "lower (CHR ''e'') = CHR ''e''" by (simp add: lower_def byte_def)
    show ?thesis
      unfolding decimal_text_def readFloat_def s Let_def prod.case h m
      using u X(1) hx
      by (simp add: exponent_text_def Some e g x le decimal_value_def exponent_value_def)
  qed
qed

lemma ParseFloat_decimal:
  assumes ok: "decimal_ok A B E" and f: "f64 (decimal_value neg A B E) = Fin q"
  shows "ParseFloat (decimal_text neg A B E) = Some (Fin q)"
proof -
  let ?t = "A @ (if B = [] then [] else CHR ''.'' # B) @ exponent_text E"
  obtain a as where a: "A = a # as" "is_digit a" using ok by (cases A) (auto simp: decimal_ok_def)
  have s: "sign_of (with_sign neg ?t) = (neg, ?t)" using a by (intro sign_of_with_sign) simp_all
  have n: "map lower (with_sign neg ?t) \<noteq> ''nan''"
    using a digit_not_letter [of a] by (simp add: with_sign_def lower_digit lower_def [of "CHR ''-''"] byte_def)
  have "special_float (with_sign neg ?t) = None"
    unfolding special_float_def s using a digit_not_letter [of a] n by (simp add: lower_digit)
  then show ?thesis
    unfolding ParseFloat_def readFloat_decimal [OF ok] by (simp only: decimal_text_def option.case f float64.case)
qed

lemma number_text_decimal:
  assumes ok: "decimal_ok A B E"
  shows "number_text (decimal_text neg A B E)"
proof -
  let ?X = "exponent_text E" and ?F = "if B = [] then [] else CHR ''.'' # B"
  have A: "A \<noteq> []" "list_all is_digit A" "hd A = CHR ''0'' \<longrightarrow> tl A = []" and B: "list_all is_digit B"
    using ok by (simp_all add: decimal_ok_def)
  have e: "\<not> is_digit (CHR ''e'')" by (simp add: is_digit_def byte_def)
  have tw: "takeWhile is_digit (ds @ ?X) = ds" "dropWhile is_digit (ds @ ?X) = ?X" if "list_all is_digit ds" for ds
    using that by (auto simp: exponent_text_def list_all_iff takeWhile_eq_all_conv e split: option.splits)
  have tp: "takeWhile is_digit (ds @ CHR ''.'' # r) = ds" "dropWhile is_digit (ds @ CHR ''.'' # r) = CHR ''.'' # r"
    if "list_all is_digit ds" for ds r
    using that by (simp_all add: list_all_iff not_digit_marks)
  have i: "read_int (A @ ?F @ ?X) = Some (A, ?F @ ?X)"
  proof (cases "B = []")
    case True
    then show ?thesis unfolding read_int_def Let_def using A tw [OF A(2)] by (cases A) auto
  next
    case False
    then show ?thesis unfolding read_int_def Let_def using A tp [OF A(2), of "B @ ?X"] by (cases A) auto
  qed
  have f: "read_fraction (?F @ ?X) = Some (?F, ?X)"
    using tw [OF B] by (auto simp: read_fraction_def exponent_text_def split: option.splits)
  have p: "read_power ?X = Some (?X, [])"
  proof (cases E)
    case None
    then show ?thesis by (simp add: exponent_text_def read_power_def)
  next
    case (Some y)
    obtain eneg X where y: "y = (eneg, X)" by (cases y)
    have X: "X \<noteq> []" "takeWhile is_digit X = X" "dropWhile is_digit X = []"
      using ok by (simp_all add: decimal_ok_def Some y list_all_iff takeWhile_eq_all_conv)
    show ?thesis unfolding exponent_text_def Some y option.case prod.case read_power_def
      using X(1) by (simp add: Let_def X(2,3) del: takeWhile_eq_all_conv takeWhile_eq_Nil_iff)
  qed
  have d: "hd (A @ ?F @ ?X) \<noteq> CHR ''-''" using A by (cases A) (auto simp: is_digit_def byte_def)
  show ?thesis
  proof (cases neg)
    case True
    then show ?thesis by (simp add: number_text_def read_number_def decimal_text_def with_sign_def i f p)
  next
    case False
    then show ?thesis using A(1) d i f p
      by (cases A) (simp_all add: number_text_def read_number_def decimal_text_def with_sign_def)
  qed
qed

end
