(* ===== verification/Wire_Lifecycle.thy ===== *)
theory Wire_Lifecycle
  imports Decimal_Text Lifecycle
begin

text \<open>
  The texts on the topic \<open>submission.lifecycle\<close>: what \<open>json.Marshal\<close> makes of the publishers' structs
  and what \<open>json.Unmarshal\<close> reads into the consumers' structs, field by field after the struct tags.
\<close>

section \<open>Reading a text into a struct\<close>

text \<open>
  A field has the name of its tag and takes a value over into the struct, or refuses it: a \<open>null\<close>
  leaves the field as it is, a value of another kind is an error.
\<close>

type_synonym 'a field = "string \<times> (json \<Rightarrow> 'a \<Rightarrow> 'a option)"

fun str_field :: "(string \<Rightarrow> 'a \<Rightarrow> 'a) \<Rightarrow> json \<Rightarrow> 'a \<Rightarrow> 'a option" where
  "str_field upd JNull a = Some a"
| "str_field upd (JStr s) a = Some (upd s a)"
| "str_field upd _ a = None"

fun bool_field :: "(bool \<Rightarrow> 'a \<Rightarrow> 'a) \<Rightarrow> json \<Rightarrow> 'a \<Rightarrow> 'a option" where
  "bool_field upd JNull a = Some a"
| "bool_field upd (JBool b) a = Some (upd b a)"
| "bool_field upd _ a = None"

text \<open>An integer field takes the numbers without fraction and exponent that are in range.\<close>

fun int_field :: "(int \<Rightarrow> 'a \<Rightarrow> 'a) \<Rightarrow> json \<Rightarrow> 'a \<Rightarrow> 'a option" where
  "int_field upd JNull a = Some a"
| "int_field upd (JNum t) a = map_option (\<lambda>v. upd v a) (Atoi t)"
| "int_field upd _ a = None"

definition int64_field :: "(int64 \<Rightarrow> 'a \<Rightarrow> 'a) \<Rightarrow> json \<Rightarrow> 'a \<Rightarrow> 'a option" where
  "int64_field upd = int_field (\<lambda>v. upd (word_of_int v))"

text \<open>A number beyond the largest finite value is an error.\<close>

fun float_field :: "(rat \<Rightarrow> 'a \<Rightarrow> 'a) \<Rightarrow> json \<Rightarrow> 'a \<Rightarrow> 'a option" where
  "float_field upd JNull a = Some a"
| "float_field upd (JNum t) a = (case ParseFloat t of Some (Fin q) \<Rightarrow> Some (upd q a) | _ \<Rightarrow> None)"
| "float_field upd _ a = None"

text \<open>
  The field of a key: that of the same name, otherwise the first of the same name up to case, where the
  Kelvin sign counts as k and the long s as s.
\<close>

definition kelvin :: string where "kelvin = map char_of [0xE2, 0x84, 0xAA :: nat]"

definition long_s :: string where "long_s = map char_of [0xC5, 0xBF :: nat]"

function (sequential) fold_name :: "string \<Rightarrow> string" where
  "fold_name [] = []"
| "fold_name (c # cs) =
     (if prefix kelvin (c # cs) then CHR ''k'' # fold_name (drop 2 cs)
      else if prefix long_s (c # cs) then CHR ''s'' # fold_name (drop 1 cs)
      else lower c # fold_name cs)"
  by pat_completeness auto
termination by (relation "measure length") auto

declare fold_name.simps [simp del]

definition field_of :: "'a field list \<Rightarrow> string \<Rightarrow> (json \<Rightarrow> 'a \<Rightarrow> 'a option) option" where
  "field_of fs key =
     (case map_of fs key of Some f \<Rightarrow> Some f
      | None \<Rightarrow> map_of (map (\<lambda>(tag, f). (fold_name tag, f)) fs) (fold_name key))"

text \<open>The members in order: an unknown key is passed over, a later duplicate wins.\<close>

fun read_fields :: "'a field list \<Rightarrow> (string \<times> json) list \<Rightarrow> 'a \<Rightarrow> 'a option" where
  "read_fields fs [] a = Some a"
| "read_fields fs ((key, v) # ms) a =
     (case field_of fs key of None \<Rightarrow> read_fields fs ms a
      | Some f \<Rightarrow> (case f v a of None \<Rightarrow> None | Some b \<Rightarrow> read_fields fs ms b))"

definition read_struct :: "'a field list \<Rightarrow> 'a \<Rightarrow> json \<Rightarrow> 'a option" where
  "read_struct fs a v = (case v of JNull \<Rightarrow> Some a | JObj ms \<Rightarrow> read_fields fs ms a | _ \<Rightarrow> None)"

definition unmarshal :: "'a field list \<Rightarrow> 'a \<Rightarrow> string \<Rightarrow> 'a option" where
  "unmarshal fs a text = (case json_parse text of None \<Rightarrow> None | Some v \<Rightarrow> read_struct fs a v)"

section \<open>Names\<close>

text \<open>The tags are lower-case letters, digits and underscores, so folding leaves them alone.\<close>

definition tag_char :: "char \<Rightarrow> bool" where
  "tag_char c \<longleftrightarrow> is_digit c \<or> 97 \<le> byte c \<and> byte c \<le> 122 \<or> c = CHR ''_''"

lemma fold_tag: "list_all tag_char s \<Longrightarrow> fold_name s = s"
proof (induction s)
  case Nil
  then show ?case by (simp add: fold_name.simps)
next
  case (Cons c cs)
  have b: "byte c < 128" "\<not> (65 \<le> byte c \<and> byte c \<le> 90)"
    using Cons.prems by (auto simp: tag_char_def is_digit_def byte_def)
  have k: "byte (char_of (0xE2 :: nat)) = 0xE2" "byte (char_of (0xC5 :: nat)) = 0xC5" by (simp_all add: byte_def)
  have "char_of (0xE2 :: nat) \<noteq> c" "char_of (0xC5 :: nat) \<noteq> c"
    using b k by auto
  then have "\<not> prefix kelvin (c # cs)" "\<not> prefix long_s (c # cs)" by (simp_all add: kelvin_def long_s_def)
  with Cons b show ?case by (auto simp: fold_name.simps lower_def)
qed

text \<open>The tags of the events.\<close>

definition event_tags :: "string list" where
  "event_tags = [''event'', ''submission_id'', ''language'', ''team_name'', ''artifact_path'', ''created_at'',
     ''binary_path'', ''built_at'', ''reason'', ''failed_at'', ''pod_name'', ''pod_ip'', ''http_port'', ''ws_port'',
     ''ready_at'', ''success'', ''completed_at'']"

lemma event_tags_fold: "list_all (\<lambda>t. fold_name t = t) event_tags"
proof -
  have "list_all (list_all tag_char) event_tags" by code_simp
  then show ?thesis by (simp add: list_all_iff fold_tag)
qed

lemma fold_event_tags:
  "fold_name ''event'' = ''event''" "fold_name ''submission_id'' = ''submission_id''"
  "fold_name ''language'' = ''language''" "fold_name ''team_name'' = ''team_name''"
  "fold_name ''artifact_path'' = ''artifact_path''" "fold_name ''created_at'' = ''created_at''"
  "fold_name ''binary_path'' = ''binary_path''" "fold_name ''built_at'' = ''built_at''"
  "fold_name ''reason'' = ''reason''" "fold_name ''failed_at'' = ''failed_at''"
  "fold_name ''pod_name'' = ''pod_name''" "fold_name ''pod_ip'' = ''pod_ip''"
  "fold_name ''http_port'' = ''http_port''" "fold_name ''ws_port'' = ''ws_port''"
  "fold_name ''ready_at'' = ''ready_at''" "fold_name ''success'' = ''success''"
  "fold_name ''completed_at'' = ''completed_at''"
  using event_tags_fold unfolding event_tags_def by (simp_all only: list.pred_inject)

section \<open>The structs of the services\<close>

definition created_fields :: "SubmissionCreatedEvent field list" where
  "created_fields =
     [(''event'', str_field (\<lambda>s. sc_Event_update (\<lambda>_. s))),
      (''submission_id'', str_field (\<lambda>s. sc_SubmissionID_update (\<lambda>_. s))),
      (''language'', str_field (\<lambda>s. sc_Language_update (\<lambda>_. s))),
      (''team_name'', str_field (\<lambda>s. sc_TeamName_update (\<lambda>_. s))),
      (''artifact_path'', str_field (\<lambda>s. sc_ArtifactPath_update (\<lambda>_. s))),
      (''created_at'', int64_field (\<lambda>n. sc_CreatedAt_update (\<lambda>_. n)))]"

definition complete_fields :: "BuildCompleteEvent field list" where
  "complete_fields =
     [(''event'', str_field (\<lambda>s. bc_Event_update (\<lambda>_. s))),
      (''submission_id'', str_field (\<lambda>s. bc_SubmissionID_update (\<lambda>_. s))),
      (''binary_path'', str_field (\<lambda>s. bc_BinaryPath_update (\<lambda>_. s))),
      (''language'', str_field (\<lambda>s. bc_Language_update (\<lambda>_. s))),
      (''team_name'', str_field (\<lambda>s. bc_TeamName_update (\<lambda>_. s))),
      (''built_at'', int64_field (\<lambda>n. bc_BuiltAt_update (\<lambda>_. n)))]"

definition ready_fields :: "SandboxReadyEvent field list" where
  "ready_fields =
     [(''event'', str_field (\<lambda>s. sr_Event_update (\<lambda>_. s))),
      (''submission_id'', str_field (\<lambda>s. sr_SubmissionID_update (\<lambda>_. s))),
      (''pod_name'', str_field (\<lambda>s. sr_PodName_update (\<lambda>_. s))),
      (''pod_ip'', str_field (\<lambda>s. sr_PodIP_update (\<lambda>_. s))),
      (''http_port'', int_field (\<lambda>n. sr_HTTPPort_update (\<lambda>_. n))),
      (''ws_port'', int_field (\<lambda>n. sr_WSPort_update (\<lambda>_. n))),
      (''team_name'', str_field (\<lambda>s. sr_TeamName_update (\<lambda>_. s))),
      (''ready_at'', int64_field (\<lambda>n. sr_ReadyAt_update (\<lambda>_. n)))]"

text \<open>The bot orchestrator's first look at a record reads the event's name alone.\<close>

definition base_fields :: "string field list" where
  "base_fields = [(''event'', str_field (\<lambda>s _. s))]"

definition no_created :: SubmissionCreatedEvent where
  "no_created = \<lparr>sc_Event = [], sc_SubmissionID = [], sc_Language = [], sc_TeamName = [], sc_ArtifactPath = [], sc_CreatedAt = 0\<rparr>"

definition no_complete :: BuildCompleteEvent where
  "no_complete = \<lparr>bc_Event = [], bc_SubmissionID = [], bc_BinaryPath = [], bc_Language = [], bc_TeamName = [], bc_BuiltAt = 0\<rparr>"

definition no_ready :: SandboxReadyEvent where
  "no_ready = \<lparr>sr_Event = [], sr_SubmissionID = [], sr_PodName = [], sr_PodIP = [], sr_HTTPPort = 0, sr_WSPort = 0,
     sr_TeamName = [], sr_ReadyAt = 0\<rparr>"

text \<open>The members \<open>json.Marshal\<close> writes for a message, in the order of the struct. No service sends a text that is not JSON.\<close>

definition num :: "int \<Rightarrow> json" where
  "num n = JNum (dec n)"

fun event_members :: "lifecycle \<Rightarrow> (string \<times> json) list option" where
  "event_members (SubmissionCreated e) = Some
     [(''event'', JStr (sc_Event e)), (''submission_id'', JStr (sc_SubmissionID e)), (''language'', JStr (sc_Language e)),
      (''team_name'', JStr (sc_TeamName e)), (''artifact_path'', JStr (sc_ArtifactPath e)),
      (''created_at'', num (sint (sc_CreatedAt e)))]"
| "event_members (BuildComplete e) = Some
     [(''event'', JStr (bc_Event e)), (''submission_id'', JStr (bc_SubmissionID e)), (''binary_path'', JStr (bc_BinaryPath e)),
      (''language'', JStr (bc_Language e)), (''team_name'', JStr (bc_TeamName e)), (''built_at'', num (sint (bc_BuiltAt e)))]"
| "event_members (Failed e) = Some
     [(''event'', JStr (fe_Event e)), (''submission_id'', JStr (fe_SubmissionID e)), (''reason'', JStr (fe_Reason e)),
      (''failed_at'', num (sint (fe_FailedAt e)))]"
| "event_members (SandboxReady e) = Some
     [(''event'', JStr (sr_Event e)), (''submission_id'', JStr (sr_SubmissionID e)), (''pod_name'', JStr (sr_PodName e)),
      (''pod_ip'', JStr (sr_PodIP e)), (''http_port'', num (sr_HTTPPort e)), (''ws_port'', num (sr_WSPort e)),
      (''team_name'', JStr (sr_TeamName e)), (''ready_at'', num (sint (sr_ReadyAt e)))]"
| "event_members (TestComplete e) = Some
     [(''event'', JStr (tc_Event e)), (''submission_id'', JStr (tc_SubmissionID e)), (''team_name'', JStr (tc_TeamName e)),
      (''success'', JBool (tc_Success e)), (''reason'', JStr (tc_Reason e)), (''completed_at'', num (sint (tc_CompletedAt e)))]"
| "event_members Garbage = None"

definition event_text :: "lifecycle \<Rightarrow> string option" where
  "event_text m = map_option (\<lambda>ms. json_print (JObj ms)) (event_members m)"

text \<open>A message after the wire: its strings are valid UTF-8.\<close>

fun repaired :: "lifecycle \<Rightarrow> lifecycle" where
  "repaired (SubmissionCreated e) = SubmissionCreated (e\<lparr>sc_Event := sanitize (sc_Event e), sc_SubmissionID := sanitize (sc_SubmissionID e),
     sc_Language := sanitize (sc_Language e), sc_TeamName := sanitize (sc_TeamName e), sc_ArtifactPath := sanitize (sc_ArtifactPath e)\<rparr>)"
| "repaired (BuildComplete e) = BuildComplete (e\<lparr>bc_Event := sanitize (bc_Event e), bc_SubmissionID := sanitize (bc_SubmissionID e),
     bc_BinaryPath := sanitize (bc_BinaryPath e), bc_Language := sanitize (bc_Language e), bc_TeamName := sanitize (bc_TeamName e)\<rparr>)"
| "repaired (Failed e) = Failed (e\<lparr>fe_Event := sanitize (fe_Event e), fe_SubmissionID := sanitize (fe_SubmissionID e),
     fe_Reason := sanitize (fe_Reason e)\<rparr>)"
| "repaired (SandboxReady e) = SandboxReady (e\<lparr>sr_Event := sanitize (sr_Event e), sr_SubmissionID := sanitize (sr_SubmissionID e),
     sr_PodName := sanitize (sr_PodName e), sr_PodIP := sanitize (sr_PodIP e), sr_TeamName := sanitize (sr_TeamName e)\<rparr>)"
| "repaired (TestComplete e) = TestComplete (e\<lparr>tc_Event := sanitize (tc_Event e), tc_SubmissionID := sanitize (tc_SubmissionID e),
     tc_TeamName := sanitize (tc_TeamName e), tc_Reason := sanitize (tc_Reason e)\<rparr>)"
| "repaired Garbage = Garbage"

text \<open>Go's \<open>int\<close> has 64 bits.\<close>

definition int_ok :: "int \<Rightarrow> bool" where
  "int_ok n \<longleftrightarrow> - (2 ^ 63) \<le> n \<and> n < 2 ^ 63"

fun ports_ok :: "lifecycle \<Rightarrow> bool" where
  "ports_ok (SandboxReady e) \<longleftrightarrow> int_ok (sr_HTTPPort e) \<and> int_ok (sr_WSPort e)"
| "ports_ok _ \<longleftrightarrow> True"

fun event_name :: "lifecycle \<Rightarrow> string option" where
  "event_name (SubmissionCreated e) = Some (sc_Event e)"
| "event_name (BuildComplete e) = Some (bc_Event e)"
| "event_name (Failed e) = Some (fe_Event e)"
| "event_name (SandboxReady e) = Some (sr_Event e)"
| "event_name (TestComplete e) = Some (tc_Event e)"
| "event_name Garbage = None"

section \<open>Reading what was written\<close>

lemma dec_number_text: "number_text (dec n)"
proof -
  have nat: "read_int (dec_nat m) = Some (dec_nat m, [])" for m
  proof -
    have d: "takeWhile is_digit (dec_nat m) = dec_nat m" "dropWhile is_digit (dec_nat m) = []"
      using dec_nat_digits by (simp_all add: takeWhile_eq_all_conv)
    have z: "dec_nat 0 = ''0''" by (subst dec_nat.simps) (simp add: char_of_eqI byte_def)
    show ?thesis
      unfolding read_int_def Let_def d
      using dec_nat_not_empty [of m] dec_nat_head [of m] by (cases "m = 0") (auto simp: z)
  qed
  have h: "hd (dec_nat m) \<noteq> CHR ''-''" for m
    using dec_nat_digits [of "hd (dec_nat m)" m] dec_nat_not_empty [of m]
    by (auto simp: is_digit_def byte_def)
  show ?thesis
    using h [of "nat n"] dec_nat_not_empty [of "nat n"] nat [of "nat n"]
    by (cases "dec_nat (nat n)") (auto simp: number_text_def read_number_def dec_def nat read_fraction_def read_power_def)
qed

lemma sanitize_ascii: "list_all (\<lambda>c. byte c < 128) s \<Longrightarrow> sanitize s = s"
  by (induction s) (simp_all add: ascii_head sanitize.simps)

lemma sanitize_tag: "list_all tag_char s \<Longrightarrow> sanitize s = s"
proof (rule sanitize_ascii)
  have "tag_char c \<Longrightarrow> byte c < 128" for c by (auto simp: tag_char_def is_digit_def byte_def)
  then show "list_all tag_char s \<Longrightarrow> list_all (\<lambda>c. byte c < 128) s" by (simp add: list_all_iff)
qed

lemma event_tags_clean: "list_all (\<lambda>t. sanitize t = t) event_tags"
proof -
  have "list_all (list_all tag_char) event_tags" by code_simp
  then show ?thesis by (simp add: list_all_iff sanitize_tag)
qed

lemma sanitize_event_tags:
  "sanitize ''event'' = ''event''" "sanitize ''submission_id'' = ''submission_id''"
  "sanitize ''language'' = ''language''" "sanitize ''team_name'' = ''team_name''"
  "sanitize ''artifact_path'' = ''artifact_path''" "sanitize ''created_at'' = ''created_at''"
  "sanitize ''binary_path'' = ''binary_path''" "sanitize ''built_at'' = ''built_at''"
  "sanitize ''reason'' = ''reason''" "sanitize ''failed_at'' = ''failed_at''"
  "sanitize ''pod_name'' = ''pod_name''" "sanitize ''pod_ip'' = ''pod_ip''"
  "sanitize ''http_port'' = ''http_port''" "sanitize ''ws_port'' = ''ws_port''"
  "sanitize ''ready_at'' = ''ready_at''" "sanitize ''success'' = ''success''"
  "sanitize ''completed_at'' = ''completed_at''"
  using event_tags_clean unfolding event_tags_def by (simp_all only: list.pred_inject)

text \<open>A flat object of strings, numbers and booleans comes back with its strings repaired.\<close>

fun flat :: "json \<Rightarrow> bool" where
  "flat (JNum t) = number_text t"
| "flat (JArr vs) = False"
| "flat (JObj ms) = False"
| "flat _ = True"

lemma flat_simps [simp]: "flat (num n)" "clean (num n) = num n"
  by (simp_all add: num_def dec_number_text)

lemma flat_printable: "flat v \<Longrightarrow> printable_json v" "flat v \<Longrightarrow> nests n v"
  by (cases v; simp)+

lemma parse_flat:
  "list_all (\<lambda>(k, v). flat v) ms \<Longrightarrow>
     json_parse (json_print (JObj ms)) = Some (JObj (map (\<lambda>(k, v). (sanitize k, clean v)) ms))"
proof -
  assume f: "list_all (\<lambda>(k, v). flat v) ms"
  have "printable_json (JObj ms)" "nests max_depth (JObj ms)"
    using f by (auto simp: list_all_iff flat_printable max_depth_def)
  from parse_print [OF this] show ?thesis by simp
qed

lemma unmarshal_flat:
  "list_all (\<lambda>(k, v). flat v) ms \<Longrightarrow>
     unmarshal fs a (json_print (JObj ms)) = read_fields fs (map (\<lambda>(k, v). (sanitize k, clean v)) ms) a"
  by (simp add: unmarshal_def parse_flat read_struct_def del: json_print.simps)

lemma unmarshal_encoded:
  "list_all (\<lambda>(k, v). flat v) ms \<Longrightarrow>
     unmarshal fs a (json_encode (JObj ms)) = read_fields fs (map (\<lambda>(k, v). (sanitize k, clean v)) ms) a"
proof -
  assume f: "list_all (\<lambda>(k, v). flat v) ms"
  have "printable_json (JObj ms)" "nests max_depth (JObj ms)"
    using f by (auto simp: list_all_iff flat_printable max_depth_def)
  from parse_encode [OF this] show ?thesis by (simp add: unmarshal_def read_struct_def)
qed

lemma event_flat: "event_members m = Some ms \<Longrightarrow> list_all (\<lambda>(k, v). flat v) ms"
  by (cases m) auto

lemma unmarshal_event:
  "event_text m = Some t \<Longrightarrow> event_members m = Some ms \<Longrightarrow>
     unmarshal fs a t = read_fields fs (map (\<lambda>(k, v). (sanitize k, clean v)) ms) a"
  using unmarshal_flat [OF event_flat] by (auto simp: event_text_def simp del: json_print.simps)

lemma int_field_num [simp]: "int_ok n \<Longrightarrow> int_field upd (num n) a = Some (upd n a)"
  by (simp add: num_def int_ok_def Atoi_dec)

lemma int64_field_num [simp]: "int64_field upd (num (sint n)) a = Some (upd n a)"
  using sint64_bounds [of n] by (simp add: int64_field_def int_ok_def)

lemma field_of_tag:
  assumes "list_all (\<lambda>(t, f). fold_name t = t) fs" and "fold_name key = key"
  shows "field_of fs key = map_of fs key"
proof -
  have "map (\<lambda>(t, f). (fold_name t, f)) fs = fs"
    using assms(1) by (induction fs) auto
  then show ?thesis using assms(2) by (simp add: field_of_def split: option.split)
qed

lemma field_of_created: "fold_name key = key \<Longrightarrow> field_of created_fields key = map_of created_fields key"
  by (rule field_of_tag) (simp_all add: created_fields_def fold_event_tags)

lemma field_of_complete: "fold_name key = key \<Longrightarrow> field_of complete_fields key = map_of complete_fields key"
  by (rule field_of_tag) (simp_all add: complete_fields_def fold_event_tags)

lemma field_of_ready: "fold_name key = key \<Longrightarrow> field_of ready_fields key = map_of ready_fields key"
  by (rule field_of_tag) (simp_all add: ready_fields_def fold_event_tags)

lemma field_of_base: "fold_name key = key \<Longrightarrow> field_of base_fields key = map_of base_fields key"
  by (rule field_of_tag) (simp_all add: base_fields_def fold_event_tags)

lemma created_lookup:
  "field_of created_fields ''event'' = Some (str_field (\<lambda>s. sc_Event_update (\<lambda>_. s)))"
  "field_of created_fields ''submission_id'' = Some (str_field (\<lambda>s. sc_SubmissionID_update (\<lambda>_. s)))"
  "field_of created_fields ''language'' = Some (str_field (\<lambda>s. sc_Language_update (\<lambda>_. s)))"
  "field_of created_fields ''team_name'' = Some (str_field (\<lambda>s. sc_TeamName_update (\<lambda>_. s)))"
  "field_of created_fields ''artifact_path'' = Some (str_field (\<lambda>s. sc_ArtifactPath_update (\<lambda>_. s)))"
  "field_of created_fields ''created_at'' = Some (int64_field (\<lambda>n. sc_CreatedAt_update (\<lambda>_. n)))"
  "field_of created_fields ''binary_path'' = None"
  "field_of created_fields ''built_at'' = None"
  "field_of created_fields ''reason'' = None"
  "field_of created_fields ''failed_at'' = None"
  "field_of created_fields ''pod_name'' = None"
  "field_of created_fields ''pod_ip'' = None"
  "field_of created_fields ''http_port'' = None"
  "field_of created_fields ''ws_port'' = None"
  "field_of created_fields ''ready_at'' = None"
  "field_of created_fields ''success'' = None"
  "field_of created_fields ''completed_at'' = None"
  by (simp_all add: field_of_created fold_event_tags) (simp_all add: created_fields_def)

lemma complete_lookup:
  "field_of complete_fields ''event'' = Some (str_field (\<lambda>s. bc_Event_update (\<lambda>_. s)))"
  "field_of complete_fields ''submission_id'' = Some (str_field (\<lambda>s. bc_SubmissionID_update (\<lambda>_. s)))"
  "field_of complete_fields ''language'' = Some (str_field (\<lambda>s. bc_Language_update (\<lambda>_. s)))"
  "field_of complete_fields ''team_name'' = Some (str_field (\<lambda>s. bc_TeamName_update (\<lambda>_. s)))"
  "field_of complete_fields ''artifact_path'' = None"
  "field_of complete_fields ''created_at'' = None"
  "field_of complete_fields ''binary_path'' = Some (str_field (\<lambda>s. bc_BinaryPath_update (\<lambda>_. s)))"
  "field_of complete_fields ''built_at'' = Some (int64_field (\<lambda>n. bc_BuiltAt_update (\<lambda>_. n)))"
  "field_of complete_fields ''reason'' = None"
  "field_of complete_fields ''failed_at'' = None"
  "field_of complete_fields ''pod_name'' = None"
  "field_of complete_fields ''pod_ip'' = None"
  "field_of complete_fields ''http_port'' = None"
  "field_of complete_fields ''ws_port'' = None"
  "field_of complete_fields ''ready_at'' = None"
  "field_of complete_fields ''success'' = None"
  "field_of complete_fields ''completed_at'' = None"
  by (simp_all add: field_of_complete fold_event_tags) (simp_all add: complete_fields_def)

lemma ready_lookup:
  "field_of ready_fields ''event'' = Some (str_field (\<lambda>s. sr_Event_update (\<lambda>_. s)))"
  "field_of ready_fields ''submission_id'' = Some (str_field (\<lambda>s. sr_SubmissionID_update (\<lambda>_. s)))"
  "field_of ready_fields ''language'' = None"
  "field_of ready_fields ''team_name'' = Some (str_field (\<lambda>s. sr_TeamName_update (\<lambda>_. s)))"
  "field_of ready_fields ''artifact_path'' = None"
  "field_of ready_fields ''created_at'' = None"
  "field_of ready_fields ''binary_path'' = None"
  "field_of ready_fields ''built_at'' = None"
  "field_of ready_fields ''reason'' = None"
  "field_of ready_fields ''failed_at'' = None"
  "field_of ready_fields ''pod_name'' = Some (str_field (\<lambda>s. sr_PodName_update (\<lambda>_. s)))"
  "field_of ready_fields ''pod_ip'' = Some (str_field (\<lambda>s. sr_PodIP_update (\<lambda>_. s)))"
  "field_of ready_fields ''http_port'' = Some (int_field (\<lambda>n. sr_HTTPPort_update (\<lambda>_. n)))"
  "field_of ready_fields ''ws_port'' = Some (int_field (\<lambda>n. sr_WSPort_update (\<lambda>_. n)))"
  "field_of ready_fields ''ready_at'' = Some (int64_field (\<lambda>n. sr_ReadyAt_update (\<lambda>_. n)))"
  "field_of ready_fields ''success'' = None"
  "field_of ready_fields ''completed_at'' = None"
  by (simp_all add: field_of_ready fold_event_tags) (simp_all add: ready_fields_def)

lemma base_lookup:
  "field_of base_fields ''event'' = Some (str_field (\<lambda>s _. s))"
  "field_of base_fields ''submission_id'' = None"
  "field_of base_fields ''language'' = None"
  "field_of base_fields ''team_name'' = None"
  "field_of base_fields ''artifact_path'' = None"
  "field_of base_fields ''created_at'' = None"
  "field_of base_fields ''binary_path'' = None"
  "field_of base_fields ''built_at'' = None"
  "field_of base_fields ''reason'' = None"
  "field_of base_fields ''failed_at'' = None"
  "field_of base_fields ''pod_name'' = None"
  "field_of base_fields ''pod_ip'' = None"
  "field_of base_fields ''http_port'' = None"
  "field_of base_fields ''ws_port'' = None"
  "field_of base_fields ''ready_at'' = None"
  "field_of base_fields ''success'' = None"
  "field_of base_fields ''completed_at'' = None"
  by (simp_all add: field_of_base fold_event_tags) (simp_all add: base_fields_def)

lemma read_created:
  "event_members m = Some ms \<Longrightarrow>
     read_fields created_fields (map (\<lambda>(k, v). (sanitize k, clean v)) ms) no_created = decode_created (repaired m)"
  by (cases m) (auto simp: created_lookup sanitize_event_tags no_created_def)

lemma read_complete:
  "event_members m = Some ms \<Longrightarrow>
     read_fields complete_fields (map (\<lambda>(k, v). (sanitize k, clean v)) ms) no_complete = decode_complete (repaired m)"
  by (cases m) (auto simp: complete_lookup sanitize_event_tags no_complete_def)

lemma read_ready:
  "event_members m = Some ms \<Longrightarrow> ports_ok m \<Longrightarrow>
     read_fields ready_fields (map (\<lambda>(k, v). (sanitize k, clean v)) ms) no_ready = decode_ready (repaired m)"
  by (cases m) (auto simp: ready_lookup sanitize_event_tags no_ready_def)

lemma read_base:
  "event_members m = Some ms \<Longrightarrow>
     read_fields base_fields (map (\<lambda>(k, v). (sanitize k, clean v)) ms) [] = event_name (repaired m)"
  by (cases m) (auto simp: base_lookup sanitize_event_tags)

text \<open>
  C13. A message of the topic survives the wire. Whatever one of the services publishes as JSON, each of the
  four structs that read the topic (the build service's, the sandbox orchestrator's, the bot orchestrator's
  and its struct of the event name) decodes from the text exactly the fields it names, every one under its
  own tag, with the bytes that are not UTF-8 replaced and nothing else changed; a message of another kind
  leaves the fields it lacks at their zero values.
\<close>

theorem lifecycle_texts:
  assumes "event_text m = Some t" and "ports_ok m"
  shows "unmarshal created_fields no_created t = decode_created (repaired m) \<and>
    unmarshal complete_fields no_complete t = decode_complete (repaired m) \<and>
    unmarshal ready_fields no_ready t = decode_ready (repaired m) \<and>
    unmarshal base_fields [] t = event_name (repaired m)"
proof -
  obtain ms where ms: "event_members m = Some ms"
    using assms(1) by (auto simp: event_text_def)
  note read = unmarshal_event [OF assms(1) ms]
  show ?thesis
    using read_created [OF ms] read_complete [OF ms] read_ready [OF ms assms(2)] read_base [OF ms] by (simp add: read)
qed

definition demo_ready_message :: lifecycle where
  "demo_ready_message = SandboxReady \<lparr>sr_Event = ''sandbox.ready'', sr_SubmissionID = ''s1'', sr_PodName = ''p'', sr_PodIP = ''10.0.0.7'',
     sr_HTTPPort = 8080, sr_WSPort = 8080, sr_TeamName = ''t'', sr_ReadyAt = 5\<rparr>"

theorem lifecycle_texts_witness:
  "\<exists>t. event_text demo_ready_message = Some t \<and> ports_ok demo_ready_message \<and>
     unmarshal ready_fields no_ready t = decode_ready (repaired demo_ready_message) \<and>
     unmarshal base_fields [] t = event_name (repaired demo_ready_message)"
proof -
  obtain t where t: "event_text demo_ready_message = Some t" by (simp add: demo_ready_message_def event_text_def)
  have p: "ports_ok demo_ready_message" by (simp add: demo_ready_message_def int_ok_def)
  from lifecycle_texts [OF t p] t p show ?thesis by blast
qed

end
