(* ===== verification/Routes.thy ===== *)
theory Routes
  imports Json
begin

text \<open>
  The HTTP routes of the services: the multiplexer of Go's \<open>net/http\<close>, as far as the services' patterns
  use it, and the routes each \<open>main.go\<close> registers.
\<close>

section \<open>The multiplexer\<close>

text \<open>
  A pattern: an optional method and the segments of its path, literal or a wildcard that takes one
  segment; a pattern that ends in a slash takes every path below it.
\<close>

datatype segment = Lit string | Wild

record 'h pattern =
  pt_method :: "string option"
  pt_segments :: "segment list"
  pt_subtree :: bool
  pt_handler :: "string list \<Rightarrow> 'h"

text \<open>The escapes of a segment; the client's URL has been parsed, so every percent sign begins one.\<close>

fun unescape :: "string \<Rightarrow> string" where
  "unescape (CHR 0x25 # a # b # s) =
     (case (hex_val a, hex_val b) of
        (Some h, Some l) \<Rightarrow> char_of (16 * h + l) # unescape s
      | _ \<Rightarrow> CHR 0x25 # unescape (a # b # s))"
| "unescape (c # s) = c # unescape s"
| "unescape [] = []"

text \<open>A path in escaped form, cut at its slashes; one that is not in clean form is redirected to it.\<close>

definition path_parts :: "string \<Rightarrow> string list" where
  "path_parts p = Split (CHR ''/'') (tl p)"

definition clean_path :: "string \<Rightarrow> bool" where
  "clean_path p \<longleftrightarrow> p \<noteq> [] \<and> hd p = CHR ''/'' \<and>
     list_all (\<lambda>s. s \<noteq> []) (butlast (path_parts p)) \<and> list_all (\<lambda>s. s \<noteq> ''.'' \<and> s \<noteq> ''..'') (path_parts p)"

definition path_segments :: "string \<Rightarrow> string list" where
  "path_segments p = map unescape (path_parts p)"

text \<open>The values of the wildcards, when the segments match. An empty segment is the one after a final slash.\<close>

fun match_segments :: "segment list \<Rightarrow> bool \<Rightarrow> string list \<Rightarrow> string list option" where
  "match_segments [] subtree ss = (if subtree \<or> ss = [] then Some [] else None)"
| "match_segments (Lit l # ps) subtree (s # ss) = (if l = s then match_segments ps subtree ss else None)"
| "match_segments (Wild # ps) subtree (s # ss) = (if s = [] then None else map_option (Cons s) (match_segments ps subtree ss))"
| "match_segments (p # ps) subtree [] = None"

text \<open>A pattern for GET serves HEAD as well.\<close>

definition method_ok :: "string option \<Rightarrow> string \<Rightarrow> bool" where
  "method_ok m meth \<longleftrightarrow> (case m of None \<Rightarrow> True | Some x \<Rightarrow> meth = x \<or> x = ''GET'' \<and> meth = ''HEAD'')"

definition pattern_path :: "'h pattern \<Rightarrow> string list \<Rightarrow> string list option" where
  "pattern_path p ss = match_segments (pt_segments p) (pt_subtree p) ss"

definition pattern_match :: "string \<Rightarrow> string list \<Rightarrow> 'h pattern \<Rightarrow> 'h option" where
  "pattern_match meth ss p = (if method_ok (pt_method p) meth then map_option (pt_handler p) (pattern_path p ss) else None)"

text \<open>The more specific pattern wins: literals, then wildcards, then a path taken with everything below it.\<close>

definition by_rank :: "'h pattern list \<Rightarrow> 'h pattern list" where
  "by_rank ps = filter (\<lambda>p. \<not> pt_subtree p \<and> Wild \<notin> set (pt_segments p)) ps
     @ filter (\<lambda>p. \<not> pt_subtree p \<and> Wild \<in> set (pt_segments p)) ps @ filter pt_subtree ps"

datatype 'h routed = Moved | NotFound | NotAllowed | Routed 'h

definition ServeMux :: "'h pattern list \<Rightarrow> string \<Rightarrow> string \<Rightarrow> 'h routed" where
  "ServeMux ps meth path =
     (if \<not> clean_path path then Moved
      else (let ss = path_segments path
            in case somes (map (pattern_match meth ss) (by_rank ps)) of
                 h # _ \<Rightarrow> Routed h
               | [] \<Rightarrow> if list_ex (\<lambda>p. pattern_path p ss \<noteq> None) ps then NotAllowed else NotFound))"

definition route :: "string option \<Rightarrow> segment list \<Rightarrow> 'h \<Rightarrow> 'h pattern" where
  "route m segs h = \<lparr>pt_method = m, pt_segments = segs, pt_subtree = False, pt_handler = (\<lambda>_. h)\<rparr>"

section \<open>The services' routes\<close>

datatype stub_page = StubHealthz | StubStream | StubOrderbook

definition stub_routes :: "stub_page pattern list" where
  "stub_routes = [route (Some ''GET'') [Lit ''healthz''] StubHealthz, route (Some ''GET'') [Lit ''stream''] StubStream,
     route (Some ''GET'') [Lit ''orderbook''] StubOrderbook]"

datatype api_page = ApiHealthz | ApiSubmit | ApiConfirm string

definition api_routes :: "api_page pattern list" where
  "api_routes = [route (Some ''GET'') [Lit ''healthz''] ApiHealthz, route (Some ''POST'') [Lit ''submissions''] ApiSubmit,
     \<lparr>pt_method = Some ''POST'', pt_segments = [Lit ''submissions'', Wild, Lit ''confirm''], pt_subtree = False,
      pt_handler = (\<lambda>vs. ApiConfirm (hd vs))\<rparr>]"

datatype board_page = BoardHealthz | BoardTable | BoardSocket | BoardFile

definition board_routes :: "board_page pattern list" where
  "board_routes = [route (Some ''GET'') [Lit ''healthz''] BoardHealthz, route (Some ''GET'') [Lit ''api'', Lit ''leaderboard''] BoardTable,
     route (Some ''GET'') [Lit ''ws''] BoardSocket,
     \<lparr>pt_method = Some ''GET'', pt_segments = [], pt_subtree = True, pt_handler = (\<lambda>_. BoardFile)\<rparr>]"

datatype orch_page = OrchRun | OrchStatus | OrchHealthz

definition orch_routes :: "orch_page pattern list" where
  "orch_routes = [route None [Lit ''run''] OrchRun, route None [Lit ''status''] OrchStatus, route None [Lit ''healthz''] OrchHealthz]"

datatype ingester_page = IngesterHealthz

definition ingester_routes :: "ingester_page pattern list" where
  "ingester_routes = [route None [Lit ''healthz''] IngesterHealthz]"

section \<open>What is served where\<close>

definition getting :: "string \<Rightarrow> 'h \<Rightarrow> 'h routed" where
  "getting meth h = (if meth = ''GET'' \<or> meth = ''HEAD'' then Routed h else NotAllowed)"

lemmas routing = ServeMux_def by_rank_def pattern_match_def pattern_path_def method_ok_def route_def getting_def Let_def

lemma segment_cases:
  "(xs = [] \<Longrightarrow> P) \<Longrightarrow> (\<And>a. xs = [a] \<Longrightarrow> P) \<Longrightarrow> (\<And>a b. xs = [a, b] \<Longrightarrow> P) \<Longrightarrow>
     (\<And>a b c. xs = [a, b, c] \<Longrightarrow> P) \<Longrightarrow> (\<And>a b c d e. xs = a # b # c # d # e \<Longrightarrow> P) \<Longrightarrow> P"
  by (metis list.exhaust)

lemma stub_served:
  "clean_path path \<Longrightarrow> ServeMux stub_routes meth path =
     (if path_segments path = [''healthz''] then getting meth StubHealthz
      else if path_segments path = [''stream''] then getting meth StubStream
      else if path_segments path = [''orderbook''] then getting meth StubOrderbook
      else NotFound)"
  by (rule segment_cases [of "path_segments path"]) (auto simp: routing stub_routes_def)

lemma api_served:
  "clean_path path \<Longrightarrow> ServeMux api_routes meth path =
     (case path_segments path of
        [s] \<Rightarrow> if s = ''healthz'' then getting meth ApiHealthz
               else if s = ''submissions'' then (if meth = ''POST'' then Routed ApiSubmit else NotAllowed)
               else NotFound
      | [s, sid, c] \<Rightarrow> if s = ''submissions'' \<and> sid \<noteq> [] \<and> c = ''confirm''
                      then (if meth = ''POST'' then Routed (ApiConfirm sid) else NotAllowed) else NotFound
      | _ \<Rightarrow> NotFound)"
  by (rule segment_cases [of "path_segments path"]) (auto simp: routing api_routes_def)

lemma board_served:
  "clean_path path \<Longrightarrow> ServeMux board_routes meth path =
     getting meth (if path_segments path = [''healthz''] then BoardHealthz
       else if path_segments path = [''api'', ''leaderboard''] then BoardTable
       else if path_segments path = [''ws''] then BoardSocket
       else BoardFile)"
  by (rule segment_cases [of "path_segments path"]) (auto simp: routing board_routes_def)

lemma orch_served:
  "clean_path path \<Longrightarrow> ServeMux orch_routes meth path =
     (if path_segments path = [''run''] then Routed OrchRun
      else if path_segments path = [''status''] then Routed OrchStatus
      else if path_segments path = [''healthz''] then Routed OrchHealthz
      else NotFound)"
  by (rule segment_cases [of "path_segments path"]) (auto simp: routing orch_routes_def)

lemma ingester_served:
  "clean_path path \<Longrightarrow> ServeMux ingester_routes meth path =
     (if path_segments path = [''healthz''] then Routed IngesterHealthz else NotFound)"
  by (rule segment_cases [of "path_segments path"]) (auto simp: routing ingester_routes_def)

end
