(* ===== verification/Http_Api.thy ===== *)
theory Http_Api
  imports Wire_Lifecycle Routes Submission_Props
begin

text \<open>
  The submission API as its clients see it: requests with a method, a path and a body, pages with a status
  and a JSON text (\<open>main.go\<close>, \<open>handler.go\<close> of \<open>src/services/submission-api\<close>).
\<close>

section \<open>Ids\<close>

text \<open>The texts the uuid package produces: 36 characters, lower case hexadecimal digits and hyphens.\<close>

definition uuid_char :: "char \<Rightarrow> bool" where
  "uuid_char c \<longleftrightarrow> is_digit c \<or> c \<in> set ''abcdef-''"

definition uuid_text :: "string \<Rightarrow> bool" where
  "uuid_text s \<longleftrightarrow> length s = 36 \<and> list_all uuid_char s"

definition demo_uuid :: string where
  "demo_uuid = ''0b9c4d5e-12ab-4cde-8f01-23456789abcd''"

lemma demo_uuid_text: "uuid_text demo_uuid"
  by code_simp

section \<open>Bodies\<close>

definition init_fields :: "SubmitInitRequest field list" where
  "init_fields =
     [(''language'', str_field (\<lambda>s. rq_Language_update (\<lambda>_. s))),
      (''team_name'', str_field (\<lambda>s. rq_TeamName_update (\<lambda>_. s)))]"

definition no_request :: SubmitInitRequest where
  "no_request = \<lparr>rq_Language = [], rq_TeamName = []\<rparr>"

definition read_request :: "string \<Rightarrow> SubmitInitRequest option" where
  "read_request body = (case json_decode body of None \<Rightarrow> None | Some v \<Rightarrow> read_struct init_fields no_request v)"

definition response_json :: "SubmitInitResponse \<Rightarrow> json" where
  "response_json r = JObj
     [(''submission_id'', JStr (rs_SubmissionID r)), (''presigned_url'', JStr (rs_PresignedURL r)),
      (''artifact_key'', JStr (rs_ArtifactKey r)), (''expires_at'', num (rs_ExpiresAt r))]"

type_synonym page = "nat \<times> string"

definition writeJSON :: "nat \<Rightarrow> json \<Rightarrow> page" where
  "writeJSON status v = (status, json_encode v)"

fun reply_page :: "api_reply \<Rightarrow> page" where
  "reply_page (Refused status e) = writeJSON status (JObj [(''error'', JStr e)])"
| "reply_page (InitAccepted r) = writeJSON 202 (response_json r)"
| "reply_page (ConfirmAccepted sid) = writeJSON 202 (JObj [(''submission_id'', JStr sid)])"

section \<open>Request ids\<close>

text \<open>
  The middleware gives a request the id of its header, or a fresh one, and hands it on in the context;
  the handlers' loggers carry it as an attribute.
\<close>

definition requestIDMiddleware :: "(string \<Rightarrow> 'r) \<Rightarrow> string \<Rightarrow> string \<Rightarrow> 'r" where
  "requestIDMiddleware nxt header fresh = nxt (if header = [] then fresh else header)"

definition loggerFor :: "string \<Rightarrow> (string \<times> string) list" where
  "loggerFor reqID = [(''request_id'', reqID)]"

lemma request_logged: "fresh \<noteq> [] \<Longrightarrow> \<exists>reqID. reqID \<noteq> [] \<and> requestIDMiddleware loggerFor header fresh = [(''request_id'', reqID)]"
  by (simp add: requestIDMiddleware_def loggerFor_def)

section \<open>The service\<close>

record http_request =
  hr_method :: string
  hr_path :: string
  hr_body :: string

text \<open>
  The uuid, the signer, the outcome of publishing and the times are those of this request; a page that is
  not the handlers' is the multiplexer's own.
\<close>

definition healthz_page :: page where
  "healthz_page = (200, json_print (JObj [(''status'', JStr ''ok'')]))"

definition api_serve ::
    "string \<Rightarrow> (string \<Rightarrow> go_error + string) \<Rightarrow> bool \<Rightarrow> int64 \<Rightarrow> http_request \<Rightarrow> pending_map \<Rightarrow>
     page \<times> lifecycle list \<times> pending_map" where
  "api_serve uuid presign pub_ok now r pending =
     (case ServeMux api_routes (hr_method r) (hr_path r) of
        Moved \<Rightarrow> ((301, []), [], pending)
      | NotFound \<Rightarrow> ((404, ''404 page not found'' @ [CHR 0x0A]), [], pending)
      | NotAllowed \<Rightarrow> ((405, ''Method Not Allowed'' @ [CHR 0x0A]), [], pending)
      | Routed ApiHealthz \<Rightarrow> (healthz_page, [], pending)
      | Routed ApiSubmit \<Rightarrow>
          (case handleSubmitInit (read_request (hr_body r)) uuid presign (sint now div 1000000000) pending of
             (reply, pending') \<Rightarrow> (reply_page reply, [], pending'))
      | Routed (ApiConfirm sid) \<Rightarrow>
          (case handleConfirm sid pub_ok now pending of
             (reply, events, pending') \<Rightarrow> (reply_page reply, events, pending')))"

text \<open>What a client sends, and what it reads from the reply to an announcement.\<close>

definition announce :: "string \<Rightarrow> string \<Rightarrow> http_request" where
  "announce language team = \<lparr>hr_method = ''POST'', hr_path = ''/submissions'',
     hr_body = json_print (JObj [(''language'', JStr language), (''team_name'', JStr team)])\<rparr>"

definition confirm_request :: "string \<Rightarrow> string \<Rightarrow> http_request" where
  "confirm_request sid body = \<lparr>hr_method = ''POST'', hr_path = ''/submissions/'' @ sid @ ''/confirm'', hr_body = body\<rparr>"

definition response_fields :: "SubmitInitResponse field list" where
  "response_fields =
     [(''submission_id'', str_field (\<lambda>s. rs_SubmissionID_update (\<lambda>_. s))),
      (''presigned_url'', str_field (\<lambda>s. rs_PresignedURL_update (\<lambda>_. s))),
      (''artifact_key'', str_field (\<lambda>s. rs_ArtifactKey_update (\<lambda>_. s))),
      (''expires_at'', int_field (\<lambda>n. rs_ExpiresAt_update (\<lambda>_. n)))]"

definition no_response :: SubmitInitResponse where
  "no_response = \<lparr>rs_SubmissionID = [], rs_PresignedURL = [], rs_ArtifactKey = [], rs_ExpiresAt = 0\<rparr>"

section \<open>Paths\<close>

text \<open>A segment that stands for itself.\<close>

definition own_segment :: "string \<Rightarrow> bool" where
  "own_segment s \<longleftrightarrow> s \<noteq> [] \<and> CHR ''/'' \<notin> set s \<and> CHR 0x25 \<notin> set s \<and> s \<noteq> ''.'' \<and> s \<noteq> ''..''"

lemma unescape_plain: "CHR 0x25 \<notin> set s \<Longrightarrow> unescape s = s"
  by (induction s rule: unescape.induct) auto

lemma confirm_parts:
  "own_segment sid \<Longrightarrow> path_parts (''/submissions/'' @ sid @ ''/confirm'') = [''submissions'', sid, ''confirm'']"
proof -
  assume s: "own_segment sid"
  have "Split (CHR ''/'') (''submissions'' @ CHR ''/'' # sid @ CHR ''/'' # ''confirm'') = [''submissions'', sid, ''confirm'']"
    using s Split_append [of "CHR ''/''" "''submissions''" "sid @ CHR ''/'' # ''confirm''"]
      Split_append [of "CHR ''/''" sid "''confirm''"] Split_no_sep [of "CHR ''/''" "''confirm''"]
    by (simp add: own_segment_def)
  then show ?thesis by (simp add: path_parts_def)
qed

lemma confirm_path:
  "own_segment sid \<Longrightarrow> clean_path (''/submissions/'' @ sid @ ''/confirm'') \<and>
     path_segments (''/submissions/'' @ sid @ ''/confirm'') = [''submissions'', sid, ''confirm'']"
  using confirm_parts [of sid]
  by (simp add: clean_path_def path_segments_def unescape_plain own_segment_def)

lemma route_confirm:
  "own_segment sid \<Longrightarrow> ServeMux api_routes ''POST'' (hr_path (confirm_request sid body)) = Routed (ApiConfirm sid)"
  using confirm_path [of sid] by (simp add: api_served confirm_request_def own_segment_def)

lemma announce_parts: "path_parts ''/submissions'' = [''submissions'']"
  by (simp add: path_parts_def Split_no_sep)

lemma route_announce: "ServeMux api_routes ''POST'' (hr_path (announce l t)) = Routed ApiSubmit"
proof -
  have "clean_path ''/submissions''" by (simp add: clean_path_def announce_parts)
  moreover have "path_segments ''/submissions'' = [''submissions'']" by (simp add: path_segments_def announce_parts)
  ultimately show ?thesis by (simp add: api_served announce_def)
qed

lemma uuid_segment: "uuid_text s \<Longrightarrow> own_segment s"
proof -
  assume s: "uuid_text s"
  have "\<not> uuid_char (CHR ''/'')" "\<not> uuid_char (CHR 0x25)" "\<not> uuid_char (CHR ''.'')" by code_simp+
  then show ?thesis using s by (auto simp: uuid_text_def own_segment_def list_all_iff)
qed

section \<open>A client's way through the service\<close>

definition reply_tags :: "string list" where
  "reply_tags = [''presigned_url'', ''artifact_key'', ''expires_at'', ''error'']"

lemma reply_tags_tag: "list_all (list_all tag_char) reply_tags"
  by code_simp

lemma reply_tags_ok: "list_all (\<lambda>t. fold_name t = t \<and> sanitize t = t) reply_tags"
  using reply_tags_tag by (auto simp: list_all_iff intro!: fold_tag sanitize_tag)

lemmas reply_tags_simps = reply_tags_ok [unfolded reply_tags_def, simplified list.pred_inject]

lemma field_of_init: "fold_name key = key \<Longrightarrow> field_of init_fields key = map_of init_fields key"
  by (rule field_of_tag) (simp_all add: init_fields_def fold_event_tags)

lemma field_of_response: "fold_name key = key \<Longrightarrow> field_of response_fields key = map_of response_fields key"
  by (rule field_of_tag) (simp_all add: response_fields_def fold_event_tags reply_tags_simps)

lemma init_lookup:
  "field_of init_fields ''language'' = Some (str_field (\<lambda>s. rq_Language_update (\<lambda>_. s)))"
  "field_of init_fields ''team_name'' = Some (str_field (\<lambda>s. rq_TeamName_update (\<lambda>_. s)))"
  by (simp_all add: field_of_init fold_event_tags) (simp_all add: init_fields_def)

lemma response_lookup:
  "field_of response_fields ''submission_id'' = Some (str_field (\<lambda>s. rs_SubmissionID_update (\<lambda>_. s)))"
  "field_of response_fields ''presigned_url'' = Some (str_field (\<lambda>s. rs_PresignedURL_update (\<lambda>_. s)))"
  "field_of response_fields ''artifact_key'' = Some (str_field (\<lambda>s. rs_ArtifactKey_update (\<lambda>_. s)))"
  "field_of response_fields ''expires_at'' = Some (int_field (\<lambda>n. rs_ExpiresAt_update (\<lambda>_. n)))"
  by (simp_all add: field_of_response fold_event_tags reply_tags_simps) (simp_all add: response_fields_def)

lemma read_announced:
  "read_request (hr_body (announce l t)) = Some \<lparr>rq_Language = sanitize l, rq_TeamName = sanitize t\<rparr>"
proof -
  have "json_decode (hr_body (announce l t)) = Some (JObj [(''language'', JStr (sanitize l)), (''team_name'', JStr (sanitize t))])"
    by (rule decode_parse)
      (simp add: announce_def parse_flat sanitize_event_tags del: json_print.simps)
  then show ?thesis by (simp add: read_request_def read_struct_def init_lookup no_request_def)
qed

lemma read_response:
  "int_ok (rs_ExpiresAt r) \<Longrightarrow> unmarshal response_fields no_response (json_encode (response_json r)) =
     Some (r\<lparr>rs_SubmissionID := sanitize (rs_SubmissionID r), rs_PresignedURL := sanitize (rs_PresignedURL r),
       rs_ArtifactKey := sanitize (rs_ArtifactKey r)\<rparr>)"
  unfolding response_json_def
  by (subst unmarshal_encoded)
    (simp_all add: sanitize_event_tags reply_tags_simps response_lookup no_response_def)

lemma ascii_uuid: "uuid_text s \<Longrightarrow> sanitize s = s \<and> sanitize (artifact_key s) = artifact_key s"
proof -
  assume s: "uuid_text s"
  have "list_all (\<lambda>c. byte c < 128) ''abcdef-''" by code_simp
  then have "uuid_char c \<Longrightarrow> byte c < 128" for c by (auto simp: uuid_char_def is_digit_def list_all_iff)
  then have u: "list_all (\<lambda>c. byte c < 128) s" using s by (simp add: uuid_text_def list_all_iff)
  have "list_all (\<lambda>c. byte c < 128) ''submissions/''" "list_all (\<lambda>c. byte c < 128) ''.tar.gz''" by code_simp+
  then have "list_all (\<lambda>c. byte c < 128) (artifact_key s)" using u unfolding artifact_key_def list_all_append by simp
  then show ?thesis using u by (simp add: sanitize_ascii)
qed

lemma ascii_submit:
  assumes "submit_ok \<lparr>ps_Language = l, ps_TeamName = t\<rparr>"
  shows "sanitize l = l \<and> sanitize t = t"
proof -
  have "list_all (list_all tag_char) [''cpp'', ''rust'', ''go'']" by code_simp
  then have "list_all (\<lambda>x. sanitize x = x) [''cpp'', ''rust'', ''go'']" by (auto simp: list_all_iff intro: sanitize_tag)
  then have "sanitize l = l" using assms by (auto simp: submit_ok_def allowedLanguages_def list_all_iff)
  moreover have "list_all (\<lambda>c. byte c < 128) ''_-''" by code_simp
  then have "team_char c \<Longrightarrow> byte c < 128" for c by (auto simp: team_char_def is_alnum_def is_digit_def list_all_iff)
  then have "list_all (\<lambda>c. byte c < 128) t" using assms by (auto simp: submit_ok_def teamNameRe_def list_all_iff)
  ultimately show ?thesis by (simp add: sanitize_ascii)
qed

lemma expires_ok: "int_ok (sint (now :: int64) div 1000000000 + 900)"
  using sint64_bounds [of now] by (simp add: int_ok_def) linarith

text \<open>
  C12. A submission over HTTP, from the texts of its two requests to the text on the topic. A valid
  announcement is routed to the handler and answered with a 202 and a JSON body from which a client reads the
  id, the address to upload to, the key and the expiry 900 seconds ahead; the confirmation of that id is then
  routed to its handler, publishes one message, whose text the build service decodes into the submission
  as it was announced, and leaves the table of pending submissions as it was before, without the id.
\<close>

theorem http_flow:
  assumes ok: "submit_ok \<lparr>ps_Language = l, ps_TeamName = t\<rparr>" and url: "presign (artifact_key uuid) = Inr url" and "uuid_text uuid"
  shows "\<exists>text pending'.
    api_serve uuid presign pub_ok now (announce l t) pending = ((202, text), [], pending') \<and>
    unmarshal response_fields no_response text = Some \<lparr>rs_SubmissionID = uuid, rs_PresignedURL = sanitize url,
      rs_ArtifactKey = artifact_key uuid, rs_ExpiresAt = sint now div 1000000000 + 900\<rparr> \<and>
    (\<exists>page m event_json. api_serve uuid' presign' True later (confirm_request uuid body) pending' = ((202, page), [m], pending(uuid := None)) \<and>
      event_text m = Some event_json \<and>
      unmarshal created_fields no_created event_json = Some \<lparr>sc_Event = ''submission.created'', sc_SubmissionID = uuid,
        sc_Language = l, sc_TeamName = t, sc_ArtifactPath = artifact_key uuid, sc_CreatedAt = later\<rparr>)"
proof -
  let ?r = "\<lparr>rs_SubmissionID = uuid, rs_PresignedURL = url, rs_ArtifactKey = artifact_key uuid, rs_ExpiresAt = sint now div 1000000000 + 900\<rparr>"
  let ?e = "\<lparr>sc_Event = ''submission.created'', sc_SubmissionID = uuid, sc_Language = l, sc_TeamName = t,
    sc_ArtifactPath = artifact_key uuid, sc_CreatedAt = later\<rparr>"
  let ?p = "pending(uuid \<mapsto> \<lparr>ps_Language = l, ps_TeamName = t\<rparr>)"
  note ascii = ascii_submit [OF ok] ascii_uuid [OF assms(3)]
  have init: "handleSubmitInit (Some \<lparr>rq_Language = l, rq_TeamName = t\<rparr>) uuid presign tm pending = (InitAccepted (?r\<lparr>rs_ExpiresAt := tm + 900\<rparr>), ?p)" for tm
    using ok url by (auto simp: handleSubmitInit_def submit_ok_def teamNameRe_def)
  have post: "hr_method (announce l t) = ''POST''" "hr_method (confirm_request uuid body) = ''POST''"
    by (simp_all add: announce_def confirm_request_def)
  have a: "api_serve uuid presign pub_ok now (announce l t) pending = ((202, json_encode (response_json ?r)), [], ?p)"
    using route_announce [of l t] ascii init
    by (simp add: api_serve_def post read_announced writeJSON_def)
  have "uuid \<noteq> []" using assms(3) by (auto simp: uuid_text_def)
  then have c: "handleConfirm uuid True later ?p = (ConfirmAccepted uuid, [SubmissionCreated ?e], pending(uuid := None))"
    by (simp add: handleConfirm_def PublishSubmissionCreated_def confirm_event_def)
  obtain page where b: "api_serve uuid' presign' True later (confirm_request uuid body) ?p = ((202, page), [SubmissionCreated ?e], pending(uuid := None))"
    using route_confirm [OF uuid_segment [OF assms(3)], of body] c
    by (simp add: api_serve_def post writeJSON_def)
  obtain ms where ms: "event_members (SubmissionCreated ?e) = Some ms" by simp
  then have w: "event_text (SubmissionCreated ?e) = Some (json_print (JObj ms))" by (simp add: event_text_def)
  have "sanitize ''submission.created'' = ''submission.created''"
    by (rule sanitize_ascii) code_simp
  then have "unmarshal created_fields no_created (json_print (JObj ms)) = Some ?e"
    using read_created [OF ms] ascii unfolding unmarshal_event [OF w ms] by simp
  then show ?thesis using a b w read_response [of ?r] ascii expires_ok [of now] by auto
qed

theorem http_flow_witness:
  "\<exists>text pending'. api_serve demo_uuid demo_presign True 0 (announce ''go'' ''team_1'') Map.empty = ((202, text), [], pending') \<and>
    unmarshal response_fields no_response text \<noteq> None"
proof -
  have "submit_ok \<lparr>ps_Language = ''go'', ps_TeamName = ''team_1''\<rparr>"
    using demo_team by (simp add: submit_ok_def allowedLanguages_def maxTeamNameLen_def)
  moreover have "demo_presign (artifact_key demo_uuid) = Inr (''http://s3/'' @ artifact_key demo_uuid)" by (simp add: demo_presign_def)
  ultimately show ?thesis using http_flow [OF _ _ demo_uuid_text, of "''go''" "''team_1''" demo_presign _ True 0 Map.empty] by fastforce
qed

end
