(* ===== verification/Publishing.thy ===== *)
theory Publishing
  imports Wire_Lifecycle Submission_Api Build_Service Sandbox_Orchestrator Bot_Orchestrator
begin

text \<open>
  The records the four services put on the topic: \<open>publish\<close> of the build service and the sandbox
  orchestrator, and the publishing functions of all of them. The record's value is the text of the event,
  its key the submission id, so that the events of a submission stay in one partition, in order.
\<close>

record Record =
  kr_Topic :: string
  kr_Key :: string
  kr_Value :: string

text \<open>\<open>payload\<close> is what \<open>json.Marshal\<close> gives, \<open>produced\<close> the error of \<open>ProduceSync\<close>, if it fails.\<close>

definition publish :: "string \<Rightarrow> string \<Rightarrow> (go_error + string) \<Rightarrow> go_error option \<Rightarrow> go_error + Record" where
  "publish topic key payload produced =
     (case payload of Inl e \<Rightarrow> Inl (wrap ''marshal event'' e)
      | Inr v \<Rightarrow> (case produced of Some e \<Rightarrow> Inl (wrap ''produce'' e)
                  | None \<Rightarrow> Inr \<lparr>kr_Topic = topic, kr_Key = key, kr_Value = v\<rparr>))"

text \<open>The events are structs of strings, integers and truth values, which can always be encoded.\<close>

definition json_Marshal_event :: "lifecycle \<Rightarrow> go_error + string" where
  "json_Marshal_event m = (case event_text m of Some t \<Rightarrow> Inr t | None \<Rightarrow> Inl (errorf ''unsupported value''))"

definition api_publish :: "string \<Rightarrow> int64 \<Rightarrow> SubmissionCreatedEvent \<Rightarrow> go_error option \<Rightarrow> go_error + Record" where
  "api_publish topic now e = publish topic (sc_SubmissionID e) (json_Marshal_event (PublishSubmissionCreated now e))"

definition build_publish_complete ::
    "string \<Rightarrow> int64 \<Rightarrow> string \<Rightarrow> string \<Rightarrow> string \<Rightarrow> string \<Rightarrow> go_error option \<Rightarrow> go_error + Record" where
  "build_publish_complete topic now submissionID binaryPath language teamName =
     publish topic submissionID (json_Marshal_event (PublishBuildComplete now submissionID binaryPath language teamName))"

definition build_publish_failed :: "string \<Rightarrow> int64 \<Rightarrow> string \<Rightarrow> string \<Rightarrow> go_error option \<Rightarrow> go_error + Record" where
  "build_publish_failed topic now submissionID reason =
     publish topic submissionID (json_Marshal_event (PublishBuildFailed now submissionID reason))"

definition sandbox_publish_ready ::
    "string \<Rightarrow> int64 \<Rightarrow> string \<Rightarrow> string \<Rightarrow> string \<Rightarrow> string \<Rightarrow> go_error option \<Rightarrow> go_error + Record" where
  "sandbox_publish_ready topic now submissionID podName podIP teamName =
     publish topic submissionID (json_Marshal_event (PublishSandboxReady now submissionID podName podIP teamName))"

definition sandbox_publish_failed :: "string \<Rightarrow> int64 \<Rightarrow> string \<Rightarrow> string \<Rightarrow> go_error option \<Rightarrow> go_error + Record" where
  "sandbox_publish_failed topic now submissionID reason =
     publish topic submissionID (json_Marshal_event (PublishSandboxFailed now submissionID reason))"

definition orch_publish :: "string \<Rightarrow> int64 \<Rightarrow> TestCompleteEvent \<Rightarrow> go_error option \<Rightarrow> go_error + Record" where
  "orch_publish topic now e = publish topic (tc_SubmissionID e) (json_Marshal_event (PublishTestComplete now e))"

section \<open>What is on the topic\<close>

text \<open>All records a service can put on the topic.\<close>

inductive published_record :: "string \<Rightarrow> Record \<Rightarrow> bool" for topic where
  pub_created: "api_publish topic now e None = Inr r \<Longrightarrow> published_record topic r"
| pub_complete: "build_publish_complete topic now sid path lang team None = Inr r \<Longrightarrow> published_record topic r"
| pub_build_failed: "build_publish_failed topic now sid reason None = Inr r \<Longrightarrow> published_record topic r"
| pub_ready: "sandbox_publish_ready topic now sid pod ip team None = Inr r \<Longrightarrow> published_record topic r"
| pub_sandbox_failed: "sandbox_publish_failed topic now sid reason None = Inr r \<Longrightarrow> published_record topic r"
| pub_test: "orch_publish topic now te None = Inr r \<Longrightarrow> published_record topic r"

lemma json_Marshal_event_total: "m \<noteq> Garbage \<Longrightarrow> \<exists>t. event_text m = Some t \<and> json_Marshal_event m = Inr t"
  by (cases m) (simp_all add: json_Marshal_event_def event_text_def del: json_print.simps)

lemma publish_ok:
  "publish topic key (json_Marshal_event m) None = Inr r \<Longrightarrow> kr_Topic r = topic \<and> kr_Key r = key \<and> event_text m = Some (kr_Value r)"
  by (auto simp: publish_def json_Marshal_event_def split: option.splits sum.splits)

text \<open>The submission an event is about.\<close>

fun event_submission :: "lifecycle \<Rightarrow> string" where
  "event_submission (SubmissionCreated e) = sc_SubmissionID e"
| "event_submission (BuildComplete e) = bc_SubmissionID e"
| "event_submission (Failed e) = fe_SubmissionID e"
| "event_submission (SandboxReady e) = sr_SubmissionID e"
| "event_submission (TestComplete e) = tc_SubmissionID e"
| "event_submission Garbage = []"

lemma published_event:
  assumes "published_record topic r"
  shows "\<exists>m. kr_Topic r = topic \<and> kr_Key r = event_submission m \<and> event_text m = Some (kr_Value r) \<and> ports_ok m"
  using assms
proof cases
  case (pub_created now e)
  then show ?thesis unfolding api_publish_def by (intro exI [of _ "PublishSubmissionCreated now e"])
    (auto dest!: publish_ok simp: PublishSubmissionCreated_def)
next
  case (pub_complete now sid path lang team)
  then show ?thesis unfolding build_publish_complete_def by (intro exI [of _ "PublishBuildComplete now sid path lang team"])
    (auto dest!: publish_ok simp: PublishBuildComplete_def)
next
  case (pub_build_failed now sid reason)
  then show ?thesis unfolding build_publish_failed_def by (intro exI [of _ "PublishBuildFailed now sid reason"])
    (auto dest!: publish_ok simp: PublishBuildFailed_def)
next
  case (pub_ready now sid pod ip team)
  then show ?thesis unfolding sandbox_publish_ready_def by (intro exI [of _ "PublishSandboxReady now sid pod ip team"])
    (auto dest!: publish_ok simp: PublishSandboxReady_def httpPort_def int_ok_def)
next
  case (pub_sandbox_failed now sid reason)
  then show ?thesis unfolding sandbox_publish_failed_def by (intro exI [of _ "PublishSandboxFailed now sid reason"])
    (auto dest!: publish_ok simp: PublishSandboxFailed_def)
next
  case (pub_test now te)
  then show ?thesis unfolding orch_publish_def by (intro exI [of _ "PublishTestComplete now te"])
    (auto dest!: publish_ok simp: PublishTestComplete_def)
qed



section \<open>Reasons cut inside a character\<close>

lemma sanitize_ascii_append: "list_all (\<lambda>c. byte c < 128) r \<Longrightarrow> sanitize (r @ s) = r @ sanitize s"
  by (induction r) (simp_all add: ascii_head sanitize.simps)

lemma ValidString_ascii_append: "list_all (\<lambda>c. byte c < 128) r \<Longrightarrow> ValidString (r @ s) = ValidString s"
  by (induction r) (simp_all add: ascii_head)

definition e_acute :: string where
  "e_acute = map char_of [0xC3, 0xA9 :: nat]"

lemma e_acute_valid: "ValidString e_acute" "\<not> ValidString (take 1 e_acute)" "sanitize (take 1 e_acute) = replacement" "length e_acute = 2"
  by code_simp+

text \<open>
  The sandbox orchestrator cuts a valid reason inside its last character; on the topic the broken byte is
  the replacement character. The build service drops the broken character.
\<close>

lemma sandbox_reason_broken:
  assumes r: "list_all (\<lambda>c. byte c < 128) r" "length r = 4095"
  shows "ValidString (r @ e_acute) \<and>
    event_members (repaired (PublishSandboxFailed now sid (r @ e_acute))) =
      Some [(''event'', JStr (sanitize ''sandbox.failed'')), (''submission_id'', JStr (sanitize sid)),
        (''reason'', JStr (r @ replacement)), (''failed_at'', num (sint now))] \<and>
    truncate_text (r @ e_acute) 4096 = r"
proof -
  have t: "sandbox_truncate (r @ e_acute) 4096 = r @ take 1 e_acute" using r(2) e_acute_valid(4) by (simp add: sandbox_truncate_def)
  have one: "length (take 1 e_acute) = 1" using e_acute_valid(4) by simp
  then obtain c where c: "take 1 e_acute = [c]" by (metis One_nat_def length_0_conv length_Suc_conv)
  have v: "ValidString r" using ValidString_ascii_append [OF r(1), of "[]"] by simp
  have "\<not> ValidString (r @ [c])" using ValidString_ascii_append [OF r(1), of "[c]"] e_acute_valid(2) c by simp
  then have "trim_invalid (r @ [c]) = r" using v by (subst trim_invalid.simps, simp) (subst trim_invalid.simps, simp)
  moreover have "take 4096 (r @ e_acute) = r @ [c]" using r(2) c by simp
  ultimately have "truncate_text (r @ e_acute) 4096 = r" using r(2) e_acute_valid(4) by (simp add: truncate_text_def)
  then show ?thesis
    using ValidString_ascii_append [OF r(1)] e_acute_valid sanitize_ascii_append [OF r(1)] t
    by (simp add: PublishSandboxFailed_def)
qed

end
