(* ===== verification/Text_Services.thy ===== *)
theory Text_Services
  imports Publishing Build_Props Sandbox_Props
begin

text \<open>
  The consumers of the topic on texts: each reads the record's value with the struct of its own source and
  does what the models do with the message itself. The interface is a message format: how messages are
  written and what a reader sees of them.
\<close>

section \<open>Message formats\<close>

locale message_format =
  fixes written :: "'m \<Rightarrow> string option" and good :: "'m \<Rightarrow> bool" and reader :: "string \<Rightarrow> 'e option"
    and seen :: "'m \<Rightarrow> 'e option"
  assumes reads: "written m = Some t \<Longrightarrow> good m \<Longrightarrow> reader t = seen m"
begin

lemma handled_alike: "written m = Some t \<Longrightarrow> good m \<Longrightarrow> h (reader t) = h (seen m)"
  by (simp add: reads)

lemma read_all: "map written ms = map Some ts \<Longrightarrow> list_all good ms \<Longrightarrow> map reader ts = map seen ms"
  by (induction ms arbitrary: ts) (auto simp: reads Cons_eq_map_conv)

end

lemma message_read:
  assumes "event_text m = Some t" "ports_ok m"
  shows "unmarshal created_fields no_created t = decode_created (repaired m)"
    and "unmarshal complete_fields no_complete t = decode_complete (repaired m)"
    and "unmarshal ready_fields no_ready t = decode_ready (repaired m)"
    and "unmarshal base_fields [] t = event_name (repaired m)"
proof -
  obtain ms where ms: "event_members m = Some ms" using assms(1) by (auto simp: event_text_def)
  note read = unmarshal_event [OF assms(1) ms]
  show "unmarshal created_fields no_created t = decode_created (repaired m)"
    "unmarshal complete_fields no_complete t = decode_complete (repaired m)"
    "unmarshal ready_fields no_ready t = decode_ready (repaired m)"
    "unmarshal base_fields [] t = event_name (repaired m)"
    using read_created [OF ms] read_complete [OF ms] read_ready [OF ms assms(2)] read_base [OF ms] by (simp_all add: read)
qed

interpretation created_format: message_format event_text ports_ok "unmarshal created_fields no_created" "decode_created \<circ> repaired"
  by unfold_locales (simp add: message_read)

interpretation complete_format: message_format event_text ports_ok "unmarshal complete_fields no_complete" "decode_complete \<circ> repaired"
  by unfold_locales (simp add: message_read)

interpretation ready_format: message_format event_text ports_ok "unmarshal ready_fields no_ready" "decode_ready \<circ> repaired"
  by unfold_locales (simp add: message_read)

interpretation base_format: message_format event_text ports_ok "unmarshal base_fields []" "event_name \<circ> repaired"
  by unfold_locales (simp add: message_read)

section \<open>The consumer loop\<close>

definition fetch_map :: "('a \<Rightarrow> 'b) \<Rightarrow> 'a fetch \<Rightarrow> 'b fetch" where
  "fetch_map g f = \<lparr>f_ctx_done = f_ctx_done f, f_errors = f_errors f, f_wait_done = f_wait_done f,
     f_records = map (\<lambda>(r, c). (g r, c)) (f_records f)\<rparr>"

lemma run_records_map:
  "run_records h (map (\<lambda>(r, c). (g r, c)) rs) s = (case run_records (h \<circ> g) rs s of (e, cs, s') \<Rightarrow> (e, map g cs, s'))"
  by (induction rs arbitrary: s) (auto split: prod.splits)

lemma consumer_loop_map:
  "consumer_loop h (map (fetch_map g) fs) s = (case consumer_loop (h \<circ> g) fs s of (e, cs, s') \<Rightarrow> (e, map g cs, s'))"
  by (induction fs arbitrary: s) (auto simp: fetch_map_def run_records_map split: prod.splits option.splits)

lemma run_records_cong:
  "(\<And>r s. r \<in> fst ` set rs \<Longrightarrow> h r s = h' r s) \<Longrightarrow> run_records h rs s = run_records h' rs s"
  by (induction rs arbitrary: s) (auto split: prod.splits)

lemma consumer_loop_cong:
  "(\<And>r s. r \<in> set (offered fs) \<Longrightarrow> h r s = h' r s) \<Longrightarrow> consumer_loop h fs s = consumer_loop h' fs s"
proof (induction fs arbitrary: s)
  case (Cons f fs)
  have r: "\<not> f_errors f \<Longrightarrow> run_records h (f_records f) s = run_records h' (f_records f) s"
    by (rule run_records_cong) (auto simp: Cons.prems offered_def)
  have l: "consumer_loop h fs t = consumer_loop h' fs t" for t
    by (rule Cons.IH) (rule Cons.prems, auto simp: offered_def)
  show ?case using r l by (auto split: prod.splits option.splits)
qed simp

section \<open>The services\<close>

record 'w text_delivery =
  td_value :: string
  td_world :: 'w
  td_pub_ok :: bool
  td_now :: int64

text \<open>What a handler gets of a value: the event it decodes, or nothing.\<close>

definition build_handle_text :: "int \<Rightarrow> BuildWorld text_delivery \<Rightarrow> bool \<times> lifecycle list \<times> k8s_call list" where
  "build_handle_text maxLogBytes d =
     build_handleRecord (td_world d) maxLogBytes (td_pub_ok d) (td_now d)
       (case unmarshal created_fields no_created (td_value d) of None \<Rightarrow> Garbage | Some e \<Rightarrow> SubmissionCreated e)"

definition sandbox_handle_text ::
    "SandboxConfig \<Rightarrow> string \<Rightarrow> SandboxWorld text_delivery \<Rightarrow> bool \<times> lifecycle list \<times> k8s_call list" where
  "sandbox_handle_text cfg endpoint d =
     sandbox_handleRecord (td_world d) cfg endpoint (td_pub_ok d) (td_now d)
       (case unmarshal complete_fields no_complete (td_value d) of None \<Rightarrow> Garbage | Some e \<Rightarrow> BuildComplete e)"

definition consume_text :: "string \<Rightarrow> Server \<Rightarrow> Server" where
  "consume_text value s =
     (case unmarshal base_fields [] value of None \<Rightarrow> s
      | Some name \<Rightarrow>
          if name \<noteq> ''sandbox.ready'' then s
          else (case unmarshal ready_fields no_ready value of None \<Rightarrow> s | Some e \<Rightarrow> consume_ready (SandboxReady e) s))"

definition build_Run_text ::
    "int \<Rightarrow> BuildWorld text_delivery fetch list \<Rightarrow> lifecycle list \<times> k8s_call list \<Rightarrow>
     run_end option \<times> BuildWorld text_delivery list \<times> lifecycle list \<times> k8s_call list" where
  "build_Run_text maxLogBytes fetches s = consumer_loop
     (\<lambda>d (topic, calls). case build_handle_text maxLogBytes d of (ok, msgs, cs) \<Rightarrow> (ok, topic @ msgs, calls @ cs)) fetches s"

definition sandbox_Run_text ::
    "SandboxConfig \<Rightarrow> string \<Rightarrow> SandboxWorld text_delivery fetch list \<Rightarrow> lifecycle list \<times> k8s_call list \<Rightarrow>
     run_end option \<times> SandboxWorld text_delivery list \<times> lifecycle list \<times> k8s_call list" where
  "sandbox_Run_text cfg endpoint fetches s = consumer_loop
     (\<lambda>d (topic, calls). case sandbox_handle_text cfg endpoint d of (ok, msgs, cs) \<Rightarrow> (ok, topic @ msgs, calls @ cs)) fetches s"

lemma build_handle_same:
  assumes "event_text m = Some t" "ports_ok m"
  shows "build_handleRecord w L pub now (case unmarshal created_fields no_created t of None \<Rightarrow> Garbage | Some e \<Rightarrow> SubmissionCreated e)
    = build_handleRecord w L pub now (repaired m)"
  unfolding created_format.reads [OF assms] by (simp add: build_handleRecord_def split: option.split)

lemma sandbox_handle_same:
  assumes "event_text m = Some t" "ports_ok m"
  shows "sandbox_handleRecord w cfg ep pub now (case unmarshal complete_fields no_complete t of None \<Rightarrow> Garbage | Some e \<Rightarrow> BuildComplete e)
    = sandbox_handleRecord w cfg ep pub now (repaired m)"
  unfolding complete_format.reads [OF assms] by (simp add: sandbox_handleRecord_def split: option.split)

lemma consume_same:
  assumes "event_text m = Some t" "ports_ok m"
  shows "consume_text t s = consume_ready (repaired m) s"
  unfolding consume_text_def ready_format.reads [OF assms] base_format.reads [OF assms]
  using assms(1) by (cases m) (auto simp: consume_ready_def event_text_def split: option.split)

text \<open>A message of the topic as it was published: its text, and what it is after the wire.\<close>

definition on_topic :: "lifecycle \<Rightarrow> bool" where
  "on_topic m \<longleftrightarrow> event_text m \<noteq> None \<and> ports_ok m"

definition build_text :: "build_delivery \<Rightarrow> BuildWorld text_delivery" where
  "build_text d = \<lparr>td_value = the (event_text (bd_record d)), td_world = bd_world d, td_pub_ok = bd_pub_ok d, td_now = bd_now d\<rparr>"

definition sandbox_text :: "sandbox_delivery \<Rightarrow> SandboxWorld text_delivery" where
  "sandbox_text d = \<lparr>td_value = the (event_text (sd_record d)), td_world = sd_world d, td_pub_ok = sd_pub_ok d, td_now = sd_now d\<rparr>"

definition build_repaired :: "build_delivery \<Rightarrow> build_delivery" where
  "build_repaired d = d\<lparr>bd_record := repaired (bd_record d)\<rparr>"

definition sandbox_repaired :: "sandbox_delivery \<Rightarrow> sandbox_delivery" where
  "sandbox_repaired d = d\<lparr>sd_record := repaired (sd_record d)\<rparr>"

lemma build_run_same:
  assumes "\<forall>d \<in> set (offered fs). on_topic (bd_record d)"
  shows "(case build_Run_text L (map (fetch_map build_text) fs) s of (e, ds, topic, calls) \<Rightarrow> (e, length ds, topic, calls))
    = (case build_Run L (map (fetch_map build_repaired) fs) s of (e, ds, topic, calls) \<Rightarrow> (e, length ds, topic, calls))"
proof -
  let ?t = "\<lambda>d (topic, calls). case build_handle_text L d of (ok, msgs, cs) \<Rightarrow> (ok, topic @ msgs, calls @ cs)"
  let ?m = "\<lambda>d (topic, calls). case build_handleRecord (bd_world d) L (bd_pub_ok d) (bd_now d) (bd_record d) of
        (ok, msgs, cs) \<Rightarrow> (ok, topic @ msgs, calls @ cs)"
  have "consumer_loop (?t \<circ> build_text) fs s = consumer_loop (?m \<circ> build_repaired) fs s"
  proof (rule consumer_loop_cong)
    fix d and s :: "lifecycle list \<times> k8s_call list"
    assume "d \<in> set (offered fs)"
    then have m: "event_text (bd_record d) = Some (the (event_text (bd_record d)))" "ports_ok (bd_record d)"
      using assms by (auto simp: on_topic_def)
    show "(?t \<circ> build_text) d s = (?m \<circ> build_repaired) d s"
      by (simp add: build_handle_text_def build_text_def build_repaired_def build_handle_same [OF m])
  qed
  then show ?thesis unfolding build_Run_text_def build_Run_def consumer_loop_map by (simp split: prod.splits)
qed

lemma sandbox_run_same:
  assumes "\<forall>d \<in> set (offered fs). on_topic (sd_record d)"
  shows "(case sandbox_Run_text cfg ep (map (fetch_map sandbox_text) fs) s of (e, ds, topic, calls) \<Rightarrow> (e, length ds, topic, calls))
    = (case sandbox_Run cfg ep (map (fetch_map sandbox_repaired) fs) s of (e, ds, topic, calls) \<Rightarrow> (e, length ds, topic, calls))"
proof -
  let ?t = "\<lambda>d (topic, calls). case sandbox_handle_text cfg ep d of (ok, msgs, cs) \<Rightarrow> (ok, topic @ msgs, calls @ cs)"
  let ?m = "\<lambda>d (topic, calls). case sandbox_handleRecord (sd_world d) cfg ep (sd_pub_ok d) (sd_now d) (sd_record d) of
        (ok, msgs, cs) \<Rightarrow> (ok, topic @ msgs, calls @ cs)"
  have "consumer_loop (?t \<circ> sandbox_text) fs s = consumer_loop (?m \<circ> sandbox_repaired) fs s"
  proof (rule consumer_loop_cong)
    fix d and s :: "lifecycle list \<times> k8s_call list"
    assume "d \<in> set (offered fs)"
    then have m: "event_text (sd_record d) = Some (the (event_text (sd_record d)))" "ports_ok (sd_record d)"
      using assms by (auto simp: on_topic_def)
    show "(?t \<circ> sandbox_text) d s = (?m \<circ> sandbox_repaired) d s"
      by (simp add: sandbox_handle_text_def sandbox_text_def sandbox_repaired_def sandbox_handle_same [OF m])
  qed
  then show ?thesis unfolding sandbox_Run_text_def sandbox_Run_def consumer_loop_map by (simp split: prod.splits)
qed


text \<open>Two fetches of one record each, both before the offset is committed.\<close>

definition demo_fetch :: "'r \<Rightarrow> 'r fetch" where
  "demo_fetch r = \<lparr>f_ctx_done = False, f_errors = False, f_wait_done = False, f_records = [(r, True)]\<rparr>"

definition demo_builds :: "build_delivery fetch list" where
  "demo_builds = [demo_fetch \<lparr>bd_record = SubmissionCreated demo_created, bd_world = demo_build_world PodSucceeded,
     bd_pub_ok = True, bd_now = 5\<rparr>]"

definition demo_deploys :: "sandbox_delivery fetch list" where
  "demo_deploys = [demo_fetch \<lparr>sd_record = BuildComplete demo_complete, sd_world = demo_sandbox_world,
     sd_pub_ok = True, sd_now = 5\<rparr>]"


end
