(* ===== verification/Wire_Orders.thy ===== *)
theory Wire_Orders
  imports Wire_Lifecycle Load_Bot Correctness_Bot
begin

text \<open>
  The texts of the orders: what the bots print for an order or a cancellation is, read by the engine's
  \<open>wsjson.Read\<close>, the message the models pass on, its price rounded to six decimals.
\<close>

section \<open>The price\<close>

lemma rhe_minus: "rhe (- x) = - rhe x"
proof (cases "x \<in> \<int>")
  case True
  then obtain k where "x = of_int k" by (auto elim: Ints_cases)
  then show ?thesis using rhe_of_int [of "- k"] by simp
next
  case False
  then have "\<lfloor>- x\<rfloor> = - \<lfloor>x\<rfloor> - 1"
    by (simp add: floor_minus ceiling_altdef) (metis Ints_of_int)
  then show ?thesis by (auto simp: rhe_def Let_def)
qed

definition millionths :: "rat \<Rightarrow> nat" where
  "millionths p = nat (rhe (\<bar>p\<bar> * 1000000))"

lemma rhe_nonneg: "0 \<le> x \<Longrightarrow> 0 \<le> rhe x"
  using rhe_mono [of 0 x] rhe_of_int [of 0] by simp

lemma fmt_f_parts:
  "fmt_f p = decimal_text (p < 0) (dec_nat (millionths p div 1000000)) (pad6 (dec_nat (millionths p mod 1000000))) None"
proof -
  have n: "rhe (\<bar>p\<bar> * 1000000) = int (millionths p)"
    using rhe_nonneg [of "\<bar>p\<bar> * 1000000"] by (simp add: millionths_def)
  have "dec (int m) = dec_nat m" for m by (simp add: dec_def)
  moreover have "int m div 1000000 = int (m div 1000000)" "int m mod 1000000 = int (m mod 1000000)" for m
    by (simp_all add: zdiv_int zmod_int)
  moreover have "pad6 (dec_nat m) \<noteq> []" for m using dec_nat_not_empty by (simp add: pad6_def)
  ultimately show ?thesis
    unfolding fmt_f_def n Let_def with_sign_def decimal_text_def exponent_text_def by (simp del: of_nat_numeral)
qed

lemma pad6_digits: "list_all is_digit (pad6 (dec_nat n))" "pad6 (dec_nat n) \<noteq> []"
  using dec_nat_digits dec_nat_not_empty by (auto simp: pad6_def list_all_iff is_digit_def byte_def)

lemma pad6_length: "n < 1000000 \<Longrightarrow> length (pad6 (dec_nat n)) = 6"
  using dec_nat_length [of n 6] by (simp add: pad6_def)

lemma fmt_f_value:
  "digits_val (dec_nat (m div 1000000) @ pad6 (dec_nat (m mod 1000000))) = m"
  using pad6_length [of "m mod 1000000"] by (simp add: digits_val_append pad6_def)

lemma dec_nat_all: "list_all is_digit (dec_nat n)"
  using dec_nat_digits by (simp add: list_all_iff)

lemma fmt_f_ok: "decimal_ok (dec_nat m) (pad6 (dec_nat n)) None"
proof -
  have "hd (dec_nat m) = CHR ''0'' \<longrightarrow> tl (dec_nat m) = []"
  proof
    assume "hd (dec_nat m) = CHR ''0''"
    then have "m = 0" by (rule dec_nat_head)
    then show "tl (dec_nat m) = []" by (subst dec_nat.simps) simp
  qed
  then show ?thesis using dec_nat_not_empty dec_nat_all pad6_digits by (simp add: decimal_ok_def)
qed

lemma number_text_fmt_f: "number_text (fmt_f p)"
  unfolding fmt_f_parts by (rule number_text_decimal [OF fmt_f_ok])

lemma millionths_signed: "(if p < 0 then - 1 else 1) * (of_nat (millionths p) / 1000000) = (of_int (rhe (p * 1000000)) / 1000000 :: rat)"
proof (cases "p < 0")
  case True
  have "rhe (- p * 1000000) = - rhe (p * 1000000)" using rhe_minus [of "p * 1000000"] by simp
  moreover have "0 \<le> rhe (- p * 1000000)" using True by (intro rhe_nonneg) simp
  ultimately show ?thesis using True by (simp add: millionths_def)
next
  case False
  then have "0 \<le> rhe (p * 1000000)" by (intro rhe_nonneg) simp
  then show ?thesis using False by (simp add: millionths_def)
qed

text \<open>The prices whose text parses to a finite value; no script comes near the bound.\<close>

definition price_fits :: "rat \<Rightarrow> bool" where
  "price_fits p \<longleftrightarrow> \<bar>p\<bar> \<le> 2 ^ 1000"

lemma wire_price_finite: "price_fits p \<Longrightarrow> f64 (of_int (rhe (p * 1000000)) / 1000000) = Fin (wire_price p)"
proof -
  assume p: "price_fits p"
  have "\<bar>of_int (rhe (p * 1000000)) / 1000000\<bar> \<le> \<bar>p\<bar> + 1"
    using rhe_bounds [of "p * 1000000"] by (simp add: abs_le_iff divide_le_eq le_divide_eq) linarith
  also have "\<dots> \<le> 2 ^ 1000 + 2 ^ 1000" using p by (intro add_mono) (simp_all add: price_fits_def)
  also have "\<dots> = 2 ^ 1001" by simp
  finally show ?thesis unfolding wire_price_def by (rule f64_finite) simp
qed

lemma ten_6: "(10::rat) ^ 6 = 1000000"
  by simp

lemma ParseFloat_fmt_f: "price_fits p \<Longrightarrow> ParseFloat (fmt_f p) = Some (Fin (wire_price p))"
  unfolding fmt_f_parts
  by (rule ParseFloat_decimal [OF fmt_f_ok])
    (simp only: decimal_value_def exponent_value_def option.case mult_1_right fmt_f_value pad6_length [OF mod_less_divisor]
      zero_less_numeral ten_6 millionths_signed wire_price_finite)

section \<open>Texts without escapes\<close>

definition plain :: "char \<Rightarrow> bool" where
  "plain c \<longleftrightarrow> 32 \<le> byte c \<and> byte c < 127 \<and> byte c \<notin> {34, 38, 60, 62, 92}"

lemma mark_bytes: "byte (CHR 0x22) = 34" "byte (CHR 0x5C) = 92" "byte (CHR ''<'') = 60" "byte (CHR ''>'') = 62"
  "byte (CHR ''&'') = 38" "byte (CHR 0x08) = 8" "byte (CHR 0x0C) = 12" "byte (CHR 0x0A) = 10" "byte (CHR 0x0D) = 13"
  "byte (CHR 0x09) = 9"
  by (simp_all add: byte_def)

lemma escape_plain: "plain c \<Longrightarrow> escape_byte c = [c]"
proof -
  assume p: "plain c"
  have "c \<noteq> d" if "\<not> plain d" for d using p that by blast
  then have "c \<notin> {CHR 0x22, CHR 0x5C, CHR ''<'', CHR ''>'', CHR ''&'', CHR 0x08, CHR 0x0C, CHR 0x0A, CHR 0x0D, CHR 0x09}"
    by (auto simp: plain_def mark_bytes)
  moreover have "\<not> byte c < 32" using p by (simp add: plain_def)
  ultimately show ?thesis by (simp add: escape_byte_def html_unsafe_def)
qed

lemma plain_less: "plain c \<Longrightarrow> byte c < 128"
  by (simp add: plain_def)

lemma quote_plain: "list_all plain s \<Longrightarrow> quote_string s = quoted s"
proof -
  have "list_all plain s \<Longrightarrow> quote_body s = s"
    by (induction s) (simp_all add: escape_plain plain_less)
  then show "list_all plain s \<Longrightarrow> quote_string s = quoted s" by (simp add: quote_string_def quoted_def)
qed

lemma sanitize_plain: "list_all plain s \<Longrightarrow> sanitize s = s"
  by (rule sanitize_ascii) (simp add: list_all_iff plain_less)

lemma plain_alnum: "is_alnum c \<Longrightarrow> plain c"
  by (auto simp: is_alnum_def is_digit_def plain_def)

lemma plain_dec: "list_all plain (dec n)"
proof -
  have "is_digit c \<Longrightarrow> plain c" for c by (rule plain_alnum) (simp add: is_alnum_def)
  moreover have "plain (CHR ''-'')" by (simp add: plain_def byte_def)
  ultimately show ?thesis using dec_nat_digits by (auto simp: dec_def list_all_iff)
qed

section \<open>The engine's struct\<close>

definition incoming_fields :: "IncomingMessage field list" where
  "incoming_fields =
     [(''type'', str_field (\<lambda>s. i_Type_update (\<lambda>_. s))),
      (''order_id'', str_field (\<lambda>s. i_OrderID_update (\<lambda>_. s))),
      (''side'', str_field (\<lambda>s. i_Side_update (\<lambda>_. s))),
      (''order_type'', str_field (\<lambda>s. i_OrderType_update (\<lambda>_. s))),
      (''price'', float_field (\<lambda>q. i_Price_update (\<lambda>_. q))),
      (''quantity'', int64_field (\<lambda>n. i_Quantity_update (\<lambda>_. n)))]"

definition no_message :: IncomingMessage where
  "no_message = \<lparr>i_Type = [], i_OrderID = [], i_Side = [], i_OrderType = [], i_Price = 0, i_Quantity = 0\<rparr>"

definition order_tags :: "string list" where
  "order_tags = [''type'', ''order_id'', ''side'', ''order_type'', ''price'', ''quantity'']"

lemma order_tags_tag: "list_all (list_all tag_char) order_tags"
  by code_simp

lemma tag_char_plain: "tag_char c \<Longrightarrow> plain c"
  by (auto simp: tag_char_def is_digit_def plain_def mark_bytes byte_def [of "CHR ''_''"])

lemma order_tags_ok: "list_all (\<lambda>t. fold_name t = t \<and> sanitize t = t \<and> list_all plain t) order_tags"
  using order_tags_tag by (auto simp: list_all_iff intro!: fold_tag sanitize_tag tag_char_plain)

lemmas order_tags_simps = order_tags_ok [unfolded order_tags_def, simplified list.pred_inject]

lemma field_of_incoming: "fold_name key = key \<Longrightarrow> field_of incoming_fields key = map_of incoming_fields key"
  by (rule field_of_tag) (simp_all add: incoming_fields_def order_tags_simps)

lemma incoming_lookup:
  "field_of incoming_fields ''type'' = Some (str_field (\<lambda>s. i_Type_update (\<lambda>_. s)))"
  "field_of incoming_fields ''order_id'' = Some (str_field (\<lambda>s. i_OrderID_update (\<lambda>_. s)))"
  "field_of incoming_fields ''side'' = Some (str_field (\<lambda>s. i_Side_update (\<lambda>_. s)))"
  "field_of incoming_fields ''order_type'' = Some (str_field (\<lambda>s. i_OrderType_update (\<lambda>_. s)))"
  "field_of incoming_fields ''price'' = Some (float_field (\<lambda>q. i_Price_update (\<lambda>_. q)))"
  "field_of incoming_fields ''quantity'' = Some (int64_field (\<lambda>n. i_Quantity_update (\<lambda>_. n)))"
  by (simp_all add: field_of_incoming order_tags_simps) (simp_all add: incoming_fields_def)

definition step_plain :: "Step \<Rightarrow> bool" where
  "step_plain step \<longleftrightarrow> list_all plain (st_Side step) \<and> list_all plain (st_OrderType step) \<and> price_fits (st_Price step)"

definition order_members :: "string \<Rightarrow> Step \<Rightarrow> (string \<times> json) list" where
  "order_members oid step =
     [(''type'', JStr ''order''), (''order_id'', JStr oid), (''side'', JStr (st_Side step)), (''order_type'', JStr (st_OrderType step)),
      (''price'', JNum (fmt_f (st_Price step))), (''quantity'', num (sint (st_Quantity step)))]"

definition cancel_members :: "string \<Rightarrow> (string \<times> json) list" where
  "cancel_members oid = [(''type'', JStr ''cancel''), (''order_id'', JStr oid)]"

lemma plain_words: "list_all plain ''order''" "list_all plain ''cancel''"
  by code_simp+

lemmas words = plain_words [THEN quote_plain] plain_words [THEN sanitize_plain]

lemma order_text_json: "step_plain step \<Longrightarrow> list_all plain oid \<Longrightarrow> order_text oid step = json_print (JObj (order_members oid step))"
  by (simp add: order_text_def order_members_def json_field_def step_plain_def quote_plain order_tags_simps words num_def)

lemma cancel_text_json: "list_all plain oid \<Longrightarrow> cancel_text oid = json_print (JObj (cancel_members oid))"
  by (simp add: cancel_text_def cancel_members_def json_field_def quote_plain order_tags_simps words)

lemma unmarshal_order:
  "step_plain step \<Longrightarrow> list_all plain oid \<Longrightarrow>
     unmarshal incoming_fields no_message (order_text oid step) = Some (order_payload oid step)"
  unfolding order_text_json
  by (subst unmarshal_flat)
    (auto simp: order_members_def number_text_fmt_f order_tags_simps incoming_lookup sanitize_plain words step_plain_def
      ParseFloat_fmt_f no_message_def order_payload_def)

lemma unmarshal_cancel:
  "list_all plain oid \<Longrightarrow> unmarshal incoming_fields no_message (cancel_text oid) = Some (cancel_payload oid)"
  unfolding cancel_text_json
  by (subst unmarshal_flat)
    (auto simp: cancel_members_def order_tags_simps incoming_lookup sanitize_plain words no_message_def cancel_payload_def)

section \<open>The scripts\<close>

definition script_words :: "string list" where
  "script_words = [''buy'', ''sell'', ''limit'', ''market'', ''bid1'', ''ask1'', ''bid-0'', ''bid-1'', ''bid-2'', ''sweep'',
     ''resting'', ''probe'', ''bid'', ''ask'', ''bid-lo'', ''bid-hi'', ''mkt'', []]"

lemma script_words_plain: "list_all (list_all plain) script_words"
  by code_simp

lemma price_fits_rnd: "\<bar>x\<bar> \<le> 2 ^ 64 \<Longrightarrow> price_fits (rnd x)"
proof -
  assume "\<bar>x\<bar> \<le> 2 ^ 64"
  then have "\<bar>rnd x\<bar> \<le> 2 ^ 64" by (rule rnd_bound)
  also have "\<dots> \<le> 2 ^ 1000" by (rule power_increasing) simp_all
  finally show "price_fits (rnd x)" unfolding price_fits_def .
qed

lemma basePrice_bound: "\<bar>basePrice b\<bar> \<le> 2 ^ 63"
proof -
  have "\<bar>of_int (sint ((b + 1) * 1000)) :: rat\<bar> \<le> of_int (2 ^ 63)"
    using sint64_bounds [of "(b + 1) * 1000"] by (simp only: of_int_abs [symmetric] of_int_le_iff)
  also have "\<dots> = 2 ^ 63" by simp
  finally have "\<bar>of_int (sint ((b + 1) * 1000)) :: rat\<bar> \<le> 2 ^ 63" .
  then show ?thesis unfolding basePrice_def by (rule rnd_bound)
qed

lemma price_fits_base: "price_fits (basePrice b)" "price_fits (rnd (basePrice b - 1))" "price_fits (rnd (basePrice b - 2))"
proof -
  have near: "\<bar>basePrice b - d\<bar> \<le> 2 ^ 64" if "0 \<le> d" "d \<le> 2" for d
    using basePrice_bound [of b] that by (simp add: abs_le_iff)
  show "price_fits (rnd (basePrice b - 1))" "price_fits (rnd (basePrice b - 2))"
    by (rule price_fits_rnd, rule near, simp, simp)+
  have "\<bar>basePrice b\<bar> \<le> 2 ^ 63" by (rule basePrice_bound)
  also have "\<dots> \<le> 2 ^ 1000" by (rule power_increasing) simp_all
  finally show "price_fits (basePrice b)" unfolding price_fits_def .
qed

definition step_ok :: "Step \<Rightarrow> bool" where
  "step_ok step \<longleftrightarrow> st_Side step \<in> set script_words \<and> st_OrderType step \<in> set script_words \<and>
     st_Tag step \<in> set script_words \<and> price_fits (st_Price step)"

lemma price_fits_cx: "price_fits 0" "price_fits correctnessBasePrice" "price_fits (rnd (correctnessBasePrice + 1))"
  "price_fits (rnd (correctnessBasePrice + 10))" "price_fits (rnd (correctnessBasePrice + 20))"
proof -
  have "\<bar>500\<bar> \<le> (2 :: rat) ^ 9" by simp
  also have "\<dots> \<le> 2 ^ 1000" by (rule power_increasing) simp_all
  finally show "price_fits correctnessBasePrice" unfolding price_fits_def correctnessBasePrice_def .
  show "price_fits 0" unfolding price_fits_def abs_zero by (rule zero_le_power) simp
qed (rule price_fits_rnd, simp add: correctnessBasePrice_def)+

lemma load_steps_ok: "list_all (\<lambda>sq. list_all step_ok (sq_Steps sq)) (sequences b)"
  by (simp add: sequences_def basicMatch_def partialFillLadder_def cancelCorrectness_def Let_def
      limit_step_def market_step_def cancel_step_def zero_Step_def step_ok_def script_words_def price_fits_base price_fits_cx)

lemma correctness_steps_ok: "list_all (\<lambda>sq. list_all step_ok (sq_Steps sq)) CorrectnessSequences"
  by (simp add: CorrectnessSequences_def cxBasicMatch_def cxPriorityFill_def cxPartialFill_def cxCancel_def
      cxRejectMarketNoLiquidity_def Let_def
      limit_step_def market_step_def cancel_step_def zero_Step_def expect_book_def step_ok_def script_words_def price_fits_cx)

lemma scripts_ok:
  "sq \<in> set (sequences b) \<union> set CorrectnessSequences \<Longrightarrow> step \<in> set (sq_Steps sq) \<Longrightarrow> step_ok step"
  using load_steps_ok [of b] correctness_steps_ok by (auto simp: list_all_iff)

lemma step_ok_plain: "step_ok step \<Longrightarrow> step_plain step \<and> list_all plain (st_Tag step)"
  using script_words_plain by (auto simp: step_ok_def step_plain_def list_all_iff)

lemma id_marks: "list_all plain ''b''" "list_all plain ''-i''" "list_all plain ''-''" "list_all plain ''cx-s''"
  by code_simp+

lemma orderID_plain: "list_all plain tag \<Longrightarrow> list_all plain (orderID n i tag) \<and> list_all plain (cx_orderID k tag)"
  unfolding orderID_def cx_orderID_def list_all_append using id_marks plain_dec by simp

text \<open>
  C16. What the bots send is what the engine reads. For every step of every script, with its order id spliced
  into the payload that was marshalled before the run, the text on the socket is one the engine's session
  decodes into exactly the message of the model: kind, id, side, type, price and quantity. So the splice never
  lands in another field and never breaks the JSON.
\<close>

theorem script_texts:
  assumes "sq \<in> set (sequences b) \<union> set CorrectnessSequences" and "step \<in> set (sq_Steps sq)" and "st \<in> set (sq_Steps sq)"
    and "oid \<in> {orderID n i (st_Tag st), cx_orderID k (st_Tag st)}"
  shows "unmarshal incoming_fields no_message (replace_first oid (tm_payload (make_template step)))
    = Some (if st_Kind step = StepOrder then order_payload oid step else cancel_payload oid)"
proof -
  have "list_all plain oid"
    using assms(4) orderID_plain step_ok_plain [OF scripts_ok [OF assms(1,3)]] by auto
  moreover have "step_plain step" using step_ok_plain [OF scripts_ok [OF assms(1,2)]] by simp
  ultimately show ?thesis
    by (simp add: make_template_def replace_first_order replace_first_cancel unmarshal_order unmarshal_cancel)
qed

theorem script_texts_witness:
  "basicMatch 0 \<in> set (sequences 0) \<and>
   unmarshal incoming_fields no_message
       (replace_first (orderID 0 1 ''bid1'') (tm_payload (make_template (limit_step ''bid1'' ''buy'' (basePrice 0) 10))))
     = Some (order_payload (orderID 0 1 ''bid1'') (limit_step ''bid1'' ''buy'' (basePrice 0) 10))"
proof -
  have s: "basicMatch 0 \<in> set (sequences 0)" by (simp add: sequences_def)
  then have s': "basicMatch 0 \<in> set (sequences 0) \<union> set CorrectnessSequences" by simp
  let ?st = "limit_step ''bid1'' ''buy'' (basePrice 0) 10"
  have st: "?st \<in> set (sq_Steps (basicMatch 0))" by (simp add: basicMatch_def Let_def)
  have k: "st_Tag ?st = ''bid1''" "st_Kind ?st = StepOrder" by (simp_all add: limit_step_def)
  have "orderID 0 1 ''bid1'' \<in> {orderID 0 1 (st_Tag ?st), cx_orderID 0 (st_Tag ?st)}" using k by simp
  from script_texts [OF s' st st this] s k show ?thesis by simp
qed

end
