(* ===== verification/Json_Float.thy ===== *)
theory Json_Float
  imports Decimal_Text
begin

text \<open>
  Floating-point numbers as JSON texts: the shortest decimal that parses to the number, as
  \<open>strconv.FormatFloat(x, 'f', -1, 64)\<close> gives it, and the exponent form of \<open>encoding/json\<close> for very small
  and very large numbers.
\<close>

section \<open>The shortest decimal\<close>

text \<open>The exponent of the leading digit.\<close>

definition expo10 :: "rat \<Rightarrow> int" where
  "expo10 x = (let (n, d) = quotient_of x; k = int (length (dec_nat (nat n))) - int (length (dec_nat (nat d)))
     in if x < 10 powi k then k - 1 else k)"

text \<open>
  The decimal of \<open>n\<close> digits nearest to the number, of those that round to it; a tie goes to the even one.
\<close>

definition decimal_of :: "nat \<Rightarrow> rat \<Rightarrow> (int \<times> int) option" where
  "decimal_of n x =
     (let k = expo10 x + 1 - int n; u = 10 powi k; lo = \<lfloor>x / u\<rfloor>; hi = lo + 1;
          lo_ok = (rnd (of_int lo * u) = x); hi_ok = (rnd (of_int hi * u) = x);
          dl = x - of_int lo * u; dh = of_int hi * u - x
      in if lo_ok \<and> (\<not> hi_ok \<or> dl < dh \<or> dl = dh \<and> even lo) then Some (lo, k)
         else if hi_ok then Some (hi, k) else None)"

fun shortest_from :: "nat \<Rightarrow> nat \<Rightarrow> rat \<Rightarrow> (int \<times> int) option" where
  "shortest_from 0 n x = None"
| "shortest_from (Suc fuel) n x = (case decimal_of n x of Some d \<Rightarrow> Some d | None \<Rightarrow> shortest_from fuel (Suc n) x)"

definition shortest :: "rat \<Rightarrow> (int \<times> int) option" where
  "shortest x = shortest_from (nat (expo10 x + 1076) + 1) 1 x"

lemma decimal_of_value: "decimal_of n x = Some (m, k) \<Longrightarrow> rnd (of_int m * 10 powi k) = x"
  by (auto simp: decimal_of_def Let_def split: if_splits)

lemma shortest_from_value: "shortest_from fuel n x = Some (m, k) \<Longrightarrow> rnd (of_int m * 10 powi k) = x"
  by (induction fuel n x rule: shortest_from.induct) (auto split: option.splits dest: decimal_of_value)

lemma shortest_value: "shortest x = Some (m, k) \<Longrightarrow> rnd (of_int m * 10 powi k) = x"
  unfolding shortest_def by (rule shortest_from_value)

text \<open>A floating-point number has a finite decimal expansion, so the search ends.\<close>

lemma grid_point:
  assumes "- int N \<le> q"
  shows "\<exists>m. of_int a * 2 powi q * (10::rat) ^ N = of_int m"
proof -
  have "(2::rat) powi q * 2 ^ N = 2 powi (q + int N)" by (simp add: power_int_add)
  also have "\<dots> = 2 ^ nat (q + int N)" using assms by (simp add: power_int_def)
  finally have two: "(2::rat) powi q * 2 ^ N = 2 ^ nat (q + int N)" .
  have "(10::rat) ^ N = 2 ^ N * 5 ^ N" by (simp flip: power_mult_distrib)
  then have "of_int a * 2 powi q * (10::rat) ^ N = of_int (a * (2 ^ nat (q + int N) * 5 ^ N))"
    using two by (simp flip: mult.assoc)
  then show ?thesis by blast
qed

lemma rnd_pos_grid: "\<exists>m. rnd_pos y * 10 ^ 1074 = of_int m"
  unfolding rnd_pos_def Let_def by (rule grid_point) (simp add: quantum_def)

lemma rnd_grid: "rnd x = x \<Longrightarrow> \<exists>m. x * 10 ^ 1074 = of_int m"
proof -
  define G where "G = (10::rat) ^ 1074"
  have pos: "\<exists>m. rnd_pos y * G = of_int m" for y unfolding G_def by (rule rnd_pos_grid)
  assume "rnd x = x"
  then consider "x = 0" | "x = rnd_pos x" | "x = - rnd_pos (- x)" by (auto simp: rnd_def split: if_splits)
  then have "\<exists>m. x * G = of_int m"
  proof cases
    case 1
    then have "x * G = of_int 0" by simp
    then show ?thesis by blast
  next
    case 2
    then show ?thesis using pos [of x] by metis
  next
    case 3
    obtain m where "rnd_pos (- x) * G = of_int m" using pos by blast
    then have "x * G = of_int (- m)" using 3 by (metis minus_mult_left of_int_minus)
    then show ?thesis by blast
  qed
  then show ?thesis unfolding G_def .
qed

lemma shortest_from_ends:
  "decimal_of (n + i) x \<noteq> None \<Longrightarrow> i < fuel \<Longrightarrow> shortest_from fuel n x \<noteq> None"
proof (induction i arbitrary: n fuel)
  case 0
  then show ?case by (cases fuel) (auto split: option.split)
next
  case (Suc i)
  then show ?case by (cases fuel) (auto split: option.split)
qed

lemma decimal_of_exact:
  assumes r: "rnd x = x" and n: "int n = expo10 x + 1 + int N" and g: "x * 10 ^ N = of_int m"
  shows "decimal_of n x \<noteq> None"
proof -
  have "expo10 x + 1 - int n = - int N" using n by simp
  then have u: "(10::rat) powi (expo10 x + 1 - int n) = 1 / 10 ^ N" by (simp add: power_int_minus divide_simps)
  have "x / (1 / 10 ^ N) = of_int m" using g by simp
  moreover have "of_int m * (1 / 10 ^ N) = x" using g by (simp add: divide_simps)
  ultimately show ?thesis
    using r by (simp add: decimal_of_def u Let_def)
qed

lemma shortest_Some:
  assumes "rnd x = x" and "- 1075 < expo10 x"
  shows "shortest x \<noteq> None"
proof -
  obtain m where m: "x * 10 ^ 1074 = of_int m" using rnd_grid [OF assms(1)] by blast
  define n where "n = nat (expo10 x + 1075)"
  have n: "int n = expo10 x + 1 + int 1074" "0 < n" using assms(2) by (simp_all add: n_def)
  then have "decimal_of (1 + (n - 1)) x \<noteq> None" using decimal_of_exact [OF assms(1) _ m, of n] by simp
  then show ?thesis
    unfolding shortest_def by (rule shortest_from_ends) (use n in \<open>simp add: n_def\<close>)
qed

lemma dec_nat_bounds: "n < 10 ^ length (dec_nat n)" "0 < n \<Longrightarrow> 10 ^ (length (dec_nat n) - 1) \<le> n"
proof -
  have "n < 10 ^ length (dec_nat n) \<and> (0 < n \<longrightarrow> 10 ^ (length (dec_nat n) - 1) \<le> n)"
  proof (induction n rule: dec_nat.induct)
    case (1 n)
    show ?case
    proof (cases "n < 10")
      case True
      then have "length (dec_nat n) = 1" by (subst dec_nat.simps) simp
      then show ?thesis using True by simp
    next
      case False
      let ?l = "length (dec_nat (n div 10))"
      have l: "length (dec_nat n) = Suc ?l" using False by (subst dec_nat.simps) simp
      have l0: "0 < ?l" using dec_nat_not_empty by simp
      have "n div 10 < 10 ^ ?l" "10 ^ (?l - 1) \<le> n div 10" using 1 False by auto
      then have "n < 10 * 10 ^ ?l" "10 * 10 ^ (?l - 1) \<le> n" by linarith+
      moreover have "(10::nat) ^ ?l = 10 * 10 ^ (?l - 1)" using l0 by (cases ?l) auto
      ultimately show ?thesis using l by simp
    qed
  qed
  then show "n < 10 ^ length (dec_nat n)" "0 < n \<Longrightarrow> 10 ^ (length (dec_nat n) - 1) \<le> n" by simp_all
qed

lemma power_nat_rat: "((a :: nat) < 10 ^ i) = (rat_of_nat a < 10 ^ i)" "((10::nat) ^ i \<le> a) = (10 ^ i \<le> rat_of_nat a)"
  by (metis of_nat_less_iff of_nat_numeral of_nat_power, metis of_nat_le_iff of_nat_numeral of_nat_power)

lemma powi_ratio: "(10::rat) ^ i / 10 ^ j = 10 powi (int i - int j)"
  by (simp add: power_int_diff)

lemma digit_ratio:
  assumes "0 < a" "0 < b"
  shows "rat_of_nat a / of_nat b < 10 powi (int (length (dec_nat a)) - int (length (dec_nat b)) + 1)"
    and "10 powi (int (length (dec_nat a)) - int (length (dec_nat b)) - 1) \<le> rat_of_nat a / of_nat b"
proof -
  define i j where "i = length (dec_nat a)" and "j = length (dec_nat b)"
  have ij: "int (i - 1) = int i - 1" "int (j - 1) = int j - 1"
    using dec_nat_not_empty [of a] dec_nat_not_empty [of b] by (auto simp: i_def j_def of_nat_diff Suc_leI)
  have A: "10 ^ (i - 1) \<le> rat_of_nat a" "rat_of_nat a < 10 ^ i"
    unfolding i_def power_nat_rat [symmetric] using dec_nat_bounds [of a] assms(1) by blast+
  have B: "10 ^ (j - 1) \<le> rat_of_nat b" "rat_of_nat b < 10 ^ j"
    unfolding j_def power_nat_rat [symmetric] using dec_nat_bounds [of b] assms(2) by blast+
  have "rat_of_nat a / of_nat b < 10 ^ i / 10 ^ (j - 1)"
    using A(2) B(1) by (intro frac_less) simp_all
  also have "\<dots> = 10 powi (int i - int j + 1)" unfolding powi_ratio ij by (simp add: algebra_simps)
  finally show "rat_of_nat a / of_nat b < 10 powi (int (length (dec_nat a)) - int (length (dec_nat b)) + 1)"
    unfolding i_def j_def .
  have "10 powi (int i - int j - 1) = (10::rat) ^ (i - 1) / 10 ^ j"
    unfolding powi_ratio ij by (simp add: algebra_simps)
  also have "\<dots> \<le> rat_of_nat a / of_nat b"
    using A(1) B(2) assms(2) by (intro frac_le) simp_all
  finally show "10 powi (int (length (dec_nat a)) - int (length (dec_nat b)) - 1) \<le> rat_of_nat a / of_nat b"
    unfolding i_def j_def .
qed

lemma expo10_bounds:
  assumes "0 < x"
  shows "10 powi expo10 x \<le> x" "x < 10 powi (expo10 x + 1)"
proof -
  obtain n d where q: "quotient_of x = (n, d)" by (cases "quotient_of x")
  have d: "0 < d" using quotient_of_denom_pos [OF q] .
  have x: "x = of_int n / of_int d" using quotient_of_div [OF q] .
  then have n: "0 < n" using assms d by (simp add: zero_less_divide_iff)
  define k where "k = int (length (dec_nat (nat n))) - int (length (dec_nat (nat d)))"
  have e: "expo10 x = (if x < 10 powi k then k - 1 else k)" by (simp add: expo10_def q k_def)
  have "x = of_nat (nat n) / of_nat (nat d)" using x n d by simp
  then have "x < 10 powi (k + 1)" "10 powi (k - 1) \<le> x"
    using digit_ratio [of "nat n" "nat d"] n d by (simp_all add: k_def)
  then show "10 powi expo10 x \<le> x" "x < 10 powi (expo10 x + 1)" using e by auto
qed

lemma expo10_float: "0 < x \<Longrightarrow> rnd x = x \<Longrightarrow> - 1075 < expo10 x"
proof -
  assume x: "0 < x" "rnd x = x"
  define N :: nat where "N = 1074"
  obtain m where m: "x * 10 ^ N = of_int m" unfolding N_def using rnd_grid [OF x(2)] by blast
  have "0 < x * 10 ^ N" using x(1) by simp
  then have "0 < m" unfolding m by simp
  then have "1 \<le> x * 10 ^ N" unfolding m by simp
  then have "10 powi (- int N) \<le> x" by (simp add: power_int_minus divide_simps)
  then have "10 powi (- int N) < (10::rat) powi (expo10 x + 1)" using expo10_bounds(2) [OF x(1)] by linarith
  then have "- int N < expo10 x + 1"
    using power_int_increasing [of "expo10 x + 1" "- int N" "10 :: rat"] by (meson leD leI one_le_numeral)
  then show ?thesis by (simp add: N_def)
qed

lemma shortest_float:
  assumes "0 < x" "rnd x = x"
  obtains m k where "shortest x = Some (m, k)" "rnd (of_int m * 10 powi k) = x" "0 < m"
proof -
  obtain m k where s: "shortest x = Some (m, k)" using shortest_Some [OF assms(2) expo10_float [OF assms]] by auto
  have v: "rnd (of_int m * 10 powi k) = x" by (rule shortest_value [OF s])
  have "0 < m"
  proof (rule ccontr)
    assume "\<not> 0 < m"
    then have "rnd (of_int m * 10 powi k) \<le> rnd 0" by (intro rnd_mono) (simp add: mult_nonpos_nonneg)
    then show False using v assms(1) by simp
  qed
  then show thesis using that s v by blast
qed

section \<open>The text\<close>

text \<open>The digits of a decimal without its final zeros, and the position of the point after the first digit's place.\<close>

definition strip_zeros :: "string \<Rightarrow> string" where
  "strip_zeros s = rev (dropWhile (\<lambda>c. c = CHR ''0'') (rev s))"

definition plain_parts :: "string \<Rightarrow> int \<Rightarrow> string \<times> string" where
  "plain_parts ds dp =
     (if dp \<le> 0 then (''0'', replicate (nat (- dp)) (CHR ''0'') @ ds)
      else (take (nat dp) ds @ replicate (nat dp - length ds) (CHR ''0''), drop (nat dp) ds))"

text \<open>
  The encoder's text: plain notation for magnitudes from a millionth up to a sextillion, otherwise one
  digit before the point and an exponent with its sign and no leading zero.
\<close>

definition float_parts :: "rat \<Rightarrow> string \<Rightarrow> int \<Rightarrow> string \<times> string \<times> (bool \<times> string) option" where
  "float_parts x ds dp =
     (if x < 1 / 1000000 \<or> 1000000000000000000000 \<le> x
      then ([hd ds], tl ds, Some (dp - 1 < 0, dec_nat (nat \<bar>dp - 1\<bar>)))
      else (case plain_parts ds dp of (A, B) \<Rightarrow> (A, B, None)))"

definition json_float :: "rat \<Rightarrow> string" where
  "json_float x =
     (if x = 0 then ''0''
      else case shortest \<bar>x\<bar> of None \<Rightarrow> []
         | Some (m, k) \<Rightarrow>
             (let s = dec_nat (nat m); ds = strip_zeros s
              in case float_parts \<bar>x\<bar> ds (int (length s) + k) of (A, B, E) \<Rightarrow> decimal_text (x < 0) A B E))"

lemma strip_zeros_split: "\<exists>z. s = strip_zeros s @ replicate z (CHR ''0'')"
proof -
  let ?z = "takeWhile (\<lambda>c. c = CHR ''0'') (rev s)"
  have "rev s = ?z @ dropWhile (\<lambda>c. c = CHR ''0'') (rev s)" by simp
  then have "s = strip_zeros s @ rev ?z" unfolding strip_zeros_def by (metis rev_append rev_rev_ident)
  moreover have "rev ?z = replicate (length ?z) (CHR ''0'')"
    by (rule replicate_eqI) (auto dest: set_takeWhileD)
  ultimately show ?thesis by metis
qed

lemma strip_zeros_facts:
  assumes "0 < n"
  shows "strip_zeros (dec_nat n) \<noteq> []" "list_all is_digit (strip_zeros (dec_nat n))" "hd (strip_zeros (dec_nat n)) \<noteq> CHR ''0''"
    and "rat_of_nat n = of_nat (digits_val (strip_zeros (dec_nat n))) * 10 powi (int (length (dec_nat n)) - int (length (strip_zeros (dec_nat n))))"
proof -
  let ?d = "strip_zeros (dec_nat n)"
  obtain z where z: "dec_nat n = ?d @ replicate z (CHR ''0'')" using strip_zeros_split by blast
  have v: "n = digits_val ?d * 10 ^ z"
    using arg_cong [OF z, of digits_val] by (simp add: digits_val_append)
  show ne: "?d \<noteq> []" using v assms by (auto simp: digits_val_def)
  have "list_all is_digit (?d @ replicate z (CHR ''0''))" using z dec_nat_digits by (metis list_all_iff)
  then show "list_all is_digit ?d" by simp
  have "hd (dec_nat n) = hd ?d" using z ne by (metis hd_append2)
  then show "hd ?d \<noteq> CHR ''0''" using dec_nat_head [of n] assms by auto
  have "length (dec_nat n) = length ?d + z" using arg_cong [OF z, of length] by simp
  then show "rat_of_nat n = of_nat (digits_val ?d) * 10 powi (int (length (dec_nat n)) - int (length ?d))"
    using arg_cong [OF v, of rat_of_nat] by simp
qed

lemma ten_div: "(10::rat) powi (a - int n) = 10 powi a / 10 ^ n"
  by (simp add: power_int_diff)

lemma plain_parts_ok:
  assumes "ds \<noteq> []" "list_all is_digit ds" "hd ds \<noteq> CHR ''0''" "plain_parts ds dp = (A, B)"
  shows "decimal_ok A B None \<and> decimal_value neg A B None = (if neg then - 1 else 1) * (of_nat (digits_val ds) * 10 powi (dp - int (length ds)))"
proof (cases "dp \<le> 0")
  case True
  have "digits_val ''0'' = 0" by (simp add: digits_val_def byte_def)
  then have "digits_val (''0'' @ replicate (nat (- dp)) (CHR ''0'') @ ds) = digits_val ds"
    by (simp only: digits_val_append digits_val_zeros)
  moreover have "(10::rat) powi (dp - int (length ds)) = 1 / 10 ^ (nat (- dp) + length ds)"
  proof -
    have "dp - int (length ds) = - int (nat (- dp) + length ds)" using True by simp
    then show ?thesis by (simp only: power_int_minus power_int_of_nat inverse_eq_divide)
  qed
  moreover have "is_digit (CHR ''0'')" by (simp add: is_digit_def byte_def)
  ultimately show ?thesis
    using assms True by (auto simp: plain_parts_def decimal_ok_def decimal_value_def exponent_value_def list_all_iff)
next
  case False
  have z: "is_digit (CHR ''0'')" by (simp add: is_digit_def byte_def)
  have AB: "A = take (nat dp) ds @ replicate (nat dp - length ds) (CHR ''0'')" "B = drop (nat dp) ds"
    using assms(4) False by (simp_all add: plain_parts_def)
  have A: "A \<noteq> []" "hd A = hd ds" using assms(1) False by (cases ds; cases "nat dp"; simp add: AB)+
  have ok: "decimal_ok A B None"
    using A assms(2,3) z by (auto simp: decimal_ok_def AB list_all_iff dest: in_set_takeD in_set_dropD)
  have "of_nat (digits_val (A @ B)) / 10 ^ length B = (of_nat (digits_val ds) * 10 powi (dp - int (length ds)) :: rat)"
  proof (cases "nat dp \<le> length ds")
    case True
    then have "A @ B = ds" "int (length B) = int (length ds) - dp" using False by (simp_all add: AB of_nat_diff)
    moreover have "(10::rat) powi (dp - int (length ds)) = 1 / 10 ^ length B"
    proof -
      have "dp - int (length ds) = - int (length B)" using calculation(2) by simp
      then show ?thesis by (simp only: power_int_minus power_int_of_nat inverse_eq_divide)
    qed
    ultimately show ?thesis by simp
  next
    case False
    then have "A @ B = ds @ replicate (nat dp - length ds) (CHR ''0'')" "B = []" by (simp_all add: AB)
    moreover have "(10::rat) powi (dp - int (length ds)) = 10 ^ (nat dp - length ds)"
      using False by (simp add: power_int_def nat_diff_distrib)
    ultimately show ?thesis by (simp add: digits_val_append)
  qed
  then show ?thesis using ok by (simp add: decimal_value_def exponent_value_def)
qed

lemma float_parts_ok:
  assumes d: "ds \<noteq> []" "list_all is_digit ds" "hd ds \<noteq> CHR ''0''" and p: "float_parts y ds dp = (A, B, E)"
    and b: "\<bar>dp - 1\<bar> < 10000"
  shows "decimal_ok A B E \<and> decimal_value neg A B E = (if neg then - 1 else 1) * (of_nat (digits_val ds) * 10 powi (dp - int (length ds)))"
proof (cases "y < 1 / 1000000 \<or> 1000000000000000000000 \<le> y")
  case False
  then show ?thesis using plain_parts_ok [OF d] p by (auto simp: float_parts_def split: prod.splits)
next
  case True
  let ?X = "dec_nat (nat \<bar>dp - 1\<bar>)"
  have p: "A = [hd ds]" "B = tl ds" "E = Some (dp - 1 < 0, ?X)" using p True by (simp_all add: float_parts_def)
  have AB: "A @ B = ds" using d(1) by (simp add: p)
  have "decimal_ok A B E"
    using d b dec_nat_not_empty dec_nat_digits by (cases ds) (auto simp: decimal_ok_def p list_all_iff)
  moreover have "exponent_value E = 10 powi (dp - 1)" by (simp add: exponent_value_def p)
  moreover have "int (length B) = int (length ds) - 1" using d(1) by (cases ds) (simp_all add: p)
  then have "(10::rat) powi (dp - int (length ds)) = 10 powi (dp - 1) / 10 ^ length B"
    unfolding ten_div [symmetric] by (simp add: algebra_simps)
  ultimately show ?thesis unfolding decimal_value_def AB by simp
qed

text \<open>The exponents of floating-point numbers are far from the bound of the parser.\<close>

lemma shortest_from_digits:
  "shortest_from fuel n x = Some d \<Longrightarrow> \<exists>j. n \<le> j \<and> j < n + fuel \<and> decimal_of j x = Some d"
proof (induction fuel n x rule: shortest_from.induct)
  case (2 fuel n x)
  show ?case
  proof (cases "decimal_of n x")
    case None
    then obtain j where "Suc n \<le> j" "j < Suc n + fuel" "decimal_of j x = Some d" using 2 by auto
    then show ?thesis by (intro exI [of _ j]) simp
  next
    case (Some e)
    then show ?thesis using 2 by (intro exI [of _ n]) simp
  qed
qed simp

lemma decimal_of_near:
  assumes "decimal_of n x = Some (m, k)"
  shows "k = expo10 x + 1 - int n \<and> of_int m * 10 powi k \<le> x + 10 powi k"
proof -
  have k: "k = expo10 x + 1 - int n" using assms by (auto simp: decimal_of_def Let_def split: if_splits)
  have "m = \<lfloor>x / 10 powi k\<rfloor> \<or> m = \<lfloor>x / 10 powi k\<rfloor> + 1"
    using assms unfolding k by (auto simp: decimal_of_def Let_def split: if_splits)
  then have "of_int m \<le> x / 10 powi k + 1" using of_int_floor_le [of "x / 10 powi k"] by (elim disjE; simp only: of_int_add of_int_1; linarith)
  then have "of_int m * 10 powi k \<le> (x / 10 powi k + 1) * 10 powi k" by (rule mult_right_mono) simp
  also have "\<dots> = x + 10 powi k" by (simp add: distrib_right)
  finally show ?thesis using k by blast
qed

lemma ten_exp_le: "(10::rat) powi a \<le> 10 powi b \<Longrightarrow> a \<le> b"
  using power_int_strict_increasing [of b a "10 :: rat"] by (meson leD leI numeral_less_iff one_less_numeral_iff semiring_norm(76))

lemma ten_exp_less: "(10::rat) powi a < 10 powi b \<Longrightarrow> a < b"
  using power_int_increasing [of b a "10 :: rat"] by (meson leD leI one_le_numeral)

lemma maxfloat_ten: "2 * maxfloat \<le> 10 powi 1025"
proof -
  have "maxfloat \<le> 2 ^ 53 * 2 ^ 971" unfolding maxfloat_def by (rule mult_right_mono) simp_all
  also have "\<dots> = 2 ^ (53 + 971)" by (rule power_add [symmetric])
  finally have "2 * maxfloat \<le> 2 * 2 ^ (53 + 971)" by (rule mult_left_mono) simp
  also have "\<dots> = 2 ^ Suc (53 + 971)" by (rule power_Suc [symmetric])
  also have "\<dots> \<le> (10::rat) ^ Suc (53 + 971)" by (rule power_mono) simp_all
  also have "\<dots> = 10 powi int (Suc (53 + 971))" by (rule power_int_of_nat [symmetric])
  also have "int (Suc (53 + 971)) = 1025" by simp
  finally show ?thesis .
qed

lemma shortest_point:
  assumes x: "0 < x" "rnd x = x" "x \<le> maxfloat" and s: "shortest x = Some (m, k)" and m: "0 < m"
  shows "\<bar>int (length (dec_nat (nat m))) + k - 1\<bar> < 10000"
proof -
  define N :: int where "N = 1025"
  note two = maxfloat_ten [folded N_def]
  obtain n where n: "1 \<le> n" "n < 1 + (nat (expo10 x + 1076) + 1)" "decimal_of n x = Some (m, k)"
    using shortest_from_digits [OF s [unfolded shortest_def]] by blast
  have k: "k = expo10 x + 1 - int n" "of_int m * 10 powi k \<le> x + 10 powi k" using decimal_of_near [OF n(3)] by auto
  define l where "l = length (dec_nat (nat m))"
  have l: "1 \<le> l" using dec_nat_not_empty [of "nat m"] by (simp add: l_def Suc_leI)
  have "10 ^ (l - 1) \<le> nat m" "nat m < 10 ^ l" using dec_nat_bounds [of "nat m"] m by (simp_all add: l_def)
  then have b: "10 ^ (l - 1) \<le> rat_of_nat (nat m)" "rat_of_nat (nat m) < 10 ^ l" unfolding power_nat_rat by blast+
  have mm: "rat_of_nat (nat m) = of_int m" using m by simp
  have pow: "10 ^ i * 10 powi k = (10::rat) powi (int i + k)" for i
    by (simp add: power_int_add)
  have "10 powi k \<le> (10::rat) powi expo10 x" using n(1) k(1) by (intro power_int_increasing) simp_all
  then have "of_int m * 10 powi k \<le> 2 * x" using k(2) expo10_bounds(1) [OF x(1)] by simp
  also have "\<dots> \<le> 10 powi N" using x(3) two by linarith
  finally have up: "of_int m * (10::rat) powi k \<le> 10 powi N" .
  have "10 ^ (l - 1) * 10 powi k \<le> of_int m * (10::rat) powi k" using b(1) unfolding mm by (rule mult_right_mono) simp
  then have "(10::rat) powi (int (l - 1) + k) \<le> 10 powi N" using up unfolding pow by linarith
  then have hi: "int (l - 1) + k \<le> N" by (rule ten_exp_le)
  have "of_int m * (10::rat) powi k < 10 ^ l * 10 powi k" using b(2) unfolding mm by (rule mult_strict_right_mono) simp
  moreover have "1 * (10::rat) powi k \<le> of_int m * 10 powi k" using m by (intro mult_right_mono) simp_all
  ultimately have "(10::rat) powi k < 10 powi (int l + k)" unfolding pow by linarith
  then have "k < int l + k" by (rule ten_exp_less)
  moreover have "- 1077 \<le> k" using k(1) n(2) expo10_float [OF x(1,2)] by simp
  moreover have "int (l - 1) = int l - 1" using l by (simp add: of_nat_diff)
  ultimately show ?thesis using hi unfolding l_def [symmetric] N_def by linarith
qed

lemma json_float_text:
  assumes x: "rnd x = x" "\<bar>x\<bar> \<le> maxfloat"
  shows "number_text (json_float x) \<and> ParseFloat (json_float x) = Some (Fin x)"
proof (cases "x = 0")
  case True
  have "decimal_ok ''0'' [] None" by (simp add: decimal_ok_def is_digit_def byte_def)
  moreover have "json_float x = decimal_text False ''0'' [] None" using True by (simp add: json_float_def decimal_text_def exponent_text_def with_sign_def)
  moreover have "decimal_value False ''0'' [] None = 0" by (simp add: decimal_value_def digits_val_def byte_def)
  moreover have "f64 0 = Fin 0" by (simp add: f64_def maxfloat_def)
  ultimately show ?thesis using True number_text_decimal ParseFloat_decimal by simp
next
  case False
  have y: "0 < \<bar>x\<bar>" "rnd \<bar>x\<bar> = \<bar>x\<bar>" using False x(1) by (simp_all add: abs_if)
  obtain m k where s: "shortest \<bar>x\<bar> = Some (m, k)" "rnd (of_int m * 10 powi k) = \<bar>x\<bar>" "0 < m"
    using shortest_float [OF y] .
  define n where "n = nat m"
  define ds where "ds = strip_zeros (dec_nat n)"
  define dp where "dp = int (length (dec_nat n)) + k"
  have n: "0 < n" "rat_of_nat n = of_int m" using s(3) by (simp_all add: n_def)
  note d = strip_zeros_facts [OF n(1), folded ds_def]
  obtain A B E where p: "float_parts \<bar>x\<bar> ds dp = (A, B, E)" by (cases "float_parts \<bar>x\<bar> ds dp") auto
  have t: "json_float x = decimal_text (x < 0) A B E"
    using False s(1) p by (simp add: json_float_def n_def ds_def dp_def)
  have "\<bar>dp - 1\<bar> < 10000" using shortest_point [OF y x(2) s(1,3)] by (simp add: dp_def n_def)
  note ok = float_parts_ok [OF d(1,2,3) p this, of "x < 0"]
  have "of_nat (digits_val ds) * 10 powi (dp - int (length ds)) = (of_int m * 10 powi k :: rat)"
  proof -
    have "(10::rat) powi (dp - int (length ds)) = 10 powi (int (length (dec_nat n)) - int (length ds)) * 10 powi k"
      by (simp add: dp_def flip: power_int_add) (simp add: algebra_simps)
    then show ?thesis using d(4) n(2) by simp
  qed
  then have v: "decimal_value (x < 0) A B E = (if x < 0 then - 1 else 1) * (of_int m * 10 powi k)" using ok by simp
  have "f64 ((if x < 0 then - 1 else 1) * (of_int m * 10 powi k)) = Fin x"
    using s(2) x(2) by (auto simp: f64_def Let_def abs_if split: if_splits)
  then show ?thesis unfolding t using ok number_text_decimal ParseFloat_decimal v by simp
qed

end
