(* ===== verification/Wire_Results.thy ===== *)
theory Wire_Results
  imports Wire_Orders Json_Float Leaderboard
begin

text \<open>
  The texts that carry results: the engine's replies to the bots and its snapshot of the book, the
  metrics of a run on the topic \<open>bot.metrics\<close>, and the entries the ingester leaves in Redis for the
  leaderboard.
\<close>

section \<open>Floating-point fields\<close>

fun jfloat :: "float64 \<Rightarrow> json" where
  "jfloat (Fin q) = JNum (json_float q)"
| "jfloat _ = JNull"

text \<open>A value that a float64 can hold.\<close>

definition rat_fits :: "rat \<Rightarrow> bool" where
  "rat_fits q \<longleftrightarrow> rnd q = q \<and> \<bar>q\<bar> \<le> maxfloat"

definition float_fits :: "float64 \<Rightarrow> bool" where
  "float_fits x \<longleftrightarrow> (case x of Fin q \<Rightarrow> rat_fits q | _ \<Rightarrow> False)"

definition float64_field :: "(float64 \<Rightarrow> 'a \<Rightarrow> 'a) \<Rightarrow> json \<Rightarrow> 'a \<Rightarrow> 'a option" where
  "float64_field upd = float_field (\<lambda>q. upd (Fin q))"

definition nat_field :: "(nat \<Rightarrow> 'a \<Rightarrow> 'a) \<Rightarrow> json \<Rightarrow> 'a \<Rightarrow> 'a option" where
  "nat_field upd = int_field (\<lambda>n. upd (nat n))"

lemma float_field_json: "rat_fits q \<Longrightarrow> float_field upd (JNum (json_float q)) a = Some (upd q a)"
  using json_float_text [of q] by (simp add: rat_fits_def)

lemma float64_field_json: "float_fits x \<Longrightarrow> float64_field upd (jfloat x) a = Some (upd x a)"
  by (cases x) (simp_all add: float_fits_def float64_field_def float_field_json del: float_field.simps)

lemma jfloat_flat: "float_fits x \<Longrightarrow> flat (jfloat x) \<and> clean (jfloat x) = jfloat x"
  using json_float_text by (cases x) (simp_all add: float_fits_def rat_fits_def)

lemma json_float_flat: "rat_fits q \<Longrightarrow> flat (JNum (json_float q))"
  using json_float_text [of q] by (simp add: rat_fits_def)

section \<open>Tags\<close>

definition result_tags :: "string list" where
  "result_tags = [''event'', ''team_name'', ''submission_id'', ''test_run_id'', ''duration_ms'', ''orders_sent'',
     ''acks_recv'', ''fills_recv'', ''rejects_recv'', ''stale_orders'', ''ack_p50_us'', ''ack_p90_us'',
     ''ack_p99_us'', ''ack_p999_us'', ''ack_max_us'', ''fill_p50_us'', ''fill_p90_us'', ''fill_p99_us'',
     ''fill_p999_us'', ''fill_max_us'', ''tps'', ''correctness_score'', ''emitted_at'', ''score'', ''correctness'',
     ''timestamp'', ''type'', ''order_id'', ''reason'', ''filled_qty'', ''fill_price'', ''remaining'', ''rank'',
     ''bids'', ''asks'', ''price'', ''quantity'']"

lemma result_tags_tag: "list_all (list_all tag_char) result_tags"
  by code_simp

lemma result_tags_ok: "list_all (\<lambda>t. fold_name t = t \<and> sanitize t = t) result_tags"
  using result_tags_tag by (auto simp: list_all_iff intro!: fold_tag sanitize_tag)

lemmas tags = result_tags_ok [unfolded result_tags_def, simplified list.pred_inject]

section \<open>The metrics of a run\<close>

definition metrics_members :: "BotMetricsEvent \<Rightarrow> (string \<times> json) list" where
  "metrics_members e =
     [(''event'', JStr (e_Event e)),
      (''team_name'', JStr (e_TeamName e)),
      (''submission_id'', JStr (e_SubmissionID e)),
      (''test_run_id'', JStr (e_TestRunID e)),
      (''duration_ms'', num (sint (e_DurationMS e))),
      (''orders_sent'', num (sint (e_OrdersSent e))),
      (''acks_recv'', num (sint (e_AcksRecv e))),
      (''fills_recv'', num (sint (e_FillsRecv e))),
      (''rejects_recv'', num (sint (e_RejectsRecv e))),
      (''stale_orders'', num (sint (e_StaleOrders e))),
      (''ack_p50_us'', num (sint (e_AckP50US e))),
      (''ack_p90_us'', num (sint (e_AckP90US e))),
      (''ack_p99_us'', num (sint (e_AckP99US e))),
      (''ack_p999_us'', num (sint (e_AckP999US e))),
      (''ack_max_us'', num (sint (e_AckMaxUS e))),
      (''fill_p50_us'', num (sint (e_FillP50US e))),
      (''fill_p90_us'', num (sint (e_FillP90US e))),
      (''fill_p99_us'', num (sint (e_FillP99US e))),
      (''fill_p999_us'', num (sint (e_FillP999US e))),
      (''fill_max_us'', num (sint (e_FillMaxUS e))),
      (''tps'', jfloat (e_TPS e)),
      (''correctness_score'', jfloat (e_CorrectnessScore e)),
      (''emitted_at'', num (sint (e_EmittedAt e)))]"

text \<open>A number that is not finite cannot be encoded.\<close>

definition marshal_metrics :: "BotMetricsEvent \<Rightarrow> string option" where
  "marshal_metrics e = (if is_finite (e_TPS e) \<and> is_finite (e_CorrectnessScore e) then Some (json_print (JObj (metrics_members e))) else None)"

definition metrics_fields :: "BotMetricsEvent field list" where
  "metrics_fields =
     [(''event'', str_field (\<lambda>s. e_Event_update (\<lambda>_. s))),
      (''team_name'', str_field (\<lambda>s. e_TeamName_update (\<lambda>_. s))),
      (''submission_id'', str_field (\<lambda>s. e_SubmissionID_update (\<lambda>_. s))),
      (''test_run_id'', str_field (\<lambda>s. e_TestRunID_update (\<lambda>_. s))),
      (''duration_ms'', int64_field (\<lambda>n. e_DurationMS_update (\<lambda>_. n))),
      (''orders_sent'', int64_field (\<lambda>n. e_OrdersSent_update (\<lambda>_. n))),
      (''acks_recv'', int64_field (\<lambda>n. e_AcksRecv_update (\<lambda>_. n))),
      (''fills_recv'', int64_field (\<lambda>n. e_FillsRecv_update (\<lambda>_. n))),
      (''rejects_recv'', int64_field (\<lambda>n. e_RejectsRecv_update (\<lambda>_. n))),
      (''stale_orders'', int64_field (\<lambda>n. e_StaleOrders_update (\<lambda>_. n))),
      (''ack_p50_us'', int64_field (\<lambda>n. e_AckP50US_update (\<lambda>_. n))),
      (''ack_p90_us'', int64_field (\<lambda>n. e_AckP90US_update (\<lambda>_. n))),
      (''ack_p99_us'', int64_field (\<lambda>n. e_AckP99US_update (\<lambda>_. n))),
      (''ack_p999_us'', int64_field (\<lambda>n. e_AckP999US_update (\<lambda>_. n))),
      (''ack_max_us'', int64_field (\<lambda>n. e_AckMaxUS_update (\<lambda>_. n))),
      (''fill_p50_us'', int64_field (\<lambda>n. e_FillP50US_update (\<lambda>_. n))),
      (''fill_p90_us'', int64_field (\<lambda>n. e_FillP90US_update (\<lambda>_. n))),
      (''fill_p99_us'', int64_field (\<lambda>n. e_FillP99US_update (\<lambda>_. n))),
      (''fill_p999_us'', int64_field (\<lambda>n. e_FillP999US_update (\<lambda>_. n))),
      (''fill_max_us'', int64_field (\<lambda>n. e_FillMaxUS_update (\<lambda>_. n))),
      (''tps'', float64_field (\<lambda>q. e_TPS_update (\<lambda>_. q))),
      (''correctness_score'', float64_field (\<lambda>q. e_CorrectnessScore_update (\<lambda>_. q))),
      (''emitted_at'', int64_field (\<lambda>n. e_EmittedAt_update (\<lambda>_. n)))]"

definition no_metrics :: BotMetricsEvent where
  "no_metrics = \<lparr>e_Event = [], e_TeamName = [], e_SubmissionID = [], e_TestRunID = [], e_DurationMS = 0,
     e_OrdersSent = 0, e_AcksRecv = 0, e_FillsRecv = 0, e_RejectsRecv = 0, e_StaleOrders = 0, e_AckP50US = 0,
     e_AckP90US = 0, e_AckP99US = 0, e_AckP999US = 0, e_AckMaxUS = 0, e_FillP50US = 0, e_FillP90US = 0, e_FillP99US
     = 0, e_FillP999US = 0, e_FillMaxUS = 0, e_TPS = Fin 0, e_CorrectnessScore = Fin 0, e_EmittedAt = 0\<rparr>"

section \<open>The entries of the leaderboard\<close>

definition entry_members :: "leaderboardEntry \<Rightarrow> (string \<times> json) list" where
  "entry_members e =
     [(''submission_id'', JStr (le_SubmissionID e)),
      (''team_name'', JStr (le_TeamName e)),
      (''score'', jfloat (le_Score e)),
      (''tps'', jfloat (le_TPS e)),
      (''ack_p50_us'', num (sint (le_AckP50US e))),
      (''ack_p90_us'', num (sint (le_AckP90US e))),
      (''ack_p99_us'', num (sint (le_AckP99US e))),
      (''orders_sent'', num (sint (le_OrdersSent e))),
      (''rejects_recv'', num (sint (le_RejectsRecv e))),
      (''correctness'', jfloat (le_Correctness e)),
      (''duration_ms'', num (sint (le_DurationMS e))),
      (''timestamp'', JStr (le_Timestamp e))]"

definition marshal_entry :: "leaderboardEntry \<Rightarrow> string option" where
  "marshal_entry e = (case json_Marshal_entry e of Inl _ \<Rightarrow> None | Inr p \<Rightarrow> Some (json_print (JObj (entry_members p))))"

definition board_fields :: "boardEntry field list" where
  "board_fields =
     [(''submission_id'', str_field (\<lambda>s. le_SubmissionID_update (\<lambda>_. s))),
      (''team_name'', str_field (\<lambda>s. le_TeamName_update (\<lambda>_. s))),
      (''score'', float64_field (\<lambda>q. le_Score_update (\<lambda>_. q))),
      (''tps'', float64_field (\<lambda>q. le_TPS_update (\<lambda>_. q))),
      (''ack_p50_us'', int64_field (\<lambda>n. le_AckP50US_update (\<lambda>_. n))),
      (''ack_p90_us'', int64_field (\<lambda>n. le_AckP90US_update (\<lambda>_. n))),
      (''ack_p99_us'', int64_field (\<lambda>n. le_AckP99US_update (\<lambda>_. n))),
      (''orders_sent'', int64_field (\<lambda>n. le_OrdersSent_update (\<lambda>_. n))),
      (''rejects_recv'', int64_field (\<lambda>n. le_RejectsRecv_update (\<lambda>_. n))),
      (''correctness'', float64_field (\<lambda>q. le_Correctness_update (\<lambda>_. q))),
      (''duration_ms'', int64_field (\<lambda>n. le_DurationMS_update (\<lambda>_. n))),
      (''timestamp'', str_field (\<lambda>s. le_Timestamp_update (\<lambda>_. s))),
      (''rank'', nat_field (\<lambda>n. le_Rank_update (\<lambda>_. n)))]"

definition no_board :: boardEntry where
  "no_board = \<lparr>le_SubmissionID = [], le_TeamName = [], le_Score = Fin 0, le_TPS = Fin 0, le_AckP50US = 0,
     le_AckP90US = 0, le_AckP99US = 0, le_OrdersSent = 0, le_RejectsRecv = 0, le_Correctness = Fin 0, le_DurationMS
     = 0, le_Timestamp = [], le_Rank = 0\<rparr>"

section \<open>The replies of the engine\<close>

fun out_members :: "OutMessage \<Rightarrow> (string \<times> json) list" where
  "out_members (Ack m) =
     [(''type'', JStr (a_Type m)), (''order_id'', JStr (a_OrderID m)), (''timestamp'', num (a_Timestamp m))]"
| "out_members (Fill m) =
     [(''type'', JStr (f_Type m)), (''order_id'', JStr (f_OrderID m)), (''filled_qty'', num (sint (f_FilledQty m))),
      (''fill_price'', JNum (json_float (f_FillPrice m))), (''remaining'', num (sint (f_Remaining m))),
      (''timestamp'', num (f_Timestamp m))]"
| "out_members (CancelAck m) =
     [(''type'', JStr (c_Type m)), (''order_id'', JStr (c_OrderID m)), (''timestamp'', num (c_Timestamp m))]"
| "out_members (Reject m) =
     [(''type'', JStr (j_Type m)), (''order_id'', JStr (j_OrderID m)), (''reason'', JStr (j_Reason m)),
      (''timestamp'', num (j_Timestamp m))]"

definition out_text :: "OutMessage \<Rightarrow> string" where
  "out_text m = json_encode (JObj (out_members m))"

definition bot_fields :: "BotMessage field list" where
  "bot_fields =
     [(''type'', str_field (\<lambda>s. bm_Type_update (\<lambda>_. s))),
      (''order_id'', str_field (\<lambda>s. bm_OrderID_update (\<lambda>_. s))),
      (''reason'', str_field (\<lambda>s. bm_Reason_update (\<lambda>_. s))),
      (''filled_qty'', int64_field (\<lambda>n. bm_FilledQty_update (\<lambda>_. n))),
      (''fill_price'', float_field (\<lambda>q. bm_FillPrice_update (\<lambda>_. q))),
      (''remaining'', int64_field (\<lambda>n. bm_Remaining_update (\<lambda>_. n))),
      (''timestamp'', int_field (\<lambda>n. bm_Timestamp_update (\<lambda>_. n)))]"

definition no_bot :: BotMessage where
  "no_bot = \<lparr>bm_Type = [], bm_OrderID = [], bm_Reason = [], bm_FilledQty = 0, bm_FillPrice = 0, bm_Remaining
     = 0, bm_Timestamp = 0\<rparr>"

section \<open>Fields by tag\<close>

lemma field_of_metrics: "fold_name key = key \<Longrightarrow> field_of metrics_fields key = map_of metrics_fields key"
  by (rule field_of_tag) (simp_all add: metrics_fields_def tags)

lemma metrics_lookup:
  "field_of metrics_fields ''event'' = Some (str_field (\<lambda>s. e_Event_update (\<lambda>_. s)))"
  "field_of metrics_fields ''team_name'' = Some (str_field (\<lambda>s. e_TeamName_update (\<lambda>_. s)))"
  "field_of metrics_fields ''submission_id'' = Some (str_field (\<lambda>s. e_SubmissionID_update (\<lambda>_. s)))"
  "field_of metrics_fields ''test_run_id'' = Some (str_field (\<lambda>s. e_TestRunID_update (\<lambda>_. s)))"
  "field_of metrics_fields ''duration_ms'' = Some (int64_field (\<lambda>n. e_DurationMS_update (\<lambda>_. n)))"
  "field_of metrics_fields ''orders_sent'' = Some (int64_field (\<lambda>n. e_OrdersSent_update (\<lambda>_. n)))"
  "field_of metrics_fields ''acks_recv'' = Some (int64_field (\<lambda>n. e_AcksRecv_update (\<lambda>_. n)))"
  "field_of metrics_fields ''fills_recv'' = Some (int64_field (\<lambda>n. e_FillsRecv_update (\<lambda>_. n)))"
  "field_of metrics_fields ''rejects_recv'' = Some (int64_field (\<lambda>n. e_RejectsRecv_update (\<lambda>_. n)))"
  "field_of metrics_fields ''stale_orders'' = Some (int64_field (\<lambda>n. e_StaleOrders_update (\<lambda>_. n)))"
  "field_of metrics_fields ''ack_p50_us'' = Some (int64_field (\<lambda>n. e_AckP50US_update (\<lambda>_. n)))"
  "field_of metrics_fields ''ack_p90_us'' = Some (int64_field (\<lambda>n. e_AckP90US_update (\<lambda>_. n)))"
  "field_of metrics_fields ''ack_p99_us'' = Some (int64_field (\<lambda>n. e_AckP99US_update (\<lambda>_. n)))"
  "field_of metrics_fields ''ack_p999_us'' = Some (int64_field (\<lambda>n. e_AckP999US_update (\<lambda>_. n)))"
  "field_of metrics_fields ''ack_max_us'' = Some (int64_field (\<lambda>n. e_AckMaxUS_update (\<lambda>_. n)))"
  "field_of metrics_fields ''fill_p50_us'' = Some (int64_field (\<lambda>n. e_FillP50US_update (\<lambda>_. n)))"
  "field_of metrics_fields ''fill_p90_us'' = Some (int64_field (\<lambda>n. e_FillP90US_update (\<lambda>_. n)))"
  "field_of metrics_fields ''fill_p99_us'' = Some (int64_field (\<lambda>n. e_FillP99US_update (\<lambda>_. n)))"
  "field_of metrics_fields ''fill_p999_us'' = Some (int64_field (\<lambda>n. e_FillP999US_update (\<lambda>_. n)))"
  "field_of metrics_fields ''fill_max_us'' = Some (int64_field (\<lambda>n. e_FillMaxUS_update (\<lambda>_. n)))"
  "field_of metrics_fields ''tps'' = Some (float64_field (\<lambda>q. e_TPS_update (\<lambda>_. q)))"
  "field_of metrics_fields ''correctness_score'' = Some (float64_field (\<lambda>q. e_CorrectnessScore_update (\<lambda>_. q)))"
  "field_of metrics_fields ''emitted_at'' = Some (int64_field (\<lambda>n. e_EmittedAt_update (\<lambda>_. n)))"
  by (simp_all add: field_of_metrics tags) (simp_all add: metrics_fields_def)

lemma field_of_board: "fold_name key = key \<Longrightarrow> field_of board_fields key = map_of board_fields key"
  by (rule field_of_tag) (simp_all add: board_fields_def tags)

lemma board_lookup:
  "field_of board_fields ''submission_id'' = Some (str_field (\<lambda>s. le_SubmissionID_update (\<lambda>_. s)))"
  "field_of board_fields ''team_name'' = Some (str_field (\<lambda>s. le_TeamName_update (\<lambda>_. s)))"
  "field_of board_fields ''score'' = Some (float64_field (\<lambda>q. le_Score_update (\<lambda>_. q)))"
  "field_of board_fields ''tps'' = Some (float64_field (\<lambda>q. le_TPS_update (\<lambda>_. q)))"
  "field_of board_fields ''ack_p50_us'' = Some (int64_field (\<lambda>n. le_AckP50US_update (\<lambda>_. n)))"
  "field_of board_fields ''ack_p90_us'' = Some (int64_field (\<lambda>n. le_AckP90US_update (\<lambda>_. n)))"
  "field_of board_fields ''ack_p99_us'' = Some (int64_field (\<lambda>n. le_AckP99US_update (\<lambda>_. n)))"
  "field_of board_fields ''orders_sent'' = Some (int64_field (\<lambda>n. le_OrdersSent_update (\<lambda>_. n)))"
  "field_of board_fields ''rejects_recv'' = Some (int64_field (\<lambda>n. le_RejectsRecv_update (\<lambda>_. n)))"
  "field_of board_fields ''correctness'' = Some (float64_field (\<lambda>q. le_Correctness_update (\<lambda>_. q)))"
  "field_of board_fields ''duration_ms'' = Some (int64_field (\<lambda>n. le_DurationMS_update (\<lambda>_. n)))"
  "field_of board_fields ''timestamp'' = Some (str_field (\<lambda>s. le_Timestamp_update (\<lambda>_. s)))"
  "field_of board_fields ''rank'' = Some (nat_field (\<lambda>n. le_Rank_update (\<lambda>_. n)))"
  by (simp_all add: field_of_board tags) (simp_all add: board_fields_def)

lemma field_of_bot: "fold_name key = key \<Longrightarrow> field_of bot_fields key = map_of bot_fields key"
  by (rule field_of_tag) (simp_all add: bot_fields_def tags)

lemma bot_lookup:
  "field_of bot_fields ''type'' = Some (str_field (\<lambda>s. bm_Type_update (\<lambda>_. s)))"
  "field_of bot_fields ''order_id'' = Some (str_field (\<lambda>s. bm_OrderID_update (\<lambda>_. s)))"
  "field_of bot_fields ''reason'' = Some (str_field (\<lambda>s. bm_Reason_update (\<lambda>_. s)))"
  "field_of bot_fields ''filled_qty'' = Some (int64_field (\<lambda>n. bm_FilledQty_update (\<lambda>_. n)))"
  "field_of bot_fields ''fill_price'' = Some (float_field (\<lambda>q. bm_FillPrice_update (\<lambda>_. q)))"
  "field_of bot_fields ''remaining'' = Some (int64_field (\<lambda>n. bm_Remaining_update (\<lambda>_. n)))"
  "field_of bot_fields ''timestamp'' = Some (int_field (\<lambda>n. bm_Timestamp_update (\<lambda>_. n)))"
  by (simp_all add: field_of_bot tags) (simp_all add: bot_fields_def)

section \<open>What comes through\<close>

definition repaired_metrics :: "BotMetricsEvent \<Rightarrow> BotMetricsEvent" where
  "repaired_metrics e = e\<lparr>e_Event := sanitize (e_Event e), e_TeamName := sanitize (e_TeamName e),
     e_SubmissionID := sanitize (e_SubmissionID e), e_TestRunID := sanitize (e_TestRunID e)\<rparr>"

definition repaired_entry :: "leaderboardEntry \<Rightarrow> leaderboardEntry" where
  "repaired_entry e = e\<lparr>le_SubmissionID := sanitize (le_SubmissionID e), le_TeamName := sanitize (le_TeamName e),
     le_Timestamp := sanitize (le_Timestamp e)\<rparr>"

lemma fits_finite: "float_fits x \<Longrightarrow> is_finite x"
  by (cases x) (simp_all add: float_fits_def is_finite_def)

lemma metrics_read:
  assumes "float_fits (e_TPS e)" "float_fits (e_CorrectnessScore e)" and "marshal_metrics e = Some t"
  shows "unmarshal metrics_fields no_metrics t = Some (repaired_metrics e)"
proof -
  have t: "t = json_print (JObj (metrics_members e))"
    using assms(3) by (simp add: marshal_metrics_def split: if_splits del: json_print.simps)
  have "list_all (\<lambda>(k, v). flat v) (metrics_members e)" using assms jfloat_flat by (simp add: metrics_members_def)
  moreover have "read_fields metrics_fields (map (\<lambda>(k, v). (sanitize k, clean v)) (metrics_members e)) no_metrics = Some (repaired_metrics e)"
    using jfloat_flat [OF assms(1)] jfloat_flat [OF assms(2)]
    by (simp add: metrics_members_def tags metrics_lookup float64_field_json assms no_metrics_def repaired_metrics_def)
  ultimately show ?thesis unfolding t by (simp only: unmarshal_flat)
qed

lemma entry_read:
  assumes "float_fits (le_Score e)" "float_fits (le_TPS e)" "float_fits (le_Correctness e)" and "marshal_entry e = Some t"
  shows "unmarshal board_fields no_board t = Some (ranked_entry (repaired_entry e) 0)"
proof -
  have t: "t = json_print (JObj (entry_members e))"
    using assms(4) by (simp add: marshal_entry_def json_Marshal_entry_def split: if_splits del: json_print.simps)
  have "list_all (\<lambda>(k, v). flat v) (entry_members e)" using assms jfloat_flat by (simp add: entry_members_def)
  moreover have "read_fields board_fields (map (\<lambda>(k, v). (sanitize k, clean v)) (entry_members e)) no_board = Some (ranked_entry (repaired_entry e) 0)"
    using jfloat_flat [OF assms(1)] jfloat_flat [OF assms(2)] jfloat_flat [OF assms(3)]
    by (simp add: entry_members_def tags board_lookup float64_field_json assms no_board_def repaired_entry_def
        ranked_entry_def leaderboardEntry.defs boardEntry.defs)
  ultimately show ?thesis unfolding t by (simp only: unmarshal_flat)
qed

fun out_fits :: "OutMessage \<Rightarrow> bool" where
  "out_fits (Fill m) \<longleftrightarrow> rat_fits (f_FillPrice m) \<and> int_ok (f_Timestamp m)"
| "out_fits m \<longleftrightarrow> int_ok (out_Timestamp m)"

fun repaired_out :: "OutMessage \<Rightarrow> OutMessage" where
  "repaired_out (Ack m) = Ack (m\<lparr>a_Type := sanitize (a_Type m), a_OrderID := sanitize (a_OrderID m)\<rparr>)"
| "repaired_out (Fill m) = Fill (m\<lparr>f_Type := sanitize (f_Type m), f_OrderID := sanitize (f_OrderID m)\<rparr>)"
| "repaired_out (CancelAck m) = CancelAck (m\<lparr>c_Type := sanitize (c_Type m), c_OrderID := sanitize (c_OrderID m)\<rparr>)"
| "repaired_out (Reject m) = Reject (m\<lparr>j_Type := sanitize (j_Type m), j_OrderID := sanitize (j_OrderID m), j_Reason := sanitize (j_Reason m)\<rparr>)"

lemma out_read:
  assumes "out_fits m"
  shows "unmarshal bot_fields no_bot (out_text m) = Some (to_bot (repaired_out m))"
proof -
  have "list_all (\<lambda>(k, v). flat v) (out_members m)"
    using assms json_float_flat by (cases m) auto
  moreover have "read_fields bot_fields (map (\<lambda>(k, v). (sanitize k, clean v)) (out_members m)) no_bot = Some (to_bot (repaired_out m))"
    using assms by (cases m) (simp_all add: tags bot_lookup float_field_json no_bot_def del: float_field.simps)
  ultimately show ?thesis unfolding out_text_def by (simp only: unmarshal_encoded)
qed

lemma clamp_fits: "float_fits x \<Longrightarrow> float_fits (clamp01 x)"
proof -
  have u: "rat_fits 0" "rat_fits 1" by code_simp+
  show "float_fits x \<Longrightarrow> float_fits (clamp01 x)"
    by (cases x) (auto simp: float_fits_def max_def min_def u)
qed

text \<open>
  C18. The numbers of a run survive both of their wires. Metrics with finite rates are marshalled by the
  runner, and the ingester decodes from the text the very same counts and the very same float64s; the entry
  it stores for them, with whatever finite score, is marshalled in turn and decoded by the leaderboard into the entry it
  shows. No digit of a float64 is lost, because the shortest decimal that Go prints reads back as the same number.
\<close>

theorem metrics_texts:
  assumes e: "float_fits (e_TPS e)" "float_fits (e_CorrectnessScore e)" and s: "float_fits score"
  shows "\<exists>t u. marshal_metrics e = Some t \<and> unmarshal metrics_fields no_metrics t = Some (repaired_metrics e) \<and>
    marshal_entry (make_entry ts (repaired_metrics e) score) = Some u \<and>
    unmarshal board_fields no_board u = Some (ranked_entry (repaired_entry (make_entry ts (repaired_metrics e) score)) 0)"
proof -
  let ?en = "make_entry ts (repaired_metrics e) score"
  have f: "float_fits (le_Score ?en)" "float_fits (le_TPS ?en)" "float_fits (le_Correctness ?en)"
    using assms clamp_fits by (simp_all add: make_entry_def repaired_metrics_def)
  obtain t where t: "marshal_metrics e = Some t" using fits_finite [OF e(1)] fits_finite [OF e(2)] by (simp add: marshal_metrics_def)
  obtain u where u: "marshal_entry ?en = Some u" using f [THEN fits_finite] by (simp add: marshal_entry_def json_Marshal_entry_def)
  show ?thesis using metrics_read [OF e t] entry_read [OF f u] t u by blast
qed

lemma half_fits: "rat_fits (1 / 2)"
  by code_simp

definition demo_metrics :: BotMetricsEvent where
  "demo_metrics = no_metrics\<lparr>e_Event := ''bot.metrics'', e_SubmissionID := ''s'', e_TPS := Fin (1 / 2), e_CorrectnessScore := Fin (1 / 2)\<rparr>"

theorem metrics_texts_witness:
  "float_fits (e_TPS demo_metrics) \<and> (\<exists>t u. marshal_metrics demo_metrics = Some t \<and>
     unmarshal metrics_fields no_metrics t = Some (repaired_metrics demo_metrics) \<and>
     marshal_entry (make_entry ''now'' (repaired_metrics demo_metrics) (Fin (1 / 2))) = Some u \<and>
     unmarshal board_fields no_board u = Some (ranked_entry (repaired_entry (make_entry ''now'' (repaired_metrics demo_metrics) (Fin (1 / 2)))) 0))"
proof -
  have f: "float_fits (e_TPS demo_metrics)" "float_fits (e_CorrectnessScore demo_metrics)" "float_fits (Fin (1 / 2))"
    by (simp_all add: demo_metrics_def float_fits_def half_fits)
  show ?thesis using metrics_texts [OF f, of "''now''"] f(1) by simp
qed

end
