(* ===== verification/Book_Query.thy ===== *)
theory Book_Query
  imports Wire_Results Routes Book_Inv
begin

text \<open>
  How the correctness bot asks the engine for its book: the address it derives from that of the
  websocket, the engine's page and what the bot counts on it (\<open>NewCorrectnessBot\<close> and \<open>queryOrderbook\<close> of
  \<open>correctness_bot.go\<close>, \<open>orderbookHandler\<close> of the stub).
\<close>

section \<open>Addresses\<close>

text \<open>\<open>strings.Replace(s, old, new, 1)\<close> and \<open>strings.TrimSuffix\<close>.\<close>

function (sequential) replace_once :: "string \<Rightarrow> string \<Rightarrow> string \<Rightarrow> string" where
  "replace_once old new [] = (if old = [] then new else [])"
| "replace_once old new (c # cs) =
     (if prefix old (c # cs) then new @ drop (length old) (c # cs) else c # replace_once old new cs)"
  by pat_completeness auto
termination by (relation "measure (\<lambda>(_, _, s). length s)") auto

definition TrimSuffix :: "string \<Rightarrow> string \<Rightarrow> string" where
  "TrimSuffix s suf = (if suffix suf s then take (length s - length suf) s else s)"

record CorrectnessBot =
  cb_endpoint :: string
  cb_httpBase :: string

definition NewCorrectnessBot :: "string \<Rightarrow> CorrectnessBot" where
  "NewCorrectnessBot wsEndpoint =
     \<lparr>cb_endpoint = wsEndpoint, cb_httpBase = TrimSuffix (replace_once ''ws://'' ''http://'' wsEndpoint) ''/stream''\<rparr>"

definition orderbook_url :: "CorrectnessBot \<Rightarrow> string" where
  "orderbook_url cb = cb_httpBase cb @ ''/orderbook''"

lemma base_of_stream: "cb_httpBase (NewCorrectnessBot (''ws://'' @ host @ ''/stream'')) = ''http://'' @ host"
proof -
  have "replace_once ''ws://'' ''http://'' (''ws://'' @ host @ ''/stream'') = ''http://'' @ host @ ''/stream''" by simp
  moreover have "TrimSuffix (x @ ''/stream'') ''/stream'' = x" for x by (simp add: TrimSuffix_def suffix_def)
  from this [of "''http://'' @ host"] have "TrimSuffix (''http://'' @ host @ ''/stream'') ''/stream'' = ''http://'' @ host" by simp
  ultimately show ?thesis unfolding NewCorrectnessBot_def by simp
qed

section \<open>The page\<close>

definition level_json :: "PriceLevel \<Rightarrow> json" where
  "level_json l = JObj [(''price'', JNum (json_float (l_Price l))), (''quantity'', num (sint (l_Quantity l)))]"

definition snapshot_json :: "SnapshotResponse \<Rightarrow> json" where
  "snapshot_json s = JObj
     [(''bids'', JArr (map level_json (snap_Bids s))), (''asks'', JArr (map level_json (snap_Asks s))),
      (''timestamp'', num (snap_Timestamp s))]"

section \<open>The query\<close>

fun raw_list_field :: "(nat \<Rightarrow> 'a \<Rightarrow> 'a) \<Rightarrow> json \<Rightarrow> 'a \<Rightarrow> 'a option" where
  "raw_list_field upd JNull a = Some (upd 0 a)"
| "raw_list_field upd (JArr vs) a = Some (upd (length vs) a)"
| "raw_list_field upd _ a = None"

definition snap_fields :: "(nat \<times> nat) field list" where
  "snap_fields = [(''bids'', raw_list_field (\<lambda>n (b, a). (n, a))), (''asks'', raw_list_field (\<lambda>n (b, a). (b, n)))]"

text \<open>The response is \<open>None\<close> when the request failed, otherwise its status and its body.\<close>

definition queryOrderbook :: "(nat \<times> string) option \<Rightarrow> (int \<times> int) option" where
  "queryOrderbook resp =
     (case resp of None \<Rightarrow> None
      | Some (status, body) \<Rightarrow>
          if status \<noteq> 200 then None
          else (case json_decode body of None \<Rightarrow> None
                | Some v \<Rightarrow> (case read_struct snap_fields (0, 0) v of None \<Rightarrow> None
                             | Some (b, a) \<Rightarrow> Some (int b, int a))))"

definition level_fits :: "PriceLevel \<Rightarrow> bool" where
  "level_fits l \<longleftrightarrow> rat_fits (l_Price l)"

lemma clean_level: "level_fits l \<Longrightarrow> printable_json (level_json l) \<and> nests 1 (level_json l)"
  using json_float_flat [of "l_Price l"] dec_number_text
  by (auto simp: level_fits_def level_json_def num_def)

lemma snap_lookup:
  "field_of snap_fields ''bids'' = Some (raw_list_field (\<lambda>n (b, a). (n, a)))"
  "field_of snap_fields ''asks'' = Some (raw_list_field (\<lambda>n (b, a). (b, n)))"
  "field_of snap_fields ''timestamp'' = None"
proof -
  have "field_of snap_fields key = map_of snap_fields key" if "fold_name key = key" for key
    using that by (rule field_of_tag [rotated]) (simp add: snap_fields_def tags)
  then show "field_of snap_fields ''bids'' = Some (raw_list_field (\<lambda>n (b, a). (n, a)))"
    "field_of snap_fields ''asks'' = Some (raw_list_field (\<lambda>n (b, a). (b, n)))"
    "field_of snap_fields ''timestamp'' = None"
    by (simp_all only: tags) (simp_all add: snap_fields_def)
qed

lemma query_counts:
  assumes "list_all level_fits (snap_Bids s)" "list_all level_fits (snap_Asks s)"
  shows "queryOrderbook (Some (200, json_encode (snapshot_json s))) = Some (int (length (snap_Bids s)), int (length (snap_Asks s)))"
proof -
  have l: "list_all printable_json (map level_json ls) \<and> list_all (nests (Suc n)) (map level_json ls)" if "list_all level_fits ls" for ls n
    using that clean_level by (auto simp: list_all_iff level_json_def num_def)
  have "printable_json (snapshot_json s)" "nests max_depth (snapshot_json s)"
    using l [OF assms(1), of 9997] l [OF assms(2), of 9997] dec_number_text
    by (simp_all add: snapshot_json_def num_def max_depth_def) 
  from parse_encode [OF this] have "json_decode (json_encode (snapshot_json s)) = Some (clean (snapshot_json s))"
    by (rule decode_parse)
  then show ?thesis
    by (simp add: queryOrderbook_def snapshot_json_def read_struct_def tags snap_lookup)
qed

lemma query_failures:
  "queryOrderbook None = None" "status \<noteq> 200 \<Longrightarrow> queryOrderbook (Some (status, body)) = None"
  "json_decode body = None \<Longrightarrow> queryOrderbook (Some (200, body)) = None"
  by (simp_all add: queryOrderbook_def)

section \<open>The bot's query against the stub\<close>

text \<open>
  The address of the query leads to the page of the book: the path after a host is that of the route.
\<close>

definition url_path :: "string \<Rightarrow> string" where
  "url_path url = dropWhile (\<lambda>c. c \<noteq> CHR ''/'') (drop 7 url)"

lemma query_route:
  assumes "CHR ''/'' \<notin> set host"
  shows "ServeMux stub_routes ''GET'' (url_path (orderbook_url (NewCorrectnessBot (''ws://'' @ host @ ''/stream'')))) = Routed StubOrderbook"
proof -
  have "dropWhile (\<lambda>c. c \<noteq> CHR ''/'') (host @ ''/orderbook'') = ''/orderbook''"
    using assms by (induction host) auto
  then have u: "url_path (orderbook_url (NewCorrectnessBot (''ws://'' @ host @ ''/stream''))) = ''/orderbook''"
    unfolding orderbook_url_def base_of_stream url_path_def by simp
  have p: "path_parts ''/orderbook'' = [''orderbook'']" by (simp add: path_parts_def Split_no_sep)
  then have "clean_path ''/orderbook''" "path_segments ''/orderbook'' = [''orderbook'']"
    by (simp_all add: clean_path_def path_segments_def)
  then show ?thesis unfolding u by (simp add: stub_served getting_def)
qed

text \<open>The page of the stub for a book and a clock, and the levels that must fit a float64.\<close>

definition stub_page_text :: "Orderbook \<Rightarrow> Clock \<Rightarrow> string" where
  "stub_page_text ob clk =
     json_encode (snapshot_json (fst (orderbookHandler (side_prices Bids ob) (side_prices Asks ob) ob clk)))"

definition book_fits :: "Orderbook \<Rightarrow> bool" where
  "book_fits ob \<longleftrightarrow> list_all (\<lambda>a. rat_fits (o_Price (mem ob a))) (bids ob @ asks ob)"

lemma levels_fit: "book_fits ob \<Longrightarrow> list_all level_fits (price_levels sd (side_prices sd ob) ob)"
  by (cases sd) (auto simp: book_fits_def list_all_iff price_levels_def Let_def side_prices_def level_fits_def)

text \<open>
  C17. What the engine says is what the bots read. Every message of the engine (acknowledgement, fill, reject,
  cancellation) whose price is a float64 and whose timestamp is an int64 is decoded by the bot's struct into the message of the model, and the page of the
  book that the engine serves is counted by queryOrderbook as the model's peer counts it: as many bids and
  asks as the snapshot has levels.
\<close>

theorem engine_texts:
  assumes "out_fits m" and "book_fits (sp_book e)"
  shows "unmarshal bot_fields no_bot (out_text m) = Some (to_bot (repaired_out m)) \<and>
    queryOrderbook (Some (200, stub_page_text (sp_book e) (sp_clock e))) = fst (peer_query stub_peer e)"
proof -
  let ?s = "fst (orderbookHandler (side_prices Bids (sp_book e)) (side_prices Asks (sp_book e)) (sp_book e) (sp_clock e))"
  have "list_all level_fits (snap_Bids ?s)" "list_all level_fits (snap_Asks ?s)"
    using levels_fit [OF assms(2)] by (simp_all add: orderbookHandler_def Let_def split: prod.split)
  then have "queryOrderbook (Some (200, stub_page_text (sp_book e) (sp_clock e))) = Some (int (length (snap_Bids ?s)), int (length (snap_Asks ?s)))"
    unfolding stub_page_text_def by (rule query_counts)
  then show ?thesis using out_read [OF assms(1)] by (simp add: stub_peer_def split: prod.split)
qed

definition demo_fill :: OutMessage where
  "demo_fill = Fill \<lparr>f_Type = ''fill'', f_OrderID = ''b1'', f_FilledQty = 3, f_FillPrice = 1 / 2, f_Remaining = 0, f_Timestamp = 7\<rparr>"

theorem engine_texts_witness:
  "out_fits demo_fill \<and> unmarshal bot_fields no_bot (out_text demo_fill) = Some (to_bot (repaired_out demo_fill)) \<and>
    queryOrderbook (Some (200, stub_page_text (sp_book (stub_start (\<lambda>_. 5))) (sp_clock (stub_start (\<lambda>_. 5))))) =
      fst (peer_query stub_peer (stub_start (\<lambda>_. 5)))"
proof -
  have m: "out_fits demo_fill" by (simp add: demo_fill_def half_fits int_ok_def)
  have "book_fits (sp_book (stub_start (\<lambda>_. 5)))" by (simp add: book_fits_def stub_start_def NewOrderbook_eq)
  from engine_texts [OF m this] m show ?thesis by simp
qed

end
