(* ===== verification/Board_Process.thy ===== *)
theory Board_Process
  imports Hub Routes
begin

text \<open>
  The leaderboard service as a process: \<open>run\<close> of \<open>src/services/leaderboard-ws/main.go\<close>, from the start of
  the hub to the end after a signal. Connections of browsers are hijacked from the HTTP server, so that
  \<open>Shutdown\<close> waits for plain requests only.
\<close>

text \<open>Where \<open>run\<close> stands after it has started the server.\<close>

datatype board_pc = Listening | Quitting | Closing | Drained | Ended "string option"

record 'm BoardProcess =
  bd_hub :: "'m Hub"
  bd_redis :: bool
  bd_requests :: nat
  bd_signalled :: bool
  bd_pc :: board_pc

definition board_start :: "'m BoardProcess" where
  "board_start = \<lparr>bd_hub = newHub, bd_redis = True, bd_requests = 0, bd_signalled = False, bd_pc = Listening\<rparr>"

definition refusing :: "'m BoardProcess \<Rightarrow> bool" where
  "refusing p \<longleftrightarrow> bd_pc p = Closing \<or> bd_pc p = Drained"

definition ended :: "'m BoardProcess \<Rightarrow> bool" where
  "ended p \<longleftrightarrow> (\<exists>e. bd_pc p = Ended e)"

text \<open>\<open>close(hub.quitCh)\<close>, and the return of \<open>run\<close> with its deferred close of the Redis client.\<close>

definition board_quit :: "'m BoardProcess \<Rightarrow> 'm BoardProcess" where
  "board_quit p = p\<lparr>bd_hub := (bd_hub p)\<lparr>quitCh := True\<rparr>, bd_pc := Closing\<rparr>"

definition board_return :: "string option \<Rightarrow> 'm BoardProcess \<Rightarrow> 'm BoardProcess" where
  "board_return e p = p\<lparr>bd_redis := False, bd_pc := Ended e\<rparr>"

inductive board_step :: "'m BoardProcess \<Rightarrow> 'm BoardProcess \<Rightarrow> bool" where
  bd_work: "\<not> ended p \<Longrightarrow> hub_step (bd_hub p) h \<Longrightarrow> quitCh h = quitCh (bd_hub p) \<Longrightarrow>
     (refusing p \<Longrightarrow> dom (conns h) = dom (conns (bd_hub p))) \<Longrightarrow> board_step p (p\<lparr>bd_hub := h\<rparr>)"
| bd_request: "\<not> ended p \<Longrightarrow> \<not> refusing p \<Longrightarrow> board_step p (p\<lparr>bd_requests := Suc (bd_requests p)\<rparr>)"
| bd_answer: "\<not> ended p \<Longrightarrow> 0 < bd_requests p \<Longrightarrow> board_step p (p\<lparr>bd_requests := bd_requests p - 1\<rparr>)"
| bd_signal: "\<not> ended p \<Longrightarrow> board_step p (p\<lparr>bd_signalled := True\<rparr>)"
| bd_wake: "bd_pc p = Listening \<Longrightarrow> bd_signalled p \<Longrightarrow> board_step p (p\<lparr>bd_pc := Quitting\<rparr>)"
| bd_quit: "bd_pc p = Quitting \<Longrightarrow> board_step p (board_quit p)"
| bd_drain: "bd_pc p = Closing \<Longrightarrow> bd_requests p = 0 \<Longrightarrow> board_step p (p\<lparr>bd_pc := Drained\<rparr>)"
| bd_expire: "bd_pc p = Closing \<Longrightarrow> board_step p (board_return (Some (''http server shutdown: '' @ e)) p)"
| bd_return: "bd_pc p = Drained \<Longrightarrow> board_step p (board_return None p)"

inductive_cases board_stepE: "board_step p q"

definition board_initial :: "'m BoardProcess \<Rightarrow> bool" where
  "board_initial p \<longleftrightarrow> p = board_start"

abbreviation board_reachable :: "'m BoardProcess \<Rightarrow> bool" where
  "board_reachable \<equiv> reach board_initial board_step"

text \<open>
  The hub's states are those of the hub's own system; its loop is told to stop once, before the server
  refuses; the Redis client is open until the end.
\<close>

definition board_inv :: "'m BoardProcess \<Rightarrow> bool" where
  "board_inv p \<longleftrightarrow> hub_reachable (bd_hub p) \<and> quitCh (bd_hub p) = (bd_pc p \<noteq> Listening \<and> bd_pc p \<noteq> Quitting) \<and>
     (bd_pc p \<noteq> Listening \<longrightarrow> bd_signalled p) \<and> bd_redis p = (\<not> ended p) \<and> (bd_pc p = Drained \<longrightarrow> bd_requests p = 0)"

lemma hub_reach_step: "hub_reachable h \<Longrightarrow> hub_step h h' \<Longrightarrow> hub_reachable h'"
  by (rule reach_step)

interpretation board: system_invariant board_initial board_step board_inv
proof unfold_locales
  show "board_inv p" if "board_initial p" for p :: "'m BoardProcess"
    using that by (auto simp: board_initial_def board_start_def board_inv_def ended_def newHub_def
        intro!: reach_init simp: hub_init_def)
  show "board_inv q" if "board_inv p" "board_step p q" for p q :: "'m BoardProcess"
    using that(2,1)
    by cases
      (auto simp: board_inv_def ended_def refusing_def board_quit_def board_return_def
        intro: hub_reach_step hub_shutdown)
qed

text \<open>
  Until the end the hub is one of its own reachable states, so nothing panics: the quit channel is closed
  once. The end comes only after a signal, with the loop told to stop and the Redis client closed.
\<close>

lemma board_safe:
  assumes "board_reachable p"
  shows "\<not> panicked (bd_hub p) \<and> (ended p \<longrightarrow> bd_signalled p \<and> quitCh (bd_hub p) \<and> \<not> bd_redis p) \<and>
    (\<not> ended p \<longrightarrow> bd_redis p)"
proof -
  have inv: "board_inv p" using assms by (rule board.inv_reach)
  then have "hub_inv (bd_hub p)" unfolding board_inv_def by (blast dest: hub.inv_reach)
  then show ?thesis using inv by (auto simp: hub_inv_def board_inv_def ended_def)
qed

text \<open>
  An orderly end does not wait for the browsers: what is queued for one that is connected is not written.
\<close>

lemma board_end_cuts:
  assumes "bd_pc p = Listening" and "bd_requests p = 0"
  shows "\<exists>q. board_step\<^sup>*\<^sup>* p q \<and> bd_pc q = Ended None \<and> conns (bd_hub q) = conns (bd_hub p)"
proof -
  let ?a = "p\<lparr>bd_signalled := True\<rparr>"
  let ?b = "?a\<lparr>bd_pc := Quitting\<rparr>"
  let ?c = "board_quit ?b"
  let ?d = "?c\<lparr>bd_pc := Drained\<rparr>"
  have "board_step p ?a" using assms(1) by (intro bd_signal) (simp add: ended_def)
  moreover have "board_step ?a ?b" using assms(1) by (intro bd_wake) simp_all
  moreover have "board_step ?b ?c" by (intro bd_quit) simp
  moreover have "board_step ?c ?d" using assms(2) by (intro bd_drain) (simp_all add: board_quit_def)
  moreover have "board_step ?d (board_return None ?d)" by (intro bd_return) simp
  ultimately have "board_step\<^sup>*\<^sup>* p (board_return None ?d)"
    by (meson converse_rtranclp_into_rtranclp rtranclp.rtrancl_refl)
  then show ?thesis by (intro exI [of _ "board_return None ?d"]) (simp add: board_return_def board_quit_def)
qed

end
