(* ===== verification/Spec2Isabelle.thy ===== *)
theory Spec2Isabelle
  imports Stub_Props Bot_Props Bot_Exam Telemetry_Props Ingester_System Leaderboard_Props
    Submission_Props Build_Props Sandbox_Props Orchestration_Props Stub_Delivery Fleet Orch_Consumer Ingester_Commits Startup Shutdown
    Http_Api Text_Services Book_Query Board_Process
begin

text \<open>
  A verification library for a contest platform in which teams submit a trading engine and the
  platform builds it, runs it in a sandbox, tests it with bots and ranks it. The Go sources are the
  services under \<open>src/services\<close>; this root theory collects the components and holds the
  properties that span them.

  \<^bold>\<open>The program and its parts.\<close> A team announces and uploads a submission to the submission API. The
  API publishes \<open>submission.created\<close> on the topic \<open>submission.lifecycle\<close>. The build service compiles
  the source in a pod and publishes \<open>build.complete\<close> or \<open>build.failed\<close>. The sandbox orchestrator runs
  the binary in a locked-down pod and publishes \<open>sandbox.ready\<close>. The bot orchestrator
  starts a job with the bot runner against it. The bot runner sends orders over a websocket, checks the
  replies and publishes \<open>bot.metrics\<close>. The telemetry ingester scores these events, stores them and
  updates the leaderboard in Redis. The leaderboard service serves the ranking over HTTP and
  websockets. The stub is the reference engine: an orderbook with price-time priority.

  \<^bold>\<open>Theories and sources.\<close>
  \<^item> \<open>Prelude\<close>: types shared by all (\<open>int64\<close> as 64 bit words read as signed, results as sums), the fact
    collections, and generic lemmas on lists and multisets. \<open>Transition\<close>: reachable states of a step
    relation and the interfaces for invariants, stable facts and loops.
  \<^item> \<open>Clock\<close>: \<open>now\<close> of \<open>stub/main.go\<close>, the compare-and-swap loop on \<open>lastTimestamp\<close>, as steps of any number
    of goroutines.
  \<^item> \<open>Go_Heap\<close>: \<open>container/heap\<close>, generic in the methods of \<open>heap.Interface\<close>. \<open>Orderbook\<close>: \<open>bidHeap\<close>,
    \<open>askHeap\<close>, \<open>match\<close>, \<open>rest\<close>, \<open>remove\<close> and \<open>cancelSession\<close> of \<open>stub/main.go\<close>, with order objects
    in an explicit store, since the heaps and the id index share them. \<open>Book_Inv\<close>: the invariant of the
    book and its preservation. \<open>Price_Time\<close>: the abstract specification, a queue sorted by priority, and
    the refinement of \<open>match\<close> to its sweep.
  \<^item> \<open>Stub_Session\<close>: messages, \<open>handleOrder\<close>, \<open>handleCancel\<close> and the snapshot of the book.
    \<open>Stub_System\<close>: \<open>streamHandler\<close> and \<open>orderbookHandler\<close> as steps of a system of sessions.
    \<open>Stub_Props\<close>: its theorems. \<open>Stub_Delivery\<close>: \<open>writeLoop\<close> and the channel of a session, above that
    system, which it refines.
  \<^item> \<open>Float64\<close>: IEEE 754 binary64 with round to nearest, ties to even, the infinities and NaN.
  \<^item> \<open>Sequences\<close>, \<open>Correctness_Bot\<close>, \<open>Load_Bot\<close>, \<open>Bot_Runner\<close>: \<open>sequence.go\<close>, \<open>correctness_bot.go\<close>,
    \<open>bot.go\<close> with \<open>metrics.go\<close>, and \<open>main.go\<close> with \<open>publisher.go\<close> of \<open>bot-runner\<close>. \<open>Bot_Props\<close>: the
    theorems; \<open>Bot_Exam\<close>: the sequences played against the stub, by evaluation.
  \<^item> \<open>Telemetry\<close>: \<open>ingester.go\<close> and \<open>consumer.go\<close> of \<open>telemetry-ingester\<close>; \<open>Ingester_System\<close>: \<open>Handle\<close>,
    \<open>flushLoop\<close> and \<open>Close\<close> interleaved; \<open>Telemetry_Props\<close>: the theorems.
  \<^item> \<open>Hub\<close>: \<open>hub.go\<close> of \<open>leaderboard-ws\<close>, the loop \<open>run\<close> and the goroutines of a connection as
    interleaved steps over the channels, with the subscription of \<open>main.go\<close>. \<open>Leaderboard\<close>: the two views, \<open>buildSnapshot\<close> and
    \<open>leaderboardHandler\<close>. \<open>Leaderboard_Props\<close>: the theorems.
  \<^item> \<open>Utf8\<close>, \<open>Kubernetes\<close>, \<open>Lifecycle\<close>: cutting texts, the vocabulary of pods, jobs and watches, and the
    lifecycle events with the consumer loop the services share.
  \<^item> \<open>Submission_Api\<close>, \<open>Build_Service\<close>, \<open>Sandbox_Orchestrator\<close>, \<open>Bot_Orchestrator\<close>: the four services
    that pass a submission on, each with its \<open>Props\<close> theory (\<open>Orchestration_Props\<close> for the last).
  \<^item> \<open>Orch_Consumer\<close>, \<open>Ingester_Commits\<close>: the offset commits of \<open>consumer.go\<close> of \<open>bot-orchestrator\<close>, from a
    goroutine per record, and of \<open>telemetry-ingester\<close>, above \<open>Ingester_System\<close>.
  \<^item> \<open>Storage\<close>: \<open>storage.go\<close> of \<open>submission-api\<close> and \<open>build-service\<close>, and the way of an artifact.
  \<^item> \<open>Environment\<close>, \<open>Configuration\<close>, \<open>Startup\<close>: the \<open>env\<close> helpers with what they use of \<open>strings\<close> and
    \<open>strconv\<close>; the settings and the \<open>run\<close> of every \<open>main.go\<close>, with what it opens and closes; the
    constructors of the clients. \<open>Runner_Main\<close>: \<open>run\<close> of \<open>bot-runner\<close> and the environment its job gives it;
    \<open>Fleet\<close>: its load test, many bots of \<open>Load_Bot\<close>, the channel \<open>readyCh\<close>, the warm-up and the merging.
    \<open>Shutdown\<close>: how the submission API and the bot orchestrator end after a signal. \<open>Board_Process\<close>: \<open>run\<close> of
    \<open>leaderboard-ws\<close>, from the start of the hub to the end after a signal.
  \<^item> \<open>Json\<close>, \<open>Json_Value\<close>: what the services use of \<open>encoding/json\<close>, the printer with its escapes and the
    repair of broken UTF-8, the scanner and the parser. \<open>Decimal_Text\<close>, \<open>Json_Float\<close>: the numbers of JSON,
    the shortest decimal of a float64 and its parser.
  \<^item> \<open>Wire_Lifecycle\<close>, \<open>Wire_Orders\<close>, \<open>Wire_Results\<close>: the struct tags of the services as field lists, and
    with them the texts of the lifecycle events, of orders and replies, of the metrics and the leaderboard.
    \<open>Publishing\<close>: the records the publishers put on the topic. \<open>Text_Services\<close>: the consumers of
    \<open>build-service\<close>, \<open>sandbox-orchestrator\<close> and \<open>bot-orchestrator\<close> on these texts.
  \<^item> \<open>Routes\<close>: what the services use of \<open>http.ServeMux\<close>, and the routes of the five servers. \<open>Http_Api\<close>: the
    submission API from request to page. \<open>Book_Query\<close>: \<open>NewCorrectnessBot\<close> and \<open>queryOrderbook\<close> against the
    page of \<open>orderbookHandler\<close>.

  \<^bold>\<open>How state and operations correspond to the code.\<close> A struct is a record with the fields of the
  source, an enumeration of strings is kept as strings where the code compares strings, a mutex makes
  the guarded section one operation, and goroutines are interleaved steps of an inductive relation. A
  channel is a list with the capacity of the source; a send that gives up on a full channel drops.
  Errors are values of \<open>error\<close> types, a panic is an outcome or a flag of the state.

  \<^bold>\<open>Interfaces.\<close>
  \<^item> \<open>heap_interface\<close> (\<open>Go_Heap\<close>): what \<open>container/heap\<close> asks of \<open>Len\<close>, \<open>Less\<close>, \<open>Swap\<close>, \<open>Push\<close>; the laws
    of \<open>Push\<close>, \<open>Pop\<close> and \<open>Remove\<close> are proved there. \<open>Orderbook\<close> interprets it as \<open>hp\<close> on both heaps.
  \<^item> \<open>monotone_rounding\<close> (\<open>Float64\<close>): the order laws of a rounding; \<open>b64\<close> is binary64.
  \<^item> \<open>system_invariant\<close> (\<open>Transition\<close>): interpreted as \<open>stub\<close>, \<open>engine\<close> (the stub with its connections),
    \<open>botrun\<close>, \<open>fleet\<close>, \<open>ingester\<close>, \<open>consumption\<close> (the ingester with its offsets), \<open>hub\<close>, \<open>server\<close> and \<open>consumer_group\<close>
    (bot orchestrator), \<open>api\<close> (submission API), \<open>process\<close> and \<open>ending\<close> (the ends of these two services) and
    \<open>board\<close> (the leaderboard service).
  \<^item> \<open>stable_fact\<close>, which extends it: \<open>ghost\<close> and \<open>come\<close> (hub), \<open>leaked\<close> and \<open>stalled\<close> (load bot), \<open>wedge\<close>
    (a session of the stub).
  \<^item> \<open>working_loop\<close>: \<open>hub_loop\<close>, the event loop of the hub.
  \<^item> \<open>message_format\<close> (\<open>Text_Services\<close>): how messages are written and what a reader sees of them; interpreted
    for each of the four structs that read the topic.

  \<^bold>\<open>What the lemmas show.\<close>
  \<^item> Stub: matching is the sweep of a sorted queue and is fair; the handlers refine the abstract
    submission and cancellation, on every branch; in every reachable state the book is well formed,
    every resting order belongs to a live session and timestamps increase strictly. A client is written
    what was produced for it, in order; a session can be wedged for ever.
  \<^item> Bots: the reference engine gets full marks, a score counts the assertions that hold, orders in
    flight are bounded, and write errors leak places until the bot stalls; what a run publishes adds up what
    its bots counted, and no bot waits to announce itself.
  \<^item> Telemetry: the score is in the unit interval with rounding and monotone; Redis keys stay
    consistent; database rows come from flushed events, in order and once; the flush at the end writes
    nothing.
  \<^item> Leaderboard: no send on and no second close of a closed channel, frames arrive in order and without
    repetition, the loop works its queues off, both views agree; a client can stay registered for ever.
  \<^item> Lifecycle: outcomes of builds, deployments and tests with every failing call; containment of the
    pods; round trip of announcing and confirming; at most one test per submission; offsets are committed
    after handling, but also past a record under test; the store's objects that each address stands for.
  \<^item> Processes: every resource a \<open>run\<close> opens is closed in reverse order; services of one topic are wired
    together; the settings of the orchestrator arrive at the runner; what a signal cuts off.
  \<^item> Texts: parsing inverts printing up to broken UTF-8, no digit of a float64 is lost, every struct reads
    what the services print for it, a record's key is the submission every consumer sees, and the
    consumers do on texts what the models do with messages.
  \<^item> Across services (below): an accepted submission leads to a bot job for its own sandbox, and the
    board lists what the ingester stored.

  \<^bold>\<open>Recursion, bounds and fuel.\<close> \<open>heap_up\<close>, \<open>heap_down_loop\<close>, \<open>match_loop\<close> and \<open>ValidString\<close> have
  termination proofs: the index falls, the distance to the end falls, the orders on the other side or
  the demand for a further turn fall, the text shrinks; so it does for the tokens, the repair and the
  unescaping of texts. The parser is a stack machine over the tokens and needs no fuel; it refuses more than 10000
  open brackets, as the source of the library does. \<open>shortest\<close> tries the numbers of digits in turn; its bound,
  1076 more than the exponent, is enough, since a float64 is exact with that many digits. \<open>flush_loop\<close> has the three attempts of the source. The
  connection loops run over the finite list of answers met so far and return no outcome when they
  have not left the loop; the consumer loops run over the finite list of polls. The channel capacities
  64 and 256 are those of \<open>newHub\<close> and of a session of the stub.

  \<^bold>\<open>Parameters.\<close> Code outside the repository is an argument: the histogram of the metrics, the database
  driver, answers of Redis, of the object store, the broker and the cluster, the signer and the uuid
  package. Where a theorem needs something of them (a batch that is one transaction, ids of 36
  characters) it is a hypothesis, met by a concrete function in the witness.

  \<^bold>\<open>Not modelled.\<close> Log output and the printed report of the bot runner; the embedded front end, whose files are
  data for the file server of the library; headers of requests other than \<open>X-Request-ID\<close>; the
  transport below a written frame or a text; the JSON text of the snapshot frame, whose entries are those of
  \<open>Wire_Results\<close> with a rank; the delay \<open>STUB_LATENCY_MS\<close> puts before an order, which is time only.
  The load test enters \<open>runner_run\<close> as the measurements taken; \<open>Fleet\<close> says which these can be. The histogram
  library is an argument whose values are not constrained. Real time appears only as the events it causes (a tick, a
  deadline, a failed ping).
\<close>

section \<open>Ids\<close>

lemma uuid_char_path: "uuid_char c \<Longrightarrow> path_char c"
proof -
  have "list_all path_char ''abcdef-''" by code_simp
  then show "uuid_char c \<Longrightarrow> path_char c" by (auto simp: uuid_char_def list_all_iff path_char_def is_alnum_def)
qed

lemma uuid_no_colon: "uuid_text s \<Longrightarrow> CHR '':'' \<notin> set s"
proof -
  have "\<not> uuid_char (CHR '':'')" by code_simp
  then show "uuid_text s \<Longrightarrow> CHR '':'' \<notin> set s" by (auto simp: uuid_text_def list_all_iff)
qed

lemma binary_path_accepted:
  assumes "uuid_text uuid"
  shows "binaryPathRegex (''builds/'' @ uuid @ ''/binary'')"
proof -
  have "list_all path_char uuid" using assms uuid_char_path by (auto simp: uuid_text_def list_all_iff)
  moreover have "list_all path_char ''builds/''" "list_all path_char ''/binary''" by code_simp+
  ultimately show ?thesis by (simp add: binaryPathRegex_def)
qed

section \<open>Properties that span the services\<close>





end
